(* ===== verification/Prelude.thy ===== *)
theory Prelude
  imports Main "HOL-Library.Sublist"
begin

section \<open>Shared vocabulary and generic lemmas\<close>

text \<open>
  The vocabulary every component of the development uses. A Rust byte slice
  (\<open>&[u8]\<close>, \<open>Vec<u8>\<close>) and a Rust string (\<open>&str\<close>, \<open>String\<close>, which is its
  UTF-8 byte sequence) are both lists of bytes, and a byte is a HOL \<^typ>\<open>char\<close>
  (\<open>of_char\<close> is its numeric value, below 256), so that the literals of the source
  are HOL string literals. A computation that can panic returns an \<open>outcome\<close>:
  \<open>Ok\<close> and \<open>Err\<close> are Rust's \<open>Result\<close>, \<open>Panic\<close> is an
  out-of-range slice or index. Computations that cannot panic use \<open>'e + 'a\<close>
  (\<open>Inl\<close> the error) or \<open>option\<close>.

  The rest of the theory holds the iterator functions of the Rust standard library
  that the code uses (\<open>position\<close>, \<open>split\<close>, \<open>splitn\<close>, \<open>split_once\<close>,
  \<open>strip_prefix\<close>, slicing with a range) and the lemmas on lists that more than one
  component needs.
\<close>

type_synonym bytes = string

datatype ('e, 'a) outcome = Ok 'a | Err 'e | Panic

named_theorems scan_simps
  \<open>Rewrite rules for scanning a buffer: searching, splitting and slicing.\<close>
named_theorems ascii_simps
  \<open>Rewrite rules for the ASCII character classes.\<close>

named_theorems exec_simps
  \<open>Rules that evaluate the model on closed terms.\<close>

subsection \<open>Searching and splitting\<close>

text \<open>\<open>Iterator::position\<close>: the index of the first element that satisfies \<open>P\<close>.\<close>

fun position :: "('a \<Rightarrow> bool) \<Rightarrow> 'a list \<Rightarrow> nat option" where
  "position P [] = None"
| "position P (x # xs) = (if P x then Some 0 else map_option Suc (position P xs))"

text \<open>\<open>str::split\<close> and \<open>slice::split\<close> on one byte: always at least one piece.\<close>

fun split_on :: "'a \<Rightarrow> 'a list \<Rightarrow> 'a list list" where
  "split_on d [] = [[]]"
| "split_on d (x # xs) =
     (if x = d then [] # split_on d xs
      else (case split_on d xs of [] \<Rightarrow> [[x]] | p # ps \<Rightarrow> (x # p) # ps))"

text \<open>\<open>str::split_once\<close> on one byte.\<close>

definition split_once :: "'a \<Rightarrow> 'a list \<Rightarrow> ('a list \<times> 'a list) option" where
  "split_once d xs =
     (case position (\<lambda>x. x = d) xs of
        None \<Rightarrow> None
      | Some i \<Rightarrow> Some (take i xs, drop (i + 1) xs))"

text \<open>\<open>slice::splitn\<close>: at most \<open>n\<close> pieces, the last one unsplit.\<close>

fun splitn :: "nat \<Rightarrow> 'a \<Rightarrow> 'a list \<Rightarrow> 'a list list" where
  "splitn 0 d xs = []"
| "splitn (Suc 0) d xs = [xs]"
| "splitn (Suc (Suc n)) d xs =
     (case split_once d xs of
        None \<Rightarrow> [xs]
      | Some (a, b) \<Rightarrow> a # splitn (Suc n) d b)"

definition strip_prefix :: "'a list \<Rightarrow> 'a list \<Rightarrow> 'a list option" where
  "strip_prefix p xs =
     (if take (length p) xs = p then Some (drop (length p) xs) else None)"

definition starts_with :: "'a list \<Rightarrow> 'a list \<Rightarrow> bool" where
  "starts_with p xs \<longleftrightarrow> take (length p) xs = p"

text \<open>
  The range slice \<open>&xs[a..b]\<close>: \<open>None\<close> where Rust panics (\<open>a > b\<close> or \<open>b\<close>
  past the end).
\<close>

definition slice :: "'a list \<Rightarrow> nat \<Rightarrow> nat \<Rightarrow> 'a list option" where
  "slice xs a b = (if a \<le> b \<and> b \<le> length xs then Some (take (b - a) (drop a xs)) else None)"

text \<open>
  \<open>haystack.windows(needle.len()).position(|w| w == needle)\<close>: the windows of the
  haystack are its blocks of the needle's length, from left to right.
\<close>

fun window_position :: "'a list \<Rightarrow> 'a list \<Rightarrow> nat option" where
  "window_position needle [] = None"
| "window_position needle (x # xs) =
     (if length (x # xs) < length needle then None
      else if take (length needle) (x # xs) = needle then Some 0
      else map_option Suc (window_position needle xs))"

lemma splitn_3 [exec_simps]:
  "splitn 3 d xs =
     (case split_once d xs of
        None \<Rightarrow> [xs]
      | Some (a, b) \<Rightarrow>
          (case split_once d b of None \<Rightarrow> [a, b] | Some (c, e) \<Rightarrow> [a, c, e]))"
  by (auto simp: numeral_3_eq_3 split: option.splits)

declare split_once_def [exec_simps]
declare strip_prefix_def [exec_simps]
declare starts_with_def [exec_simps]
declare slice_def [exec_simps]
declare Let_def [exec_simps]

subsection \<open>Lemmas on searching\<close>

lemma position_None [scan_simps]: "position P xs = None \<longleftrightarrow> (\<forall>x \<in> set xs. \<not> P x)"
  by (induction xs) auto

lemma position_Some:
  "position P xs = Some i \<longleftrightarrow> i < length xs \<and> P (xs ! i) \<and> (\<forall>j < i. \<not> P (xs ! j))"
proof (induction xs arbitrary: i)
  case Nil
  then show ?case by simp
next
  case (Cons x xs)
  show ?case
    by (cases i) (auto simp: Cons.IH All_less_Suc2)
qed

lemma position_append:
  "position P (xs @ ys) =
     (case position P xs of
        Some i \<Rightarrow> Some i
      | None \<Rightarrow> map_option ((+) (length xs)) (position P ys))"
proof (induction xs)
  case Nil
  have "(+) (0 :: nat) = id" by auto
  then show ?case by (simp add: option.map_id)
next
  case (Cons x xs)
  then show ?case by (cases "position P xs"; cases "position P ys") auto
qed

lemma position_hit [scan_simps]:
  "(\<forall>x \<in> set xs. \<not> P x) \<Longrightarrow> P y \<Longrightarrow> position P (xs @ y # ys) = Some (length xs)"
  by (induction xs) auto

lemma position_less: "position P xs = Some i \<Longrightarrow> i < length xs"
  by (simp add: position_Some)

lemma split_once_hit [scan_simps]:
  "d \<notin> set xs \<Longrightarrow> split_once d (xs @ d # ys) = Some (xs, ys)"
proof -
  assume "d \<notin> set xs"
  then have "position (\<lambda>x. x = d) (xs @ d # ys) = Some (length xs)"
    by (intro position_hit) auto
  then show ?thesis by (simp add: split_once_def)
qed

lemma split_once_None [scan_simps]: "split_once d xs = None \<longleftrightarrow> d \<notin> set xs"
proof (cases "position (\<lambda>x. x = d) xs")
  case None
  then have "d \<notin> set xs" by (auto simp: position_None)
  with None show ?thesis by (simp add: split_once_def)
next
  case (Some i)
  then have "d \<in> set xs" by (auto simp: position_Some)
  with Some show ?thesis by (simp add: split_once_def)
qed

lemma split_once_Some:
  assumes "split_once d xs = Some (a, b)"
  shows "xs = a @ d # b" and "d \<notin> set a"
proof -
  from assms obtain i where i: "position (\<lambda>x. x = d) xs = Some i"
    and ab: "a = take i xs" "b = drop (Suc i) xs"
    by (auto simp: split_once_def split: option.splits)
  from i have *: "i < length xs" "xs ! i = d" "\<forall>j < i. xs ! j \<noteq> d"
    by (auto simp: position_Some)
  show "xs = a @ d # b" using *(1,2) ab id_take_nth_drop[OF *(1)] by simp
  show "d \<notin> set a" using * ab by (auto simp: in_set_conv_nth)
qed

lemma split_on_not_Nil [simp]: "split_on d xs \<noteq> []"
  by (induction xs) (auto split: list.splits)

lemma split_on_free [scan_simps]: "d \<notin> set xs \<Longrightarrow> split_on d xs = [xs]"
  by (induction xs) auto

lemma split_on_append [scan_simps]:
  "d \<notin> set xs \<Longrightarrow> split_on d (xs @ d # ys) = xs # split_on d ys"
  by (induction xs) auto

lemma split_on_pieces: "p \<in> set (split_on d xs) \<Longrightarrow> d \<notin> set p"
  by (induction xs arbitrary: p) (auto split: list.splits if_splits)

lemma set_split_on: "p \<in> set (split_on d xs) \<Longrightarrow> set p \<subseteq> set xs"
proof (induction xs arbitrary: p)
  case (Cons x xs)
  show ?case
  proof (cases "x = d")
    case True
    with Cons show ?thesis by fastforce
  next
    case False
    obtain q qs where q: "split_on d xs = q # qs"
      by (meson list.exhaust split_on_not_Nil)
    with False Cons.prems have "p = x # q \<or> p \<in> set qs" by simp
    with Cons.IH q show ?thesis by fastforce
  qed
qed simp

text \<open>Joining pieces with a separator, Rust's \<open>join\<close>; it undoes \<open>split_on\<close>.\<close>

fun join :: "'a list \<Rightarrow> 'a list list \<Rightarrow> 'a list" where
  "join sep [] = []"
| "join sep [p] = p"
| "join sep (p # q # ps) = p @ sep @ join sep (q # ps)"

lemma join_Cons: "ps \<noteq> [] \<Longrightarrow> join sep (p # ps) = p @ sep @ join sep ps"
  by (cases ps) simp_all

lemma join_split_on [simp]: "join [d] (split_on d xs) = xs"
proof (induction xs)
  case (Cons x xs)
  obtain q qs where q: "split_on d xs = q # qs"
    by (meson list.exhaust split_on_not_Nil)
  show ?case
    using Cons q by (cases qs) (auto simp: join_Cons)
qed simp

lemma split_on_join [scan_simps]:
  "ps \<noteq> [] \<Longrightarrow> \<forall>p \<in> set ps. d \<notin> set p \<Longrightarrow> split_on d (join [d] ps) = ps"
  by (induction ps rule: induct_list012) (auto simp: scan_simps)

lemma set_join: "set (join sep ps) \<subseteq> set sep \<union> (\<Union>p \<in> set ps. set p)"
  by (induction sep ps rule: join.induct) auto

lemma strip_prefix_append [simp]: "strip_prefix p (p @ xs) = Some xs"
  by (simp add: strip_prefix_def)

lemma strip_prefix_Some: "strip_prefix p xs = Some ys \<longleftrightarrow> xs = p @ ys"
  by (auto simp: strip_prefix_def) (metis append_take_drop_id)

lemma starts_with_append [simp]: "starts_with p (p @ xs)"
  by (simp add: starts_with_def)

lemma starts_with_prefix: "starts_with p xs \<longleftrightarrow> prefix p xs"
  by (metis append_take_drop_id append_eq_conv_conj prefix_def starts_with_def)

lemma slice_Some:
  "slice xs a b = Some ys \<longleftrightarrow> a \<le> b \<and> b \<le> length xs \<and> ys = take (b - a) (drop a xs)"
  by (auto simp: slice_def)

lemma slice_None: "slice xs a b = None \<longleftrightarrow> b < a \<or> length xs < b"
  by (auto simp: slice_def)

lemma slice_append: "slice xs a b = Some ys \<Longrightarrow> slice (xs @ zs) a b = Some ys"
  by (auto simp: slice_Some)

subsection \<open>The first window that equals the needle\<close>

lemma window_position_Some:
  assumes "needle \<noteq> []"
  shows "window_position needle xs = Some i \<longleftrightarrow>
     i + length needle \<le> length xs \<and> take (length needle) (drop i xs) = needle \<and>
     (\<forall>j < i. take (length needle) (drop j xs) \<noteq> needle)"
proof (induction xs arbitrary: i)
  case Nil
  with assms show ?case by simp
next
  case (Cons x xs)
  show ?case
  proof (cases i)
    case 0
    then show ?thesis
      by (auto simp: not_less dest: arg_cong[where f = length])
  next
    case (Suc k)
    have len: "length needle \<le> length ys"
      if "take (length needle) (drop k ys) = needle" for k and ys :: "'a list"
      using that by (metis diff_le_self le_trans length_drop length_take min.cobounded1)
    show ?thesis
      unfolding Suc by (auto simp: Cons.IH All_less_Suc2 not_less split: if_splits)
  qed
qed

lemma window_position_append:
  assumes "window_position needle xs = Some i" and "needle \<noteq> []"
  shows "window_position needle (xs @ ys) = Some i"
proof -
  from assms have *: "i + length needle \<le> length xs"
    "take (length needle) (drop i xs) = needle"
    "\<forall>j < i. take (length needle) (drop j xs) \<noteq> needle"
    by (simp_all add: window_position_Some)
  have "take (length needle) (drop j (xs @ ys)) = take (length needle) (drop j xs)" if "j \<le> i" for j
    using that *(1) by simp
  with * show ?thesis by (simp add: window_position_Some[OF assms(2)])
qed

lemma window_position_None:
  assumes "needle \<noteq> []"
  shows "window_position needle xs = None \<longleftrightarrow>
     (\<forall>i. i + length needle \<le> length xs \<longrightarrow> take (length needle) (drop i xs) \<noteq> needle)"
    (is "?L \<longleftrightarrow> ?R")
proof
  assume L: ?L
  show ?R
  proof (rule ccontr)
    assume "\<not> ?R"
    then have "\<exists>i. i + length needle \<le> length xs \<and> take (length needle) (drop i xs) = needle"
      by blast
    then obtain i where "i + length needle \<le> length xs"
      "take (length needle) (drop i xs) = needle"
      "\<forall>j < i. \<not> (j + length needle \<le> length xs \<and> take (length needle) (drop j xs) = needle)"
      using exists_least_iff[of "\<lambda>i. i + length needle \<le> length xs \<and>
        take (length needle) (drop i xs) = needle"] by blast
    then have "window_position needle xs = Some i"
      by (simp add: window_position_Some[OF assms])
    with L show False by simp
  qed
next
  assume ?R
  then show ?L
    by (cases "window_position needle xs") (auto simp: window_position_Some[OF assms])
qed

end
