(* ===== verification/Ascii.thy ===== *)
theory Ascii
  imports Prelude
begin

section \<open>ASCII classes, UTF-8 and trimming\<close>

text \<open>
  The byte-level functions of the Rust standard library that the code calls:
  \<open>u8::is_ascii_digit\<close> and its kin, \<open>eq_ignore_ascii_case\<close>,
  \<open>to_ascii_lowercase\<close>, \<open>core::str::from_utf8\<close> (here its validity test) and
  \<open>str::trim\<close>, which removes every character with the Unicode property
  White\_Space, in its UTF-8 encoding.
\<close>

abbreviation byte_val :: "char \<Rightarrow> nat" where
  "byte_val c \<equiv> of_char c"

abbreviation CR :: char where "CR \<equiv> CHR 0x0D"
abbreviation LF :: char where "LF \<equiv> CHR 0x0A"
abbreviation HTAB :: char where "HTAB \<equiv> CHR 0x09"
abbreviation DQUOTE :: char where "DQUOTE \<equiv> CHR 0x22"
abbreviation BACKSLASH :: char where "BACKSLASH \<equiv> CHR 0x5C"
abbreviation crlf :: bytes where "crlf \<equiv> [CR, LF]"

subsection \<open>Character classes\<close>

text \<open>
  The collection \<open>exec_simps\<close> (declared in the prelude) holds the rules that evaluate
  the model on closed terms by \<open>simp\<close>; each theory adds its definitions to it.
\<close>

definition is_ascii_digit :: "char \<Rightarrow> bool" where
  "is_ascii_digit c \<longleftrightarrow> 48 \<le> byte_val c \<and> byte_val c \<le> 57"

definition is_ascii_uppercase :: "char \<Rightarrow> bool" where
  "is_ascii_uppercase c \<longleftrightarrow> 65 \<le> byte_val c \<and> byte_val c \<le> 90"

definition is_ascii_lowercase :: "char \<Rightarrow> bool" where
  "is_ascii_lowercase c \<longleftrightarrow> 97 \<le> byte_val c \<and> byte_val c \<le> 122"

definition is_ascii_alphabetic :: "char \<Rightarrow> bool" where
  "is_ascii_alphabetic c \<longleftrightarrow> is_ascii_uppercase c \<or> is_ascii_lowercase c"

definition is_ascii_alphanumeric :: "char \<Rightarrow> bool" where
  "is_ascii_alphanumeric c \<longleftrightarrow> is_ascii_alphabetic c \<or> is_ascii_digit c"

definition to_lower_byte :: "char \<Rightarrow> char" where
  "to_lower_byte c = (if is_ascii_uppercase c then char_of (byte_val c + 32) else c)"

definition to_ascii_lowercase :: "bytes \<Rightarrow> bytes" where
  "to_ascii_lowercase s = map to_lower_byte s"

definition eq_ignore_ascii_case :: "bytes \<Rightarrow> bytes \<Rightarrow> bool" where
  "eq_ignore_ascii_case a b \<longleftrightarrow> map to_lower_byte a = map to_lower_byte b"

lemmas ascii_class_defs = is_ascii_digit_def is_ascii_uppercase_def is_ascii_lowercase_def
  is_ascii_alphabetic_def is_ascii_alphanumeric_def

declare ascii_class_defs [exec_simps]
declare eq_ignore_ascii_case_def [exec_simps]
declare to_ascii_lowercase_def [exec_simps]

lemma char_eq_byte_val: "c = d \<longleftrightarrow> byte_val c = byte_val d"
  by simp

lemma eq_ignore_refl [simp]: "eq_ignore_ascii_case a a"
  by (simp add: eq_ignore_ascii_case_def)

lemma eq_ignore_sym: "eq_ignore_ascii_case a b \<Longrightarrow> eq_ignore_ascii_case b a"
  by (simp add: eq_ignore_ascii_case_def)

lemma eq_ignore_trans:
  "eq_ignore_ascii_case a b \<Longrightarrow> eq_ignore_ascii_case b c \<Longrightarrow> eq_ignore_ascii_case a c"
  by (simp add: eq_ignore_ascii_case_def)

lemma eq_ignore_length: "eq_ignore_ascii_case a b \<Longrightarrow> length a = length b"
  unfolding eq_ignore_ascii_case_def by (metis length_map)

lemma eq_ignore_class: "eq_ignore_ascii_case a b \<Longrightarrow>
    eq_ignore_ascii_case a c = eq_ignore_ascii_case b c"
  by (simp add: eq_ignore_ascii_case_def)

text \<open>The table of the lower-case mapping, for evaluation on closed text.\<close>

lemma to_lower_table [exec_simps]:
  shows "to_lower_byte CHR ''A'' = CHR ''a''"
  and "to_lower_byte CHR ''B'' = CHR ''b''"
  and "to_lower_byte CHR ''C'' = CHR ''c''"
  and "to_lower_byte CHR ''D'' = CHR ''d''"
  and "to_lower_byte CHR ''E'' = CHR ''e''"
  and "to_lower_byte CHR ''F'' = CHR ''f''"
  and "to_lower_byte CHR ''G'' = CHR ''g''"
  and "to_lower_byte CHR ''H'' = CHR ''h''"
  and "to_lower_byte CHR ''I'' = CHR ''i''"
  and "to_lower_byte CHR ''J'' = CHR ''j''"
  and "to_lower_byte CHR ''K'' = CHR ''k''"
  and "to_lower_byte CHR ''L'' = CHR ''l''"
  and "to_lower_byte CHR ''M'' = CHR ''m''"
  and "to_lower_byte CHR ''N'' = CHR ''n''"
  and "to_lower_byte CHR ''O'' = CHR ''o''"
  and "to_lower_byte CHR ''P'' = CHR ''p''"
  and "to_lower_byte CHR ''Q'' = CHR ''q''"
  and "to_lower_byte CHR ''R'' = CHR ''r''"
  and "to_lower_byte CHR ''S'' = CHR ''s''"
  and "to_lower_byte CHR ''T'' = CHR ''t''"
  and "to_lower_byte CHR ''U'' = CHR ''u''"
  and "to_lower_byte CHR ''V'' = CHR ''v''"
  and "to_lower_byte CHR ''W'' = CHR ''w''"
  and "to_lower_byte CHR ''X'' = CHR ''x''"
  and "to_lower_byte CHR ''Y'' = CHR ''y''"
  and "to_lower_byte CHR ''Z'' = CHR ''z''"
  by (simp_all add: to_lower_byte_def is_ascii_uppercase_def char_of_eq_iff)

lemma to_lower_other [exec_simps]: "\<not> is_ascii_uppercase c \<Longrightarrow> to_lower_byte c = c"
  by (simp add: to_lower_byte_def)

subsection \<open>UTF-8 (\<open>core::str::from_utf8\<close>)\<close>

definition is_cont :: "char \<Rightarrow> bool" where
  "is_cont c \<longleftrightarrow> 128 \<le> byte_val c \<and> byte_val c \<le> 191"

definition byte_in :: "nat \<Rightarrow> nat \<Rightarrow> char \<Rightarrow> bool" where
  "byte_in lo hi c \<longleftrightarrow> lo \<le> byte_val c \<and> byte_val c \<le> hi"

text \<open>
  The length of the well-formed UTF-8 sequence at the front of the bytes, or 0 when
  there is none (Unicode, table 3-7).
\<close>

definition utf8_first :: "bytes \<Rightarrow> nat" where
  "utf8_first s = (case s of
      [] \<Rightarrow> 0
    | b # r \<Rightarrow>
       if byte_in 0 127 b then 1
       else if byte_in 194 223 b then (case r of c # _ \<Rightarrow> if is_cont c then 2 else 0 | [] \<Rightarrow> 0)
       else if byte_in 224 239 b then
         (case r of c # d # _ \<Rightarrow>
            if is_cont d \<and>
               (if byte_val b = 224 then byte_in 160 191 c
                else if byte_val b = 237 then byte_in 128 159 c else is_cont c)
            then 3 else 0 | _ \<Rightarrow> 0)
       else if byte_in 240 244 b then
         (case r of c # d # e # _ \<Rightarrow>
            if is_cont d \<and> is_cont e \<and>
               (if byte_val b = 240 then byte_in 144 191 c
                else if byte_val b = 244 then byte_in 128 143 c else is_cont c)
            then 4 else 0 | _ \<Rightarrow> 0)
       else 0)"

function utf8_valid :: "bytes \<Rightarrow> bool" where
  "utf8_valid s =
     (if s = [] then True
      else if utf8_first s = 0 then False
      else utf8_valid (drop (utf8_first s) s))"
  by pat_completeness auto
termination
  by (relation "measure length") auto

declare utf8_valid.simps [simp del]

lemma utf8_valid_Nil [simp]: "utf8_valid []"
  by (simp add: utf8_valid.simps)

lemma utf8_first_le: "utf8_first s \<le> length s"
  by (auto simp: utf8_first_def split: list.splits)

lemma utf8_first_append: "utf8_first s \<noteq> 0 \<Longrightarrow> utf8_first (s @ t) = utf8_first s"
proof -
  assume nz: "utf8_first s \<noteq> 0"
  consider (nil) "s = []" | (one) b where "s = [b]" | (two) b c where "s = [b, c]"
    | (three) b c d where "s = [b, c, d]" | (more) b c d e r where "s = b # c # d # e # r"
    by (metis list.exhaust)
  then show ?thesis
    using nz by cases (simp_all add: utf8_first_def split: if_split_asm)
qed

lemma utf8_first_ascii: "byte_val c < 128 \<Longrightarrow> utf8_first (c # s) = 1"
  by (simp add: utf8_first_def byte_in_def)

lemma utf8_valid_ascii_Cons [simp]: "byte_val c < 128 \<Longrightarrow> utf8_valid (c # s) = utf8_valid s"
  by (simp add: utf8_valid.simps[of "c # s"] utf8_first_ascii)

lemma utf8_valid_append [simp]: "utf8_valid s \<Longrightarrow> utf8_valid (s @ t) = utf8_valid t"
proof (induction s rule: utf8_valid.induct)
  case (1 s)
  show ?case
  proof (cases "s = []")
    case False
    with 1 have n: "utf8_first s \<noteq> 0" and v: "utf8_valid (drop (utf8_first s) s)"
      by (simp_all add: utf8_valid.simps[of s] split: if_splits)
    have "utf8_valid (s @ t) = utf8_valid (drop (utf8_first s) (s @ t))"
      using n False by (simp add: utf8_valid.simps[of "s @ t"] utf8_first_append)
    also have "drop (utf8_first s) (s @ t) = drop (utf8_first s) s @ t"
      using utf8_first_le[of s] by simp
    finally show ?thesis using 1(1)[OF False n v] by simp
  qed simp
qed

lemma utf8_valid_ascii: "\<forall>c \<in> set s. byte_val c < 128 \<Longrightarrow> utf8_valid s"
  by (induction s) auto

declare utf8_valid.simps [exec_simps]
declare utf8_first_def [exec_simps]
declare byte_in_def [exec_simps]
declare is_cont_def [exec_simps]

subsection \<open>\<open>str::trim\<close>\<close>

text \<open>The UTF-8 encodings of the 25 characters with the property White\_Space.\<close>

definition whitespace_encodings :: "bytes list" where
  "whitespace_encodings =
     [[CHR 0x09], [CHR 0x0A], [CHR 0x0B], [CHR 0x0C], [CHR 0x0D], [CHR '' ''],
      [CHR 0xC2, CHR 0x85], [CHR 0xC2, CHR 0xA0], [CHR 0xE1, CHR 0x9A, CHR 0x80],
      [CHR 0xE2, CHR 0x80, CHR 0x80], [CHR 0xE2, CHR 0x80, CHR 0x81],
      [CHR 0xE2, CHR 0x80, CHR 0x82], [CHR 0xE2, CHR 0x80, CHR 0x83],
      [CHR 0xE2, CHR 0x80, CHR 0x84], [CHR 0xE2, CHR 0x80, CHR 0x85],
      [CHR 0xE2, CHR 0x80, CHR 0x86], [CHR 0xE2, CHR 0x80, CHR 0x87],
      [CHR 0xE2, CHR 0x80, CHR 0x88], [CHR 0xE2, CHR 0x80, CHR 0x89],
      [CHR 0xE2, CHR 0x80, CHR 0x8A], [CHR 0xE2, CHR 0x80, CHR 0xA8],
      [CHR 0xE2, CHR 0x80, CHR 0xA9], [CHR 0xE2, CHR 0x80, CHR 0xAF],
      [CHR 0xE2, CHR 0x81, CHR 0x9F], [CHR 0xE3, CHR 0x80, CHR 0x80]]"

function trim_start :: "bytes \<Rightarrow> bytes" where
  "trim_start s =
     (case find (\<lambda>w. starts_with w s) whitespace_encodings of
        None \<Rightarrow> s
      | Some w \<Rightarrow> trim_start (drop (length w) s))"
  by pat_completeness auto
termination
proof (relation "measure length", simp)
  fix s w
  assume "find (\<lambda>w. starts_with w s) whitespace_encodings = Some w"
  then have "starts_with w s" "w \<in> set whitespace_encodings"
    by (auto simp: find_Some_iff)
  then show "(drop (length w) s, s) \<in> measure length"
    by (cases s) (auto simp: whitespace_encodings_def starts_with_def)
qed

definition ends_with :: "'a list \<Rightarrow> 'a list \<Rightarrow> bool" where
  "ends_with w s \<longleftrightarrow> length w \<le> length s \<and> drop (length s - length w) s = w"

function trim_end :: "bytes \<Rightarrow> bytes" where
  "trim_end s =
     (case find (\<lambda>w. ends_with w s) whitespace_encodings of
        None \<Rightarrow> s
      | Some w \<Rightarrow> trim_end (take (length s - length w) s))"
  by pat_completeness auto
termination
proof (relation "measure length", simp)
  fix s w
  assume "find (\<lambda>w. ends_with w s) whitespace_encodings = Some w"
  then have "ends_with w s" "w \<in> set whitespace_encodings"
    by (auto simp: find_Some_iff)
  then show "(take (length s - length w) s, s) \<in> measure length"
    by (cases s) (auto simp: whitespace_encodings_def ends_with_def)
qed

declare trim_start.simps [simp del] trim_end.simps [simp del]

definition trim :: "bytes \<Rightarrow> bytes" where
  "trim s = trim_end (trim_start s)"

text \<open>A byte that begins or ends no white-space character.\<close>

definition is_graphic :: "char \<Rightarrow> bool" where
  "is_graphic c \<longleftrightarrow> 33 \<le> byte_val c \<and> byte_val c \<le> 126"

lemma find_None_all: "\<forall>x \<in> set xs. \<not> P x \<Longrightarrow> find P xs = None"
  by (simp add: find_None_iff)

lemma trim_start_graphic: "is_graphic c \<Longrightarrow> trim_start (c # s) = c # s"
proof -
  assume "is_graphic c"
  then have "find (\<lambda>w. starts_with w (c # s)) whitespace_encodings = None"
    by (intro find_None_all)
      (auto simp: whitespace_encodings_def starts_with_def is_graphic_def)
  then show ?thesis by (simp add: trim_start.simps)
qed

lemma trim_end_graphic: "is_graphic c \<Longrightarrow> trim_end (s @ [c]) = s @ [c]"
proof -
  assume c: "is_graphic c"
  have "\<not> ends_with w (s @ [c])" if "w \<in> set whitespace_encodings" for w
  proof
    assume "ends_with w (s @ [c])"
    moreover from that have "w \<noteq> []" "\<not> is_graphic (last w)"
      by (auto simp: whitespace_encodings_def is_graphic_def)
    ultimately show False
      using c by (metis ends_with_def last_drop last_snoc length_drop length_greater_0_conv
          diff_less length_0_conv zero_less_diff)
  qed
  then have "find (\<lambda>w. ends_with w (s @ [c])) whitespace_encodings = None"
    by (intro find_None_all) blast
  then show ?thesis by (simp add: trim_end.simps)
qed

lemma trim_graphic:
  assumes "s \<noteq> []" and "is_graphic (hd s)" and "is_graphic (last s)"
  shows "trim s = s"
proof -
  from assms have "trim_start s = s" by (cases s) (auto simp: trim_start_graphic)
  moreover from assms have "trim_end s = s"
    by (metis append_butlast_last_id trim_end_graphic)
  ultimately show ?thesis by (simp add: trim_def)
qed

declare trim_graphic [exec_simps]
declare is_graphic_def [exec_simps]

lemma trim_Nil [simp]: "trim [] = []"
  by (simp add: trim_def trim_start.simps trim_end.simps find_None_all starts_with_def
      ends_with_def whitespace_encodings_def)

end
