(* ===== verification/Numerals.thy ===== *)
theory Numerals
  imports Ascii
begin

section \<open>Machine integers and their decimal and hexadecimal text\<close>

text \<open>
  The integer types of the code, on the 64-bit targets the std profile is released for
  (\<open>usize\<close> has 64 bits), as naturals or integers below an explicit bound. Arithmetic is
  that of the \<open>release\<close> profile, where an overflowing \<open>+\<close>, \<open>-\<close> or \<open>*\<close> wraps.
  \<open>show_nat\<close> and \<open>show_hex\<close> are the \<open>{}\<close> and \<open>{:x}\<close> formats,
  \<open>pad_zero\<close> the width of \<open>{:02}\<close> and \<open>{:04}\<close>, \<open>parse_unsigned\<close> and
  \<open>parse_i64\<close> are \<open>str::parse\<close>, which accepts a leading plus sign.
\<close>

definition USIZE_MAX :: nat where "USIZE_MAX = 2 ^ 64 - 1"
definition U64_MAX :: nat where "U64_MAX = 2 ^ 64 - 1"
definition U16_MAX :: nat where "U16_MAX = 2 ^ 16 - 1"

text \<open>Wrapping \<open>usize\<close> and \<open>u64\<close> addition and multiplication, wrapping \<open>i64\<close>.\<close>

definition wrap64 :: "nat \<Rightarrow> nat" where
  "wrap64 n = n mod 2 ^ 64"

definition wrap_i64 :: "int \<Rightarrow> int" where
  "wrap_i64 x = (x + 2 ^ 63) mod 2 ^ 64 - 2 ^ 63"

text \<open>Rust's \<open>/\<close> on signed integers truncates towards zero.\<close>

definition tdiv :: "int \<Rightarrow> int \<Rightarrow> int" where
  "tdiv a b = sgn a * sgn b * (\<bar>a\<bar> div \<bar>b\<bar>)"

declare USIZE_MAX_def [exec_simps]
declare U64_MAX_def [exec_simps]
declare U16_MAX_def [exec_simps]
declare wrap64_def [exec_simps]

lemma wrap64_id [simp]: "n < 2 ^ 64 \<Longrightarrow> wrap64 n = n"
  by (simp add: wrap64_def)

lemma wrap64_less: "wrap64 n < 2 ^ 64"
  by (simp add: wrap64_def)

lemma wrap_i64_id: "- (2 ^ 63) \<le> x \<Longrightarrow> x < 2 ^ 63 \<Longrightarrow> wrap_i64 x = x"
  by (simp add: wrap_i64_def)

lemma tdiv_nonneg: "0 \<le> a \<Longrightarrow> 0 < b \<Longrightarrow> tdiv a b = a div b"
  by (cases "a = 0") (simp_all add: tdiv_def sgn_if)

subsection \<open>Decimal text\<close>

definition digit_char :: "nat \<Rightarrow> char" where
  "digit_char d = char_of (48 + d)"

fun show_nat :: "nat \<Rightarrow> bytes" where
  "show_nat n = (if n < 10 then [digit_char n] else show_nat (n div 10) @ [digit_char (n mod 10)])"

declare show_nat.simps [simp del]

definition digit_val :: "char \<Rightarrow> nat" where
  "digit_val c = byte_val c - 48"

definition dec_value :: "bytes \<Rightarrow> nat" where
  "dec_value s = foldl (\<lambda>v c. v * 10 + digit_val c) 0 s"

definition pad_zero :: "nat \<Rightarrow> bytes \<Rightarrow> bytes" where
  "pad_zero w s = replicate (w - length s) (CHR ''0'') @ s"

lemma byte_val_digit_char [simp]: "d < 10 \<Longrightarrow> byte_val (digit_char d) = 48 + d"
  by (simp add: digit_char_def)

lemma digit_val_digit_char [simp]: "d < 10 \<Longrightarrow> digit_val (digit_char d) = d"
  by (simp add: digit_val_def)

lemma is_ascii_digit_digit_char [simp]: "d < 10 \<Longrightarrow> is_ascii_digit (digit_char d)"
  by (simp add: is_ascii_digit_def)

lemma show_nat_digits: "c \<in> set (show_nat n) \<Longrightarrow> is_ascii_digit c"
proof (induction n arbitrary: c rule: show_nat.induct)
  case (1 n)
  then show ?case
    by (cases "n < 10") (auto simp: show_nat.simps[of n])
qed

lemma show_nat_not_Nil [simp]: "show_nat n \<noteq> []"
  by (subst show_nat.simps) simp

lemma dec_value_Nil [simp]: "dec_value [] = 0"
  by (simp add: dec_value_def)

lemma dec_value_snoc [simp]: "dec_value (s @ [c]) = dec_value s * 10 + digit_val c"
  by (simp add: dec_value_def)

lemma dec_value_show_nat [simp]: "dec_value (show_nat n) = n"
proof (induction n rule: show_nat.induct)
  case (1 n)
  show ?case
  proof (cases "n < 10")
    case True
    then show ?thesis by (simp add: show_nat.simps[of n] dec_value_def)
  next
    case False
    with 1 show ?thesis by (simp add: show_nat.simps[of n])
  qed
qed

lemma dec_value_zeros: "dec_value (replicate k (CHR ''0'') @ s) = dec_value s"
proof -
  have "foldl (\<lambda>v c. v * 10 + digit_val c) 0 (replicate k (CHR ''0'')) = 0"
    by (induction k) (simp_all add: digit_val_def)
  then show ?thesis by (simp add: dec_value_def)
qed

lemma dec_value_pad_zero [simp]: "dec_value (pad_zero w s) = dec_value s"
  by (simp add: pad_zero_def dec_value_zeros)

lemma pad_zero_digits: "c \<in> set (pad_zero w (show_nat n)) \<Longrightarrow> is_ascii_digit c"
  by (auto simp: pad_zero_def is_ascii_digit_def dest: show_nat_digits)

lemma pad_zero_not_Nil [simp]: "pad_zero w (show_nat n) \<noteq> []"
  by (simp add: pad_zero_def)

lemma length_show_nat_le: "0 < k \<Longrightarrow> n < 10 ^ k \<Longrightarrow> length (show_nat n) \<le> k"
proof (induction n arbitrary: k rule: show_nat.induct)
  case (1 n)
  show ?case
  proof (cases "n < 10")
    case False
    then obtain j where j: "k = Suc j" "0 < j"
      using "1.prems" by (cases k; cases "k - 1") auto
    with "1.prems" have "n div 10 < 10 ^ j" by (simp add: less_mult_imp_div_less mult.commute)
    from "1.IH"[OF False j(2) this] show ?thesis
      using False j by (simp add: show_nat.simps[of n])
  qed (use "1.prems" in \<open>simp add: show_nat.simps[of n]\<close>)
qed

lemma length_pad_zero: "0 < k \<Longrightarrow> n < 10 ^ k \<Longrightarrow> length (pad_zero k (show_nat n)) = k"
  using length_show_nat_le[of k n] by (simp add: pad_zero_def)

text \<open>A byte that is no digit does not occur in decimal text.\<close>

lemma not_in_show_nat: "\<not> is_ascii_digit c \<Longrightarrow> c \<notin> set (show_nat n)"
  by (auto dest: show_nat_digits)

lemma not_in_pad_zero: "\<not> is_ascii_digit c \<Longrightarrow> c \<notin> set (pad_zero w (show_nat n))"
  by (auto dest: pad_zero_digits)

subsection \<open>Parsing decimal text (\<open>str::parse\<close>)\<close>

definition parse_digits :: "bytes \<Rightarrow> nat option" where
  "parse_digits s = (if s = [] \<or> \<not> list_all is_ascii_digit s then None else Some (dec_value s))"

definition parse_unsigned :: "nat \<Rightarrow> bytes \<Rightarrow> nat option" where
  "parse_unsigned limit s =
     (let t = (case s of [] \<Rightarrow> [] | c # r \<Rightarrow> if c = CHR ''+'' then r else s)
      in case parse_digits t of
           None \<Rightarrow> None
         | Some n \<Rightarrow> if n \<le> limit then Some n else None)"

definition parse_u64 :: "bytes \<Rightarrow> nat option" where
  "parse_u64 = parse_unsigned U64_MAX"

definition parse_usize :: "bytes \<Rightarrow> nat option" where
  "parse_usize = parse_unsigned USIZE_MAX"

definition parse_i64 :: "bytes \<Rightarrow> int option" where
  "parse_i64 s =
     (case s of
        [] \<Rightarrow> None
      | c # r \<Rightarrow>
          if c = CHR ''-'' then
            (case parse_digits r of
               None \<Rightarrow> None
             | Some n \<Rightarrow> if n \<le> 2 ^ 63 then Some (- int n) else None)
          else
            (case parse_digits (if c = CHR ''+'' then r else s) of
               None \<Rightarrow> None
             | Some n \<Rightarrow> if n < 2 ^ 63 then Some (int n) else None))"

lemma parse_digits_pad [simp]: "parse_digits (pad_zero w (show_nat n)) = Some n"
  by (auto simp: parse_digits_def list_all_iff dest: pad_zero_digits)

lemma parse_digits_show [simp]: "parse_digits (show_nat n) = Some n"
  by (auto simp: parse_digits_def list_all_iff dest: show_nat_digits)

lemma digits_hd:
  assumes "\<And>c. c \<in> set s \<Longrightarrow> is_ascii_digit c" and "s \<noteq> []"
  obtains c r where "s = c # r" "c \<noteq> CHR ''+''" "c \<noteq> CHR ''-''"
proof -
  obtain c r where s: "s = c # r" using assms(2) by (cases s) auto
  with assms(1)[of c] have "is_ascii_digit c" by simp
  then have "c \<noteq> CHR ''+''" "c \<noteq> CHR ''-''" by (auto simp: is_ascii_digit_def)
  with s that show ?thesis by blast
qed

lemma parse_unsigned_digits:
  assumes "parse_digits s = Some n"
  shows "parse_unsigned limit s = (if n \<le> limit then Some n else None)"
proof -
  from assms have "\<And>c. c \<in> set s \<Longrightarrow> is_ascii_digit c" and "s \<noteq> []"
    by (auto simp: parse_digits_def list_all_iff split: if_splits)
  then obtain c r where "s = c # r" "c \<noteq> CHR ''+''" by (rule digits_hd)
  with assms show ?thesis by (simp add: parse_unsigned_def)
qed

lemma parse_i64_digits:
  assumes "parse_digits s = Some n"
  shows "parse_i64 s = (if n < 2 ^ 63 then Some (int n) else None)"
proof -
  from assms have "\<And>c. c \<in> set s \<Longrightarrow> is_ascii_digit c" and "s \<noteq> []"
    by (auto simp: parse_digits_def list_all_iff split: if_splits)
  then obtain c r where "s = c # r" "c \<noteq> CHR ''+''" "c \<noteq> CHR ''-''" by (rule digits_hd)
  with assms show ?thesis by (simp add: parse_i64_def)
qed

lemma parse_u64_show [simp]: "n \<le> U64_MAX \<Longrightarrow> parse_u64 (show_nat n) = Some n"
  by (simp add: parse_u64_def parse_unsigned_digits)

lemma parse_usize_show [simp]: "n \<le> USIZE_MAX \<Longrightarrow> parse_usize (show_nat n) = Some n"
  by (simp add: parse_usize_def parse_unsigned_digits)

lemma parse_u64_pad [simp]: "n \<le> U64_MAX \<Longrightarrow> parse_u64 (pad_zero w (show_nat n)) = Some n"
  by (simp add: parse_u64_def parse_unsigned_digits)

lemma parse_i64_pad: "n < 2 ^ 63 \<Longrightarrow> parse_i64 (pad_zero w (show_nat n)) = Some (int n)"
  by (simp add: parse_i64_digits)

lemma parse_u64_le: "parse_u64 s = Some n \<Longrightarrow> n \<le> U64_MAX"
  by (auto simp: parse_u64_def parse_unsigned_def Let_def split: option.splits if_splits)

subsection \<open>Hexadecimal text\<close>

definition hex_digit_char :: "nat \<Rightarrow> char" where
  "hex_digit_char d = (if d < 10 then char_of (48 + d) else char_of (87 + d))"

fun show_hex :: "nat \<Rightarrow> bytes" where
  "show_hex n =
     (if n < 16 then [hex_digit_char n] else show_hex (n div 16) @ [hex_digit_char (n mod 16)])"

declare show_hex.simps [simp del]

text \<open>The value of a hexadecimal digit in either case (\<open>char::to_digit(16)\<close>).\<close>

definition hex_digit_val :: "char \<Rightarrow> nat option" where
  "hex_digit_val c =
     (if byte_in 48 57 c then Some (byte_val c - 48)
      else if byte_in 97 102 c then Some (byte_val c - 97 + 10)
      else if byte_in 65 70 c then Some (byte_val c - 65 + 10)
      else None)"

lemma byte_val_hex_digit_char:
  "d < 16 \<Longrightarrow> byte_val (hex_digit_char d) = (if d < 10 then 48 + d else 87 + d)"
  by (simp add: hex_digit_char_def)

lemma hex_digit_val_char [simp]: "d < 16 \<Longrightarrow> hex_digit_val (hex_digit_char d) = Some d"
  by (auto simp: hex_digit_val_def byte_in_def byte_val_hex_digit_char)

lemma hex_digit_val_less: "hex_digit_val c = Some d \<Longrightarrow> d < 16"
  by (auto simp: hex_digit_val_def byte_in_def split: if_splits)

lemma show_hex_not_Nil [simp]: "show_hex n \<noteq> []"
  by (subst show_hex.simps) simp

lemma show_hex_chars: "c \<in> set (show_hex n) \<Longrightarrow> \<exists>d < 16. c = hex_digit_char d"
proof (induction n arbitrary: c rule: show_hex.induct)
  case (1 n)
  have "\<exists>d < 16. hex_digit_char (n mod 16) = hex_digit_char d"
    by (rule exI[of _ "n mod 16"]) simp
  with 1 show ?case
    by (cases "n < 16") (auto simp: show_hex.simps[of n])
qed

lemma show_hex_graphic: "c \<in> set (show_hex n) \<Longrightarrow> is_ascii_alphanumeric c"
  by (auto dest!: show_hex_chars simp: ascii_class_defs byte_val_hex_digit_char split: if_splits)

declare show_nat.simps [exec_simps]
declare show_hex.simps [exec_simps]
declare pad_zero_def [exec_simps]
declare digit_val_def [exec_simps]
declare dec_value_def [exec_simps]
declare parse_digits_def [exec_simps]
declare parse_unsigned_def [exec_simps]
declare parse_u64_def [exec_simps]
declare parse_usize_def [exec_simps]
declare parse_i64_def [exec_simps]
declare hex_digit_val_def [exec_simps]

text \<open>Digits of closed text, as character literals.\<close>

lemma digit_char_table [exec_simps]:
  shows "digit_char 0 = CHR ''0''"
  and "digit_char (Suc 0) = CHR ''1''"
  and "digit_char 1 = CHR ''1''"
  and "digit_char 2 = CHR ''2''"
  and "digit_char 3 = CHR ''3''"
  and "digit_char 4 = CHR ''4''"
  and "digit_char 5 = CHR ''5''"
  and "digit_char 6 = CHR ''6''"
  and "digit_char 7 = CHR ''7''"
  and "digit_char 8 = CHR ''8''"
  and "digit_char 9 = CHR ''9''"
  by (simp_all add: digit_char_def char_of_eq_iff)

lemma hex_digit_char_table [exec_simps]:
  shows "hex_digit_char 0 = CHR ''0''"
  and "hex_digit_char (Suc 0) = CHR ''1''"
  and "hex_digit_char 1 = CHR ''1''"
  and "hex_digit_char 2 = CHR ''2''"
  and "hex_digit_char 3 = CHR ''3''"
  and "hex_digit_char 4 = CHR ''4''"
  and "hex_digit_char 5 = CHR ''5''"
  and "hex_digit_char 6 = CHR ''6''"
  and "hex_digit_char 7 = CHR ''7''"
  and "hex_digit_char 8 = CHR ''8''"
  and "hex_digit_char 9 = CHR ''9''"
  and "hex_digit_char 10 = CHR ''a''"
  and "hex_digit_char 11 = CHR ''b''"
  and "hex_digit_char 12 = CHR ''c''"
  and "hex_digit_char 13 = CHR ''d''"
  and "hex_digit_char 14 = CHR ''e''"
  and "hex_digit_char 15 = CHR ''f''"
  by (simp_all add: hex_digit_char_def char_of_eq_iff)

end
