(* ===== verification/Http_Types.thy ===== *)
theory Http_Types
  imports Numerals
begin

section \<open>Methods, status codes, MIME types\<close>

text \<open>
  \<open>crates/core/src/http/method.rs\<close>, \<open>status.rs\<close> and \<open>mime.rs\<close>: the enum of
  request methods with its token parser and printer, the status codes with their reason
  phrases, and the extension table. A \<open>StatusCode\<close> is its \<open>u16\<close> code.
\<close>

subsection \<open>Methods\<close>

datatype http_method =
  Get | Head | Post | Put | Patch | Delete | Options | Connect | Trace | Query

definition method_from_bytes :: "bytes \<Rightarrow> http_method option" where
  "method_from_bytes token =
     (if token = ''GET'' then Some Get
      else if token = ''HEAD'' then Some Head
      else if token = ''POST'' then Some Post
      else if token = ''PUT'' then Some Put
      else if token = ''PATCH'' then Some Patch
      else if token = ''DELETE'' then Some Delete
      else if token = ''OPTIONS'' then Some Options
      else if token = ''CONNECT'' then Some Connect
      else if token = ''TRACE'' then Some Trace
      else if token = ''QUERY'' then Some Query
      else None)"

fun method_as_str :: "http_method \<Rightarrow> bytes" where
  "method_as_str Get = ''GET''"
| "method_as_str Head = ''HEAD''"
| "method_as_str Post = ''POST''"
| "method_as_str Put = ''PUT''"
| "method_as_str Patch = ''PATCH''"
| "method_as_str Delete = ''DELETE''"
| "method_as_str Options = ''OPTIONS''"
| "method_as_str Connect = ''CONNECT''"
| "method_as_str Trace = ''TRACE''"
| "method_as_str Query = ''QUERY''"

fun is_head :: "http_method \<Rightarrow> bool" where
  "is_head Head = True"
| "is_head _ = False"

lemma method_from_bytes_as_str [simp]: "method_from_bytes (method_as_str m) = Some m"
  by (cases m) (simp_all add: method_from_bytes_def)

lemma method_from_bytes_Some: "method_from_bytes t = Some m \<Longrightarrow> t = method_as_str m"
  by (auto simp: method_from_bytes_def split: if_splits)

lemma is_head_iff: "is_head m \<longleftrightarrow> m = Head"
  by (cases m) auto

lemma method_as_str_inj: "method_as_str a = method_as_str b \<Longrightarrow> a = b"
  by (metis method_from_bytes_as_str option.inject)

text \<open>
  A method token holds only letters, so it contains neither the blank that ends it in a
  request line nor the comma that separates it in an \<open>Allow\<close> field.
\<close>

lemma method_as_str_alpha: "c \<in> set (method_as_str m) \<Longrightarrow> is_ascii_uppercase c"
  by (cases m) (auto simp: is_ascii_uppercase_def)

lemma method_as_str_not_Nil [simp]: "method_as_str m \<noteq> []"
  by (cases m) auto

subsection \<open>Status codes\<close>

type_synonym status_code = nat

definition CONTINUE :: status_code where [simp]: "CONTINUE = 100"
definition OK :: status_code where [simp]: "OK = 200"
definition PARTIAL_CONTENT :: status_code where [simp]: "PARTIAL_CONTENT = 206"
definition NOT_MODIFIED :: status_code where [simp]: "NOT_MODIFIED = 304"
definition BAD_REQUEST :: status_code where [simp]: "BAD_REQUEST = 400"
definition UNAUTHORIZED :: status_code where [simp]: "UNAUTHORIZED = 401"
definition NOT_FOUND :: status_code where [simp]: "NOT_FOUND = 404"
definition METHOD_NOT_ALLOWED :: status_code where [simp]: "METHOD_NOT_ALLOWED = 405"
definition PAYLOAD_TOO_LARGE :: status_code where [simp]: "PAYLOAD_TOO_LARGE = 413"
definition URI_TOO_LONG :: status_code where [simp]: "URI_TOO_LONG = 414"
definition UNSUPPORTED_MEDIA_TYPE :: status_code where [simp]: "UNSUPPORTED_MEDIA_TYPE = 415"
definition RANGE_NOT_SATISFIABLE :: status_code where [simp]: "RANGE_NOT_SATISFIABLE = 416"
definition EXPECTATION_FAILED :: status_code where [simp]: "EXPECTATION_FAILED = 417"
definition TOO_MANY_REQUESTS :: status_code where [simp]: "TOO_MANY_REQUESTS = 429"
definition REQUEST_HEADER_FIELDS_TOO_LARGE :: status_code where [simp]: "REQUEST_HEADER_FIELDS_TOO_LARGE = 431"
definition INTERNAL_SERVER_ERROR :: status_code where [simp]: "INTERNAL_SERVER_ERROR = 500"
definition NOT_IMPLEMENTED :: status_code where [simp]: "NOT_IMPLEMENTED = 501"
definition HTTP_VERSION_NOT_SUPPORTED :: status_code where [simp]: "HTTP_VERSION_NOT_SUPPORTED = 505"

definition reason :: "status_code \<Rightarrow> bytes" where
  "reason code =
     (if code = 100 then ''Continue''
      else if code = 200 then ''OK''
      else if code = 201 then ''Created''
      else if code = 204 then ''No Content''
      else if code = 206 then ''Partial Content''
      else if code = 304 then ''Not Modified''
      else if code = 400 then ''Bad Request''
      else if code = 401 then ''Unauthorized''
      else if code = 403 then ''Forbidden''
      else if code = 404 then ''Not Found''
      else if code = 405 then ''Method Not Allowed''
      else if code = 413 then ''Content Too Large''
      else if code = 414 then ''URI Too Long''
      else if code = 415 then ''Unsupported Media Type''
      else if code = 416 then ''Range Not Satisfiable''
      else if code = 417 then ''Expectation Failed''
      else if code = 418 then ''I'' @ [CHR 0x27] @ ''m a teapot''
      else if code = 429 then ''Too Many Requests''
      else if code = 431 then ''Request Header Fields Too Large''
      else if code = 500 then ''Internal Server Error''
      else if code = 501 then ''Not Implemented''
      else if code = 505 then ''HTTP Version Not Supported''
      else [])"

definition is_empty_body :: "status_code \<Rightarrow> bool" where
  "is_empty_body code \<longleftrightarrow> (100 \<le> code \<and> code \<le> 199) \<or> code = 204 \<or> code = 304"

text \<open>Reason phrases hold printable ASCII only: no phrase can end the status line.\<close>

definition is_text_byte :: "char \<Rightarrow> bool" where
  "is_text_byte c \<longleftrightarrow> 32 \<le> byte_val c \<and> byte_val c \<le> 126"

lemma reason_text: "c \<in> set (reason code) \<Longrightarrow> is_text_byte c"
proof -
  have "list_all is_text_byte (reason code)"
    by (simp add: reason_def is_text_byte_def)
  then show "c \<in> set (reason code) \<Longrightarrow> is_text_byte c" by (simp add: list_all_iff)
qed

subsection \<open>MIME types\<close>

definition builtin_mime :: "bytes \<Rightarrow> bytes" where
  "builtin_mime ext =
     (let e = to_ascii_lowercase ext in
      if e = ''html'' \<or> e = ''htm'' then ''text/html; charset=utf-8''
      else if e = ''css'' then ''text/css; charset=utf-8''
      else if e = ''js'' \<or> e = ''mjs'' then ''text/javascript; charset=utf-8''
      else if e = ''json'' then ''application/json''
      else if e = ''txt'' then ''text/plain; charset=utf-8''
      else if e = ''csv'' then ''text/csv; charset=utf-8''
      else if e = ''xml'' then ''application/xml''
      else if e = ''svg'' then ''image/svg+xml''
      else if e = ''png'' then ''image/png''
      else if e = ''jpg'' \<or> e = ''jpeg'' then ''image/jpeg''
      else if e = ''gif'' then ''image/gif''
      else if e = ''webp'' then ''image/webp''
      else if e = ''ico'' then ''image/x-icon''
      else if e = ''woff'' then ''font/woff''
      else if e = ''woff2'' then ''font/woff2''
      else if e = ''ttf'' then ''font/ttf''
      else if e = ''pdf'' then ''application/pdf''
      else if e = ''zip'' then ''application/zip''
      else if e = ''gz'' then ''application/gzip''
      else if e = ''wasm'' then ''application/wasm''
      else if e = ''mp4'' then ''video/mp4''
      else if e = ''mp3'' then ''audio/mpeg''
      else ''application/octet-stream'')"

text \<open>\<open>name.rfind('.')\<close>: the suffix from the last dot, or empty.\<close>

definition dotted_ext :: "bytes \<Rightarrow> bytes" where
  "dotted_ext name =
     (case position (\<lambda>c. c = CHR ''.'') (rev name) of
        None \<Rightarrow> []
      | Some i \<Rightarrow> drop (length name - 1 - i) name)"

fun mime_override :: "bytes \<Rightarrow> (bytes \<times> bytes) list \<Rightarrow> bytes option" where
  "mime_override dotted [] = None"
| "mime_override dotted ((ext, ty) # rest) =
     (if eq_ignore_ascii_case ext dotted then Some ty else mime_override dotted rest)"

definition mime_for :: "bytes \<Rightarrow> (bytes \<times> bytes) list \<Rightarrow> bytes" where
  "mime_for name overrides =
     (let dotted = dotted_ext name;
          builtin = builtin_mime (case strip_prefix ''.'' dotted of None \<Rightarrow> [] | Some e \<Rightarrow> e)
      in if dotted \<noteq> [] then
           (case mime_override dotted overrides of Some ty \<Rightarrow> ty | None \<Rightarrow> builtin)
         else builtin)"

lemma mime_override_first:
  "mime_override d ovs = map_option snd (find (\<lambda>(ext, _). eq_ignore_ascii_case ext d) ovs)"
  by (induction ovs) auto

lemma dotted_ext_append:
  assumes "CHR ''.'' \<notin> set e"
  shows "dotted_ext (s @ CHR ''.'' # e) = CHR ''.'' # e"
proof -
  have "position (\<lambda>c. c = CHR ''.'') (rev e @ CHR ''.'' # rev s) = Some (length (rev e))"
    using assms by (intro position_hit) auto
  then show ?thesis by (simp add: dotted_ext_def)
qed

lemma dotted_ext_none: "CHR ''.'' \<notin> set s \<Longrightarrow> dotted_ext s = []"
proof -
  assume "CHR ''.'' \<notin> set s"
  then have "position (\<lambda>c. c = CHR ''.'') (rev s) = None" by (auto simp: position_None)
  then show ?thesis by (simp add: dotted_ext_def)
qed

declare method_from_bytes_def [exec_simps]
declare reason_def [exec_simps]
declare is_empty_body_def [exec_simps]
declare builtin_mime_def [exec_simps]
declare dotted_ext_def [exec_simps]
declare mime_for_def [exec_simps]

end
