(* ===== verification/Request.thy ===== *)
theory Request
  imports Http_Types
begin

section \<open>Requests and the incremental request parser\<close>

text \<open>
  \<open>crates/core/src/http/request.rs\<close>. The parser is called on a growing buffer:
  \<open>parse_with\<close> answers \<open>Partial\<close> while bytes are missing, \<open>Complete\<close> with the
  request and the number of bytes it took, or a \<open>parse_error\<close>. The third outcome,
  \<open>Panic\<close>, is an out-of-range slice in \<open>decode_chunked\<close>, reachable because the sum
  of the data offset and the announced chunk size is not checked for overflow.
  The theory holds the data model and the operations; their properties are in
  \<open>Request_Laws\<close>.
\<close>

definition MAX_HEAD_BYTES :: nat where "MAX_HEAD_BYTES = 16 * 1024"
definition MAX_HEADERS :: nat where "MAX_HEADERS = 64"
definition MAX_TARGET_BYTES :: nat where "MAX_TARGET_BYTES = 8 * 1024"
definition MAX_BODY_BYTES :: nat where "MAX_BODY_BYTES = 1024 * 1024"
definition MAX_CHUNK_LINE_BYTES :: nat where "MAX_CHUNK_LINE_BYTES = 8 * 1024"

datatype version = Http10 | Http11

record header =
  hdr_name :: bytes
  hdr_value :: bytes

record request =
  req_method :: http_method
  req_target :: bytes
  req_version :: version
  req_headers :: "header list"
  req_body :: bytes

datatype parse_error =
  HeadTooLarge | TooManyHeaders | MalformedRequestLine | UnknownMethod | TargetTooLong
| UnsupportedVersion | BareCr | BadHost | MalformedHeader | BadContentLength
| ConflictingFraming | UnsupportedTransferEncoding | MalformedChunk | BodyTooLarge

datatype parsed = Partial | Complete request nat

subsection \<open>Scanning helpers\<close>

definition find_subslice :: "bytes \<Rightarrow> bytes \<Rightarrow> nat option" where
  "find_subslice haystack needle =
     (if needle = [] \<or> length haystack < length needle then None
      else window_position needle haystack)"

lemma find_subslice_Some:
  assumes "needle \<noteq> []"
  shows "find_subslice h needle = Some i \<longleftrightarrow>
     i + length needle \<le> length h \<and> take (length needle) (drop i h) = needle \<and>
     (\<forall>j < i. take (length needle) (drop j h) \<noteq> needle)"
  using assms by (auto simp: find_subslice_def window_position_Some)

text \<open>The \<open>split_crlf\<close> iterator, as the list of the lines it yields.\<close>

function split_crlf :: "bytes \<Rightarrow> bytes list" where
  "split_crlf block =
     (case find_subslice block crlf of
        Some i \<Rightarrow> take i block # split_crlf (drop (i + 2) block)
      | None \<Rightarrow> [block])"
  by pat_completeness auto
termination
  by (relation "measure length") (auto simp: find_subslice_Some)

declare split_crlf.simps [simp del]

definition is_ows :: "char \<Rightarrow> bool" where
  "is_ows b \<longleftrightarrow> b = CHR '' '' \<or> b = HTAB"

definition trim_ows :: "bytes \<Rightarrow> bytes" where
  "trim_ows s = rev (dropWhile is_ows (rev (dropWhile is_ows s)))"

definition is_token_byte :: "char \<Rightarrow> bool" where
  "is_token_byte b \<longleftrightarrow> is_ascii_alphanumeric b \<or>
     b \<in> set [CHR ''!'', CHR ''#'', CHR ''$'', CHR ''%'', CHR ''&'', CHR 0x27, CHR ''*'',
              CHR ''+'', CHR ''-'', CHR ''.'', CHR ''^'', CHR ''_'', CHR 0x60, CHR ''|'',
              CHR ''~'']"

text \<open>A CR that is not followed by an LF.\<close>

fun has_bare_cr :: "bytes \<Rightarrow> bool" where
  "has_bare_cr [] = False"
| "has_bare_cr [b] = (b = CR)"
| "has_bare_cr (b # c # rest) = ((b = CR \<and> c \<noteq> LF) \<or> has_bare_cr (c # rest))"

subsection \<open>Request accessors\<close>

definition req_header :: "request \<Rightarrow> bytes \<Rightarrow> bytes option" where
  "req_header r name =
     map_option hdr_value (find (\<lambda>h. eq_ignore_ascii_case (hdr_name h) name) (req_headers r))"

definition valid_scheme :: "bytes \<Rightarrow> bool" where
  "valid_scheme scheme \<longleftrightarrow>
     (case scheme of [] \<Rightarrow> False | b # _ \<Rightarrow> is_ascii_alphabetic b) \<and>
     list_all (\<lambda>b. is_ascii_alphanumeric b \<or> b = CHR ''+'' \<or> b = CHR ''-'' \<or> b = CHR ''.'') scheme"

definition absolute_form_path :: "request \<Rightarrow> bytes option" where
  "absolute_form_path r =
     (case find_subslice (req_target r) ''://'' of
        None \<Rightarrow> None
      | Some scheme_end \<Rightarrow>
          if \<not> valid_scheme (take scheme_end (req_target r)) then None
          else (let after_authority = drop (scheme_end + 3) (req_target r)
                in case position (\<lambda>c. c = CHR ''/'') after_authority of
                     Some i \<Rightarrow> Some (drop i after_authority)
                   | None \<Rightarrow> Some ''/''))"

definition req_path :: "request \<Rightarrow> bytes" where
  "req_path r =
     (let target = (case absolute_form_path r of Some p \<Rightarrow> p | None \<Rightarrow> req_target r)
      in case split_once (CHR ''?'') target of Some (p, _) \<Rightarrow> p | None \<Rightarrow> target)"

definition req_keep_alive :: "request \<Rightarrow> bool" where
  "req_keep_alive r =
     (case req_header r ''connection'' of
        Some v \<Rightarrow>
          if eq_ignore_ascii_case v ''close'' then False
          else if eq_ignore_ascii_case v ''keep-alive'' then True
          else req_version r = Http11
      | None \<Rightarrow> req_version r = Http11)"

subsection \<open>The request line\<close>

definition U32_MAX :: nat where "U32_MAX = 2 ^ 32 - 1"

definition ascii_to_u32_saturating :: "bytes \<Rightarrow> nat" where
  "ascii_to_u32_saturating s =
     foldl (\<lambda>value b. min U32_MAX (min U32_MAX (value * 10) + digit_val b)) 0 s"

definition parse_version :: "bytes \<Rightarrow> parse_error + version" where
  "parse_version tok =
     (case strip_prefix ''HTTP/'' tok of
        None \<Rightarrow> Inl MalformedRequestLine
      | Some rest \<Rightarrow>
          (case position (\<lambda>b. b = CHR ''.'') rest of
             None \<Rightarrow> Inl MalformedRequestLine
           | Some dot \<Rightarrow>
               let major = take dot rest; minor = drop (dot + 1) rest in
               if major = [] \<or> minor = [] \<or> \<not> list_all is_ascii_digit major
                  \<or> \<not> list_all is_ascii_digit minor
               then Inl MalformedRequestLine
               else if ascii_to_u32_saturating major \<noteq> 1 then Inl UnsupportedVersion
               else if ascii_to_u32_saturating minor = 0 then Inr Http10
               else Inr Http11))"

definition parse_request_line :: "bytes \<Rightarrow> parse_error + (http_method \<times> bytes \<times> version)" where
  "parse_request_line line =
     (case splitn 3 (CHR '' '') line of
        [method_tok, target_tok, version_tok] \<Rightarrow>
          if CHR '' '' \<in> set version_tok then Inl MalformedRequestLine
          else (case method_from_bytes method_tok of
            None \<Rightarrow>
              if method_tok \<noteq> [] \<and> list_all is_token_byte method_tok then Inl UnknownMethod
              else Inl MalformedRequestLine
          | Some m \<Rightarrow>
              if length target_tok > MAX_TARGET_BYTES then Inl TargetTooLong
              else if \<not> utf8_valid target_tok then Inl MalformedRequestLine
              else if target_tok = [] then Inl MalformedRequestLine
              else (case parse_version version_tok of
                Inl e \<Rightarrow> Inl e
              | Inr v \<Rightarrow> Inr (m, target_tok, v)))
      | _ \<Rightarrow> Inl MalformedRequestLine)"

subsection \<open>Header fields\<close>

definition parse_header_line :: "bytes \<Rightarrow> parse_error + header" where
  "parse_header_line line =
     (case position (\<lambda>b. b = CHR '':'') line of
        None \<Rightarrow> Inl MalformedHeader
      | Some colon \<Rightarrow>
          let name = take colon line; value = trim_ows (drop (colon + 1) line) in
          if name = [] \<or> \<not> list_all is_token_byte name then Inl MalformedHeader
          else if \<not> utf8_valid name then Inl MalformedHeader
          else if \<not> utf8_valid value then Inl MalformedHeader
          else Inr \<lparr>hdr_name = name, hdr_value = value\<rparr>)"

fun parse_headers :: "bytes list \<Rightarrow> header list \<Rightarrow> parse_error + header list" where
  "parse_headers [] headers = Inr headers"
| "parse_headers (line # lines) headers =
     (if line = [] then Inl MalformedHeader
      else if length headers \<ge> MAX_HEADERS then Inl TooManyHeaders
      else (case parse_header_line line of
              Inl e \<Rightarrow> Inl e
            | Inr h \<Rightarrow> parse_headers lines (headers @ [h])))"

definition is_valid_host_value :: "bytes \<Rightarrow> bool" where
  "is_valid_host_value host \<longleftrightarrow>
     host \<noteq> [] \<and> \<not> list_ex (\<lambda>b. byte_val b \<le> 32 \<or> byte_val b = 127) host"

definition named :: "bytes \<Rightarrow> header list \<Rightarrow> header list" where
  "named name headers = filter (\<lambda>h. eq_ignore_ascii_case (hdr_name h) name) headers"

definition validate_host :: "header list \<Rightarrow> version \<Rightarrow> parse_error + unit" where
  "validate_host headers version =
     (case named ''host'' headers of
        [] \<Rightarrow> if version = Http11 then Inl BadHost else Inr ()
      | [h] \<Rightarrow> if \<not> is_valid_host_value (hdr_value h) then Inl BadHost else Inr ()
      | _ \<Rightarrow> Inl BadHost)"

subsection \<open>Body framing\<close>

datatype framing = Fixed nat | Chunked

definition body_framing :: "header list \<Rightarrow> parse_error + framing" where
  "body_framing headers =
     (let transfer_encodings = named ''transfer-encoding'' headers;
          content_lengths = named ''content-length'' headers in
      if transfer_encodings \<noteq> [] \<and> content_lengths \<noteq> [] then Inl ConflictingFraming
      else if transfer_encodings \<noteq> [] then
        (case transfer_encodings of
           [h] \<Rightarrow> if eq_ignore_ascii_case (trim (hdr_value h)) ''chunked'' then Inr Chunked
                   else Inl UnsupportedTransferEncoding
         | _ \<Rightarrow> Inl UnsupportedTransferEncoding)
      else (case content_lengths of
           [] \<Rightarrow> Inr (Fixed 0)
         | [h] \<Rightarrow>
             let raw = trim (hdr_value h) in
             if raw = [] \<or> \<not> list_all is_ascii_digit raw then Inl BadContentLength
             else (case parse_usize raw of
                     None \<Rightarrow> Inl BadContentLength
                   | Some len \<Rightarrow> Inr (Fixed len))
         | _ \<Rightarrow> Inl BadContentLength))"

subsection \<open>Chunked bodies\<close>

fun parse_hex_digits :: "bytes \<Rightarrow> nat \<Rightarrow> parse_error + nat" where
  "parse_hex_digits [] value = Inr value"
| "parse_hex_digits (b # bs) value =
     (case hex_digit_val b of
        None \<Rightarrow> Inl MalformedChunk
      | Some digit \<Rightarrow>
          if value * 16 > USIZE_MAX \<or> value * 16 + digit > USIZE_MAX then Inl MalformedChunk
          else parse_hex_digits bs (value * 16 + digit))"

definition parse_hex :: "bytes \<Rightarrow> parse_error + nat" where
  "parse_hex s = (if s = [] then Inl MalformedChunk else parse_hex_digits s 0)"

datatype chunk_outcome = ChunkPartial | ChunkComplete bytes nat

text \<open>The inner loop: trailer lines up to the blank line, from \<open>tpos\<close>.\<close>

function skip_trailers :: "bytes \<Rightarrow> bytes \<Rightarrow> nat \<Rightarrow> (parse_error, chunk_outcome) outcome" where
  "skip_trailers buf body tpos =
     (case find_subslice (drop tpos buf) crlf of
        None \<Rightarrow>
          if length buf - tpos > MAX_CHUNK_LINE_BYTES then Err MalformedChunk
          else Ok ChunkPartial
      | Some trailer_len \<Rightarrow>
          if trailer_len = 0 then Ok (ChunkComplete body (tpos + 2))
          else skip_trailers buf body (tpos + (trailer_len + 2)))"
  by pat_completeness auto
termination
  by (relation "measure (\<lambda>(buf, body, tpos). length buf - tpos)") (auto simp: find_subslice_Some)

declare skip_trailers.simps [simp del]

text \<open>The size token of a chunk line: what precedes the first semicolon.\<close>

definition chunk_size_token :: "bytes \<Rightarrow> bytes" where
  "chunk_size_token size_line =
     (case position (\<lambda>b. b = CHR '';'') size_line of
        Some i \<Rightarrow> take i size_line | None \<Rightarrow> size_line)"

text \<open>
  The outer loop from \<open>pos\<close>, with the body decoded so far. The sum of the data offset
  and the chunk size wraps (\<open>wrap64\<close>), and each range slice is checked where Rust
  checks it.
\<close>

function decode_loop :: "bytes \<Rightarrow> nat \<Rightarrow> nat \<Rightarrow> bytes \<Rightarrow> (parse_error, chunk_outcome) outcome" where
  "decode_loop buf max_body pos body =
     (case find_subslice (drop pos buf) crlf of
        None \<Rightarrow>
          if length buf - pos > MAX_CHUNK_LINE_BYTES then Err MalformedChunk
          else Ok ChunkPartial
      | Some line_len \<Rightarrow>
          (case parse_hex (chunk_size_token (take line_len (drop pos buf))) of
             Inl e \<Rightarrow> Err e
           | Inr chunk_size \<Rightarrow>
               let data_start = pos + line_len + 2 in
               if chunk_size = 0 then skip_trailers buf body data_start
               else
                 let data_end = wrap64 (data_start + chunk_size) in
                 if length buf < wrap64 (data_end + 2) then Ok ChunkPartial
                 else (case slice buf data_end (wrap64 (data_end + 2)) of
                         None \<Rightarrow> Panic
                       | Some ending \<Rightarrow>
                           if ending \<noteq> crlf then Err MalformedChunk
                           else (case slice buf data_start data_end of
                                   None \<Rightarrow> Panic
                                 | Some data \<Rightarrow>
                                     if length (body @ data) > max_body then Err BodyTooLarge
                                     else decode_loop buf max_body (wrap64 (data_end + 2)) (body @ data)))))"
  by pat_completeness auto
termination
proof (relation "measure (\<lambda>(buf, max_body, pos, body). length buf - pos)", simp, goal_cases)
  case (1 buf max_body pos body line_len chunk_size data_start data_end ending data)
  from 1 have len: "length crlf \<le> wrap64 (data_end + 2) - data_end"
    and le: "wrap64 (data_end + 2) \<le> length buf" and ds: "data_start \<le> data_end"
    by (auto simp: slice_Some dest: arg_cong[where f = length])
  from len have "data_end < wrap64 (data_end + 2)" by simp
  with le ds 1 show ?case by simp
qed

declare decode_loop.simps [simp del]

definition decode_chunked :: "bytes \<Rightarrow> nat \<Rightarrow> (parse_error, chunk_outcome) outcome" where
  "decode_chunked buf max_body = decode_loop buf max_body 0 []"

subsection \<open>The parser\<close>

text \<open>
  Everything \<open>parse_with\<close> computes from the head alone, once its end is known: the
  request line, the header fields, the \<open>Host\<close> check and the framing.
\<close>

definition parse_head ::
  "bytes \<Rightarrow> parse_error + (http_method \<times> bytes \<times> version \<times> header list \<times> framing)" where
  "parse_head head =
     (if has_bare_cr head then Inl BareCr
      else (case split_crlf (take (length head - 4) head) of
        [] \<Rightarrow> Inl MalformedRequestLine
      | request_line # lines \<Rightarrow>
          (case parse_request_line request_line of
             Inl e \<Rightarrow> Inl e
           | Inr (m, target, version) \<Rightarrow>
               (case parse_headers lines [] of
                  Inl e \<Rightarrow> Inl e
                | Inr headers \<Rightarrow>
                    (case validate_host headers version of
                       Inl e \<Rightarrow> Inl e
                     | Inr _ \<Rightarrow>
                         (case body_framing headers of
                            Inl e \<Rightarrow> Inl e
                          | Inr f \<Rightarrow> Inr (m, target, version, headers, f)))))))"

definition parse_with :: "bytes \<Rightarrow> nat \<Rightarrow> (parse_error, parsed) outcome" where
  "parse_with buf max_body =
     (case find_subslice buf (crlf @ crlf) of
        None \<Rightarrow> if length buf > MAX_HEAD_BYTES then Err HeadTooLarge else Ok Partial
      | Some i \<Rightarrow>
          let head_end = i + 4 in
          if head_end - 4 > MAX_HEAD_BYTES then Err HeadTooLarge
          else (case parse_head (take head_end buf) of
            Inl e \<Rightarrow> Err e
          | Inr (m, target, version, headers, f) \<Rightarrow>
              (case f of
                 Fixed len \<Rightarrow>
                   if len > max_body then Err BodyTooLarge
                   else let total = wrap64 (head_end + len) in
                     if length buf < total then Ok Partial
                     else (case slice buf head_end total of
                             None \<Rightarrow> Panic
                           | Some data \<Rightarrow>
                               Ok (Complete \<lparr>req_method = m, req_target = target,
                                     req_version = version, req_headers = headers,
                                     req_body = data\<rparr> total))
               | Chunked \<Rightarrow>
                   (case decode_chunked (drop head_end buf) max_body of
                      Err e \<Rightarrow> Err e
                    | Panic \<Rightarrow> Panic
                    | Ok ChunkPartial \<Rightarrow> Ok Partial
                    | Ok (ChunkComplete data consumed) \<Rightarrow>
                        Ok (Complete \<lparr>req_method = m, req_target = target,
                              req_version = version, req_headers = headers,
                              req_body = data\<rparr> (head_end + consumed))))))"

definition parse :: "bytes \<Rightarrow> (parse_error, parsed) outcome" where
  "parse buf = parse_with buf MAX_BODY_BYTES"

subsection \<open>The \<open>Expect\<close> field of a pending request\<close>

datatype expect_action = ExpectNone | ExpectContinue | ExpectUnsupported

fun expect_scan :: "bytes list \<Rightarrow> expect_action" where
  "expect_scan [] = ExpectNone"
| "expect_scan (line # lines) =
     (case position (\<lambda>b. b = CHR '':'') line of
        None \<Rightarrow> expect_scan lines
      | Some colon \<Rightarrow>
          if eq_ignore_ascii_case (take colon line) ''expect'' then
            (if eq_ignore_ascii_case (trim_ows (drop (colon + 1) line)) ''100-continue''
             then ExpectContinue else ExpectUnsupported)
          else expect_scan lines)"

definition expect_action :: "bytes \<Rightarrow> expect_action" where
  "expect_action buf =
     (case find_subslice buf (crlf @ crlf) of
        None \<Rightarrow> ExpectNone
      | Some head_end \<Rightarrow>
          (case split_crlf (take head_end buf) of
             [] \<Rightarrow> ExpectNone
           | _ # lines \<Rightarrow> expect_scan lines))"

lemmas request_exec =
  MAX_HEAD_BYTES_def MAX_HEADERS_def MAX_TARGET_BYTES_def MAX_BODY_BYTES_def
  MAX_CHUNK_LINE_BYTES_def find_subslice_def split_crlf.simps is_ows_def trim_ows_def is_token_byte_def
  req_header_def valid_scheme_def absolute_form_path_def req_path_def req_keep_alive_def U32_MAX_def
  ascii_to_u32_saturating_def parse_version_def parse_request_line_def parse_header_line_def
  is_valid_host_value_def named_def validate_host_def body_framing_def parse_hex_def
  skip_trailers.simps decode_loop.simps chunk_size_token_def decode_chunked_def parse_head_def parse_with_def parse_def
  expect_action_def

declare request_exec [exec_simps]

end
