(* ===== verification/Request_Laws.thy ===== *)
theory Request_Laws
  imports Request
begin

section \<open>Properties of the request parser\<close>

text \<open>
  The parser is incremental: once it has an answer other than \<open>Partial\<close>, more input does
  not change it (two size limits on unterminated lines aside), the answer depends only on
  the bytes it reports as consumed, and it consumes at least one byte and no more than it
  was given. The requests it accepts respect the limits of the source and are framed
  unambiguously. Rendering a well-formed request and parsing the text gives the request
  back, whatever follows it in the buffer.
\<close>

subsection \<open>Scanning\<close>

lemma find_subslice_append [scan_simps]:
  "find_subslice h n = Some i \<Longrightarrow> find_subslice (h @ t) n = Some i"
  by (auto simp: find_subslice_def window_position_append split: if_splits)

lemma find_subslice_less:
  assumes "find_subslice h n = Some i"
  shows "i + length n \<le> length h" and "n \<noteq> []"
  using assms by (auto simp: find_subslice_def window_position_Some split: if_splits)

lemma find_subslice_take:
  assumes "find_subslice h n = Some i" and "i + length n \<le> k"
  shows "find_subslice (take k h) n = Some i"
proof -
  from assms(1) have n: "n \<noteq> []" by (rule find_subslice_less)
  from assms have *: "i + length n \<le> length h" "take (length n) (drop i h) = n"
    "\<forall>j < i. take (length n) (drop j h) \<noteq> n"
    by (simp_all add: find_subslice_Some[OF n])
  have "take (length n) (drop j (take k h)) = take (length n) (drop j h)" if "j \<le> i" for j
    using that assms(2) by (simp add: drop_take)
  with * assms(2) show ?thesis by (simp add: find_subslice_Some[OF n])
qed

lemma window_position_skip:
  assumes "\<forall>x \<in> set l. x \<noteq> hd n" and "n \<noteq> []"
  shows "window_position n (l @ xs) = map_option ((+) (length l)) (window_position n xs)"
  using assms
proof (induction l)
  case Nil
  have "(+) (0 :: nat) = id" by auto
  then show ?case by (simp add: option.map_ident)
next
  case (Cons x l)
  have "window_position n ((x # l) @ xs) = map_option Suc (window_position n (l @ xs))"
  proof (cases "length ((x # l) @ xs) < length n")
    case True
    then have "window_position n (l @ xs) = None"
      using Cons.prems(2) by (simp add: window_position_None)
    with True show ?thesis by simp
  next
    case False
    from Cons.prems have "take (length n) ((x # l) @ xs) \<noteq> n" by (cases n) auto
    with False show ?thesis by simp
  qed
  with Cons show ?case by (cases "window_position n xs") auto
qed

lemma find_subslice_window: "n \<noteq> [] \<Longrightarrow> find_subslice h n = window_position n h"
proof -
  assume n: "n \<noteq> []"
  have "window_position n h = None" if "length h < length n"
    using that n by (simp add: window_position_None)
  with n show ?thesis by (simp add: find_subslice_def)
qed

lemma find_subslice_skip [scan_simps]:
  "CR \<notin> set l \<Longrightarrow>
     find_subslice (l @ xs) (CR # n) = map_option ((+) (length l)) (find_subslice xs (CR # n))"
  by (subst (1 2) find_subslice_window) (auto intro!: window_position_skip)

lemma find_crlf_here [scan_simps]: "find_subslice (CR # LF # rest) crlf = Some 0"
  by (simp add: find_subslice_def)

lemma find_blank_here [scan_simps]:
  "find_subslice (CR # LF # CR # LF # rest) (CR # LF # crlf) = Some 0"
  by (simp add: find_subslice_def)

lemma find_crlf_line [scan_simps]: "CR \<notin> set l \<Longrightarrow> find_subslice (l @ CR # LF # rest) crlf = Some (length l)"
  by (simp add: scan_simps)

lemma find_crlf_none [scan_simps]:
  assumes "CR \<notin> set l"
  shows "find_subslice l crlf = None"
proof -
  have "find_subslice [] crlf = None" by (simp add: find_subslice_def)
  with assms find_subslice_skip[of l "[]" "[LF]"] show ?thesis by simp
qed

lemma split_crlf_line [scan_simps]:
  "CR \<notin> set l \<Longrightarrow> split_crlf (l @ CR # LF # rest) = l # split_crlf rest"
  by (subst split_crlf.simps) (simp add: scan_simps)

lemma split_crlf_last [scan_simps]: "CR \<notin> set l \<Longrightarrow> split_crlf l = [l]"
  by (subst split_crlf.simps) (simp add: scan_simps)

text \<open>A block of CRLF-terminated lines.\<close>

fun unlines :: "bytes list \<Rightarrow> bytes" where
  "unlines [] = []"
| "unlines (l # ls) = l @ CR # LF # unlines ls"

lemma unlines_append [simp]: "unlines (a @ b) = unlines a @ unlines b"
  by (induction a) auto

lemma split_crlf_unlines:
  "\<forall>l \<in> set (ls @ [l']). CR \<notin> set l \<Longrightarrow> split_crlf (unlines ls @ l') = ls @ [l']"
  by (induction ls) (auto simp: scan_simps)

lemma find_head_end:
  assumes "ls \<noteq> []" and "\<forall>l \<in> set ls. l \<noteq> [] \<and> CR \<notin> set l"
  shows "find_subslice (unlines ls @ CR # LF # rest) (crlf @ crlf) = Some (length (unlines ls) - 2)"
  using assms
proof (induction ls rule: list_nonempty_induct)
  case (single l)
  then show ?case by (simp add: scan_simps)
next
  case (cons l ls)
  then obtain c m where l: "ls = (c # m) # tl ls" "c \<noteq> CR"
    by (cases ls; cases "hd ls") auto
  have ge: "2 \<le> length (unlines ls)" using cons.hyps by (cases ls) auto
  obtain t where t: "unlines ls @ CR # LF # rest = c # t" using l(1) by (metis append_Cons unlines.simps(2))
  have "window_position (crlf @ crlf) (CR # LF # c # t)
    = map_option (\<lambda>i. Suc (Suc i)) (window_position (crlf @ crlf) (c # t))"
  proof -
    have "window_position (crlf @ crlf) (c # t) = None" if "length t < Suc (Suc (Suc 0))"
      using that by (simp add: window_position_None)
    moreover have "window_position (crlf @ crlf) (LF # c # t) =
        map_option Suc (window_position (crlf @ crlf) (c # t))"
      using calculation by auto
    ultimately show ?thesis using l(2) by (auto simp: option.map_comp comp_def)
  qed
  moreover have "window_position (crlf @ crlf) (c # t) = Some (length (unlines ls) - 2)"
    using cons t by (simp add: find_subslice_window)
  ultimately have "find_subslice (CR # LF # c # t) (crlf @ crlf) = Some (length (unlines ls))"
    using ge by (subst find_subslice_window) auto
  then show ?case using cons.prems t by (simp add: scan_simps)
qed

subsection \<open>More input never changes a settled answer\<close>

text \<open>
  Three answers may change when bytes arrive: \<open>Partial\<close>, and the two errors that stand
  for "no terminator yet, and too long", which a terminator arriving at the limit undoes.
\<close>

fun settled :: "(parse_error, 'a) outcome \<Rightarrow> bool" where
  "settled (Err HeadTooLarge) = False"
| "settled (Err MalformedChunk) = False"
| "settled _ = True"

lemma settled_Err: "settled (Err e) \<longleftrightarrow> e \<noteq> HeadTooLarge \<and> e \<noteq> MalformedChunk"
  by (cases e) auto

lemma skip_trailers_append:
  assumes "skip_trailers buf body tpos = Ok (ChunkComplete b c)" and "tpos \<le> length buf"
  shows "skip_trailers (buf @ rest) body tpos = Ok (ChunkComplete b c)"
  using assms
proof (induction buf body tpos rule: skip_trailers.induct)
  case (1 buf body tpos)
  from "1.prems" obtain n where n: "find_subslice (drop tpos buf) crlf = Some n"
    by (subst (asm) skip_trailers.simps) (auto split: option.splits if_splits)
  then have n': "find_subslice (drop tpos (buf @ rest)) crlf = Some n"
    using "1.prems"(2) by (simp add: find_subslice_append)
  show ?case
  proof (cases "n = 0")
    case True
    with "1.prems" n n' show ?thesis by (simp add: skip_trailers.simps[of _ _ tpos])
  next
    case False
    from n have "tpos + (n + 2) \<le> length buf"
      using "1.prems"(2) find_subslice_less[OF n] by simp
    moreover have "skip_trailers buf body (tpos + (n + 2)) = Ok (ChunkComplete b c)"
      using "1.prems"(1) n False by (subst (asm) skip_trailers.simps) simp
    ultimately show ?thesis
      using "1.IH"[OF n False] n' False by (subst skip_trailers.simps) simp
  qed
qed

lemma skip_trailers_bounds:
  assumes "skip_trailers buf body tpos = Ok (ChunkComplete b c)" and "tpos \<le> length buf"
  shows "tpos < c \<and> c \<le> length buf \<and> b = body \<and>
    skip_trailers (take c buf) body tpos = Ok (ChunkComplete b c)"
  using assms
proof (induction buf body tpos rule: skip_trailers.induct)
  case (1 buf body tpos)
  from "1.prems" obtain n where n: "find_subslice (drop tpos buf) crlf = Some n"
    by (subst (asm) skip_trailers.simps) (auto split: option.splits if_splits)
  have le: "tpos + (n + 2) \<le> length buf"
    using "1.prems"(2) find_subslice_less[OF n] by simp
  have n': "find_subslice (drop tpos (take k buf)) crlf = Some n" if "tpos + (n + 2) \<le> k" for k
    using find_subslice_take[OF n, of "k - tpos"] that by (simp add: drop_take)
  show ?case
  proof (cases "n = 0")
    case True
    with "1.prems" n have "c = tpos + 2" "b = body"
      by (auto simp: skip_trailers.simps[of _ _ tpos])
    with le True n'[of c] show ?thesis by (simp add: skip_trailers.simps[of _ _ tpos])
  next
    case False
    have "skip_trailers buf body (tpos + (n + 2)) = Ok (ChunkComplete b c)"
      using "1.prems"(1) n False by (subst (asm) skip_trailers.simps) simp
    from "1.IH"[OF n False this le] have IH: "tpos + (n + 2) < c" "c \<le> length buf" "b = body"
      "skip_trailers (take c buf) body (tpos + (n + 2)) = Ok (ChunkComplete b c)"
      by auto
    then have "skip_trailers (take c buf) body tpos = Ok (ChunkComplete b c)"
      using n'[of c] False by (subst skip_trailers.simps) simp
    with IH show ?thesis by simp
  qed
qed

text \<open>The two ways an iteration of the chunk loop can lead to a complete body.\<close>

lemma decode_loop_completeE:
  assumes "decode_loop buf mb pos body = Ok (ChunkComplete b c)"
  obtains (final) n where "find_subslice (drop pos buf) crlf = Some n"
      "parse_hex (chunk_size_token (take n (drop pos buf))) = Inr 0"
      "skip_trailers buf body (pos + n + 2) = Ok (ChunkComplete b c)"
  | (chunk) n chunk_size data de where "find_subslice (drop pos buf) crlf = Some n"
      "parse_hex (chunk_size_token (take n (drop pos buf))) = Inr chunk_size" "chunk_size \<noteq> 0"
      "de = wrap64 (pos + n + 2 + chunk_size)" "wrap64 (de + 2) = de + 2"
      "slice buf de (de + 2) = Some crlf" "slice buf (pos + n + 2) de = Some data"
      "length (body @ data) \<le> mb"
      "decode_loop buf mb (de + 2) (body @ data) = Ok (ChunkComplete b c)"
proof -
  from assms obtain n chunk_size where n: "find_subslice (drop pos buf) crlf = Some n"
    and sz: "parse_hex (chunk_size_token (take n (drop pos buf))) = Inr chunk_size"
    by (subst (asm) decode_loop.simps) (auto split: option.splits sum.splits if_splits)
  show thesis
  proof (cases "chunk_size = 0")
    case True
    with assms n sz show thesis by (intro final) (auto simp: decode_loop.simps[of _ _ pos])
  next
    case False
    define de where "de = wrap64 (pos + n + 2 + chunk_size)"
    define de2 where "de2 = wrap64 (de + 2)"
    from assms n sz False obtain ending data where *: "slice buf de de2 = Some ending"
      "ending = crlf" "slice buf (pos + n + 2) de = Some data" "length (body @ data) \<le> mb"
      "decode_loop buf mb de2 (body @ data) = Ok (ChunkComplete b c)"
      unfolding de_def de2_def
      by (subst (asm) decode_loop.simps) (auto simp: Let_def split: option.splits if_splits)
    from *(1,2) have "de2 = de + 2" by (auto simp: slice_Some dest: arg_cong[where f = length])
    with * n sz False show thesis by (intro chunk[of n chunk_size de data]) (auto simp: de_def de2_def)
  qed
qed

lemma decode_loop_final:
  assumes "find_subslice (drop pos buf) crlf = Some n"
    and "parse_hex (chunk_size_token (take n (drop pos buf))) = Inr 0"
  shows "decode_loop buf mb pos body = skip_trailers buf body (pos + n + 2)"
  using assms by (subst decode_loop.simps) simp

lemma decode_loop_chunk:
  assumes "find_subslice (drop pos buf) crlf = Some n"
    and "parse_hex (chunk_size_token (take n (drop pos buf))) = Inr chunk_size" "chunk_size \<noteq> 0"
    and "de = wrap64 (pos + n + 2 + chunk_size)" "wrap64 (de + 2) = de + 2"
    and "slice buf de (de + 2) = Some crlf" "slice buf (pos + n + 2) de = Some data"
    and "length (body @ data) \<le> mb"
  shows "decode_loop buf mb pos body = decode_loop buf mb (de + 2) (body @ data)"
proof -
  have de: "wrap64 (pos + n + 2 + chunk_size) = de" using assms(4) by simp
  have "\<not> length buf < de + 2" using assms(6) by (simp add: slice_Some)
  with assms(3,8) show ?thesis
    by (subst decode_loop.simps, simp only: assms(1,2) option.case sum.case Let_def de assms(5-7))
      simp
qed

lemma slice_take: "slice xs a b = Some ys \<Longrightarrow> b \<le> k \<Longrightarrow> slice (take k xs) a b = Some ys"
  by (auto simp: slice_Some drop_take)

lemma parse_hex_digits_err: "parse_hex_digits s v = Inl e \<Longrightarrow> e = MalformedChunk"
  by (induction s v rule: parse_hex_digits.induct) (auto split: option.splits if_splits)

lemma parse_hex_err: "parse_hex s = Inl e \<Longrightarrow> e = MalformedChunk"
  by (auto simp: parse_hex_def dest: parse_hex_digits_err split: if_splits)

lemma skip_trailers_result:
  "skip_trailers buf body tpos = x \<Longrightarrow>
     x = Ok ChunkPartial \<or> x = Err MalformedChunk \<or> (\<exists>c. x = Ok (ChunkComplete body c))"
proof (induction buf body tpos rule: skip_trailers.induct)
  case (1 buf body tpos)
  then show ?case
    by (subst (asm) (2) skip_trailers.simps) (auto split: option.splits if_splits)
qed

lemma decode_loop_sized:
  assumes "find_subslice (drop pos b) crlf = Some n"
    and "parse_hex (chunk_size_token (take n (drop pos b))) = Inr k" and "k \<noteq> 0"
    and "ds = pos + n + 2" and "de = wrap64 (ds + k)" and "de2 = wrap64 (de + 2)"
  shows "decode_loop b mb pos body =
       (if length b < de2 then Ok ChunkPartial
        else (case slice b de de2 of None \<Rightarrow> Panic
          | Some ending \<Rightarrow> if ending \<noteq> crlf then Err MalformedChunk
              else (case slice b ds de of None \<Rightarrow> Panic
                | Some data \<Rightarrow> if length (body @ data) > mb then Err BodyTooLarge
                    else decode_loop b mb de2 (body @ data))))"
  using assms(3) unfolding assms(4-6)
  by (subst decode_loop.simps) (simp only: assms(1,2) option.case sum.case Let_def if_False)

text \<open>More bytes behind a chunk, when the rest is already known to be unaffected.\<close>

lemma decode_sized_append:
  assumes x: "decode_loop buf mb pos body = x" "x \<noteq> Ok ChunkPartial" "settled x"
    and b: "find_subslice (drop pos buf) crlf = Some n" "parse_hex (chunk_size_token (take n (drop pos buf))) = Inr k"
    and b': "find_subslice (drop pos (buf @ rest)) crlf = Some n"
      "parse_hex (chunk_size_token (take n (drop pos (buf @ rest)))) = Inr k"
    and k: "k \<noteq> 0"
    and later: "\<And>de2 data. pos < de2 \<Longrightarrow> de2 \<le> length buf \<Longrightarrow> decode_loop buf mb de2 (body @ data) = x \<Longrightarrow>
      decode_loop (buf @ rest) mb de2 (body @ data) = x"
  shows "decode_loop (buf @ rest) mb pos body = x"
proof -
  define ds de de2 where "ds = pos + n + 2" and "de = wrap64 (ds + k)" and "de2 = wrap64 (de + 2)"
  note d = this
  note u = decode_loop_sized[OF b k d, of mb body] decode_loop_sized[OF b' k d, of mb body]
  have len: "\<not> length buf < de2" using x(1,2) u(1) by auto
  show ?thesis
  proof (cases "slice buf de de2")
    case None
    then have "slice (buf @ rest) de de2 = None" using len by (auto simp: slice_None)
    with None len u x(1) show ?thesis by simp
  next
    case (Some ending)
    have e: "ending = crlf"
    proof (rule ccontr)
      assume "ending \<noteq> crlf"
      with x(1) u(1) len Some have "x = Err MalformedChunk" by simp
      with x(3) show False by simp
    qed
    with Some have de2: "de2 = de + 2" "de2 \<le> length buf"
      by (auto simp: slice_Some dest: arg_cong[where f = length])
    show ?thesis
    proof (cases "slice buf ds de")
      case None
      then have "slice (buf @ rest) ds de = None" using de2 by (auto simp: slice_None)
      with None Some e len u x(1) show ?thesis by (simp add: slice_append)
    next
      case data: (Some data)
      then have "pos < de2" using de2 by (auto simp: slice_Some d(1))
      from later[OF this de2(2), of data] data Some e len u x(1) show ?thesis
        by (auto simp: slice_append split: if_splits)
    qed
  qed
qed

lemma decode_loop_append:
  assumes "decode_loop buf mb pos body = x" "x \<noteq> Ok ChunkPartial" "settled x" "pos \<le> length buf"
  shows "decode_loop (buf @ rest) mb pos body = x"
  using assms
proof (induction "length buf - pos" arbitrary: pos body rule: less_induct)
  case less
  obtain n where n: "find_subslice (drop pos buf) crlf = Some n"
    using less.prems by (subst (asm) decode_loop.simps) (auto split: option.splits if_splits)
  have le: "pos + n + 2 \<le> length buf"
    using less.prems(4) find_subslice_less[OF n] by simp
  have n': "find_subslice (drop pos (buf @ rest)) crlf = Some n"
    and tok: "take n (drop pos (buf @ rest)) = take n (drop pos buf)"
    using less.prems(4) n le by (simp_all add: find_subslice_append)
  obtain k where k: "parse_hex (chunk_size_token (take n (drop pos buf))) = Inr k"
    using less.prems n
    by (subst (asm) decode_loop.simps) (auto dest: parse_hex_err split: sum.splits)
  have k': "parse_hex (chunk_size_token (take n (drop pos (buf @ rest)))) = Inr k"
    unfolding tok by (rule k)
  show ?case
  proof (cases "k = 0")
    case True
    then have x: "skip_trailers buf body (pos + n + 2) = x"
      using less.prems(1) n k decode_loop_final by simp
    moreover from skip_trailers_result[OF x] less.prems obtain c where "x = Ok (ChunkComplete body c)"
      by auto
    ultimately have "skip_trailers (buf @ rest) body (pos + n + 2) = x"
      using skip_trailers_append le by simp
    then show ?thesis using k' True by (simp only: decode_loop_final[OF n'])
  next
    case False
    show ?thesis
      by (rule decode_sized_append[OF less.prems(1-3) n k n' k' False])
        (use less.hyps less.prems(2,3) in simp)
  qed
qed

lemma decode_loop_bounds:
  assumes "decode_loop buf mb pos body = Ok (ChunkComplete b c)"
    and "pos \<le> length buf" and "length body \<le> mb"
  shows "pos < c \<and> c \<le> length buf \<and> length b \<le> mb \<and>
    decode_loop (take c buf) mb pos body = Ok (ChunkComplete b c)"
  using assms
proof (induction "length buf - pos" arbitrary: pos body rule: less_induct)
  case less
  have find': "find_subslice (drop pos (take k buf)) crlf = Some n"
    if "find_subslice (drop pos buf) crlf = Some n" "pos + n + 2 \<le> k" for k n
    using find_subslice_take[OF that(1), of "k - pos"] that(2) by (simp add: drop_take)
  have tok: "take n (drop pos (take k buf)) = take n (drop pos buf)" if "pos + n \<le> k" for k n
    using that by (simp add: drop_take)
  from less.prems(1) show ?case
  proof (cases rule: decode_loop_completeE)
    case (final n)
    have le: "pos + n + 2 \<le> length buf"
      using less.prems(2) find_subslice_less[OF final(1)] by simp
    from skip_trailers_bounds[OF final(3) le] have st: "pos + n + 2 < c" "c \<le> length buf" "b = body"
      "skip_trailers (take c buf) body (pos + n + 2) = Ok (ChunkComplete b c)"
      by auto
    with final(1,2) find'[of n c] tok[of n c]
    have "decode_loop (take c buf) mb pos body = Ok (ChunkComplete b c)"
      by (subst decode_loop_final) auto
    with st less.prems show ?thesis by simp
  next
    case (chunk n chunk_size data de)
    have de: "pos < de + 2" "de + 2 \<le> length buf" "pos + n + 2 \<le> de"
      using chunk(6,7) by (auto simp: slice_Some)
    then have "length buf - (de + 2) < length buf - pos" using less.prems(2) by simp
    from less.hyps[OF this chunk(9) de(2)] chunk(8)
    have IH: "de + 2 < c" "c \<le> length buf" "length b \<le> mb"
      "decode_loop (take c buf) mb (de + 2) (body @ data) = Ok (ChunkComplete b c)"
      by auto
    have "decode_loop (take c buf) mb pos body = decode_loop (take c buf) mb (de + 2) (body @ data)"
      using chunk(1-8) IH(1) de find'[of n c] tok[of n c]
      by (intro decode_loop_chunk) (auto intro!: slice_take)
    with IH de show ?thesis by simp
  qed
qed

lemma parse_with_head:
  assumes "find_subslice buf (crlf @ crlf) = Some i" and "i \<le> MAX_HEAD_BYTES"
    and "parse_head (take (i + 4) buf) = Inr (m, target, version, headers, f)"
  shows "parse_with buf mb =
    (case f of
       Fixed len \<Rightarrow>
         if len > mb then Err BodyTooLarge
         else let total = wrap64 (i + 4 + len) in
           if length buf < total then Ok Partial
           else (case slice buf (i + 4) total of None \<Rightarrow> Panic
             | Some data \<Rightarrow> Ok (Complete \<lparr>req_method = m, req_target = target,
                 req_version = version, req_headers = headers, req_body = data\<rparr> total))
     | Chunked \<Rightarrow>
         (case decode_chunked (drop (i + 4) buf) mb of
            Err e \<Rightarrow> Err e
          | Panic \<Rightarrow> Panic
          | Ok ChunkPartial \<Rightarrow> Ok Partial
          | Ok (ChunkComplete data consumed) \<Rightarrow>
              Ok (Complete \<lparr>req_method = m, req_target = target,
                req_version = version, req_headers = headers, req_body = data\<rparr>
                (i + 4 + consumed))))"
  using assms by (simp add: parse_with_def Let_def)

lemma parse_with_head_err:
  assumes "find_subslice buf (crlf @ crlf) = Some i" and "i \<le> MAX_HEAD_BYTES"
    and "parse_head (take (i + 4) buf) = Inl e"
  shows "parse_with buf mb = Err e"
  using assms by (simp add: parse_with_def Let_def)

lemma parse_with_append:
  assumes "parse_with buf mb = x" and "x \<noteq> Ok Partial" and "settled x"
  shows "parse_with (buf @ rest) mb = x"
proof -
  obtain i where i: "find_subslice buf (crlf @ crlf) = Some i" "i \<le> MAX_HEAD_BYTES"
    using assms by (auto simp: parse_with_def Let_def split: option.splits if_splits)
  have le: "i + 4 \<le> length buf" using find_subslice_less(1)[OF i(1)] by simp
  have i': "find_subslice (buf @ rest) (crlf @ crlf) = Some i"
    using i(1) by (rule find_subslice_append)
  have hd: "take (i + 4) (buf @ rest) = take (i + 4) buf" using le by simp
  show ?thesis
  proof (cases "parse_head (take (i + 4) buf)")
    case (Inl e)
    with assms(1) show ?thesis
      using parse_with_head_err[OF i] parse_with_head_err[OF i' i(2), unfolded hd] by simp
  next
    case (Inr r)
    obtain m target version headers f where r: "r = (m, target, version, headers, f)"
      by (cases r) auto
    note P = parse_with_head[OF i Inr[unfolded r], of mb]
      parse_with_head[OF i' i(2), unfolded hd, OF Inr[unfolded r], of mb]
    show ?thesis
    proof (cases f)
      case (Fixed len)
      define total where "total = wrap64 (i + 4 + len)"
      show ?thesis
      proof (cases "len > mb")
        case True
        with assms(1) P Fixed show ?thesis by simp
      next
        case False
        with assms P(1) Fixed have "\<not> length buf < total" by (auto simp: total_def Let_def)
        then have "slice (buf @ rest) (i + 4) total = slice buf (i + 4) total"
          by (auto simp: slice_def)
        with False \<open>\<not> length buf < total\<close> assms(1) P Fixed
        show ?thesis by (simp add: total_def Let_def)
      qed
    next
      case Chunked
      define y where "y = decode_loop (drop (i + 4) buf) mb 0 []"
      note x = assms(1)[symmetric, unfolded P(1) Chunked framing.case decode_chunked_def, folded y_def]
      have "y \<noteq> Ok ChunkPartial" using x assms(2) by auto
      moreover have "settled y" using x assms(3) by (cases y) (simp_all add: settled_Err)
      moreover note y_def[symmetric]
      ultimately have "decode_loop (drop (i + 4) buf @ rest) mb 0 [] = y"
        by (intro decode_loop_append) simp_all
      then have "decode_chunked (drop (i + 4) (buf @ rest)) mb = decode_chunked (drop (i + 4) buf) mb"
        using le by (simp add: decode_chunked_def y_def[symmetric])
      with assms(1) P Chunked show ?thesis by simp
    qed
  qed
qed

end
