(* ===== verification/Framing.thy ===== *)
theory Framing
  imports Prelude
begin

section \<open>The contract between a stream and its framer\<close>

text \<open>
  A connection appends what it receives to a buffer and asks a parser, again and again,
  for a complete frame at the front. The locale \<open>framer\<close> states what the
  connection relies on: a frame consumes at least one byte and none that has not
  arrived, bytes behind a frame do not change it, and the frame depends on its own bytes
  only. Then how the network fragments the stream does not matter: the frames extracted
  piece by piece are the frames of the whole stream. \<open>Request_Safety\<close> interprets
  the locale on \<open>parse_with\<close>.
\<close>

text \<open>
  All frames at the front of a buffer, and what is left. The fuel is the length of the
  buffer, enough because every frame takes a byte.
\<close>

fun frames_fuel :: "(bytes \<Rightarrow> ('r \<times> nat) option) \<Rightarrow> nat \<Rightarrow> bytes \<Rightarrow> 'r list \<times> bytes" where
  "frames_fuel f 0 b = ([], b)"
| "frames_fuel f (Suc k) b =
     (case f b of
        None \<Rightarrow> ([], b)
      | Some (r, n) \<Rightarrow> (case frames_fuel f k (drop n b) of (rs, rest) \<Rightarrow> (r # rs, rest)))"

definition frames :: "(bytes \<Rightarrow> ('r \<times> nat) option) \<Rightarrow> bytes \<Rightarrow> 'r list \<times> bytes" where
  "frames f b = frames_fuel f (length b) b"

text \<open>One arrival: the new bytes go behind what was left, and the complete frames come off.\<close>

definition arrive :: "(bytes \<Rightarrow> ('r \<times> nat) option) \<Rightarrow> 'r list \<times> bytes \<Rightarrow> bytes \<Rightarrow> 'r list \<times> bytes" where
  "arrive f st piece =
     (case st of (rs, rest) \<Rightarrow> (case frames f (rest @ piece) of (rs', rest') \<Rightarrow> (rs @ rs', rest')))"

locale framer =
  fixes next_frame :: "bytes \<Rightarrow> ('r \<times> nat) option"
  assumes consumes: "next_frame b = Some (r, n) \<Longrightarrow> 0 < n \<and> n \<le> length b"
    and stable: "next_frame b = Some (r, n) \<Longrightarrow> next_frame (b @ t) = Some (r, n)"
    and own_bytes: "next_frame b = Some (r, n) \<Longrightarrow> next_frame (take n b) = Some (r, n)"
begin

lemma empty_none [simp]: "next_frame [] = None"
  using consumes[of "[]"] by (cases "next_frame []") auto

lemma fuel_enough: "length b \<le> k \<Longrightarrow> frames_fuel next_frame k b = frames next_frame b"
proof (induction k arbitrary: b rule: less_induct)
  case (less k)
  show ?case
  proof (cases "next_frame b")
    case None
    then show ?thesis by (cases k; cases "length b") (simp_all add: frames_def)
  next
    case (Some p)
    obtain r n where p: "p = (r, n)" by (cases p)
    with Some consumes have n: "0 < n" "n \<le> length b" by auto
    then obtain k' l where k': "k = Suc k'" "length b = Suc l"
      using less.prems by (cases k; cases "length b") auto
    have dl: "length (drop n b) \<le> k'" "length (drop n b) \<le> l" using n k' less.prems by auto
    have "frames_fuel next_frame k' (drop n b) = frames next_frame (drop n b)"
      using less.IH[of k'] k' dl by simp
    moreover have "frames_fuel next_frame l (drop n b) = frames next_frame (drop n b)"
      using less.IH[of l] k' less.prems dl by simp
    ultimately show ?thesis using Some p k' by (simp add: frames_def)
  qed
qed

lemma frames_None: "next_frame b = None \<Longrightarrow> frames next_frame b = ([], b)"
  by (cases "length b") (simp_all add: frames_def)

lemma frames_Some:
  assumes "next_frame b = Some (r, n)"
  shows "frames next_frame b =
    (case frames next_frame (drop n b) of (rs, rest) \<Rightarrow> (r # rs, rest))"
proof -
  obtain l where l: "length b = Suc l" using consumes[OF assms] by (cases "length b") auto
  then have "length (drop n b) \<le> l" using consumes[OF assms] by auto
  then show ?thesis using assms l fuel_enough[of "drop n b" l] by (simp add: frames_def[of _ b])
qed

lemma frames_append: "frames next_frame (a @ b) = arrive next_frame (frames next_frame a) b"
proof (induction "length a" arbitrary: a rule: less_induct)
  case less
  show ?case
  proof (cases "next_frame a")
    case None
    then show ?thesis by (simp add: arrive_def frames_None)
  next
    case (Some p)
    obtain r n where p: "p = (r, n)" by (cases p)
    with Some have s: "next_frame a = Some (r, n)" by simp
    note n = consumes[OF s]
    have "length (drop n a) < length a" using n by auto
    from less[OF this] frames_Some[OF stable[OF s], of b] frames_Some[OF s] n
    show ?thesis by (simp add: arrive_def split: prod.splits)
  qed
qed

lemma frames_pieces:
  "foldl (arrive next_frame) ([], []) pieces = frames next_frame (concat pieces)"
proof (induction pieces rule: rev_induct)
  case Nil
  then show ?case by (simp add: frames_None)
next
  case (snoc p ps)
  then show ?case by (simp add: frames_append)
qed

text \<open>What is left never starts with a complete frame.\<close>

lemma frames_rest: "frames next_frame b = (rs, rest) \<Longrightarrow> next_frame rest = None"
proof (induction "length b" arbitrary: b rs rule: less_induct)
  case less
  show ?case
  proof (cases "next_frame b")
    case None
    with less.prems show ?thesis by (simp add: frames_None)
  next
    case (Some p)
    obtain r n where p: "p = (r, n)" by (cases p)
    with Some have s: "next_frame b = Some (r, n)" by simp
    obtain rs' where "frames next_frame (drop n b) = (rs', rest)"
      using less.prems frames_Some[OF s] by (auto split: prod.splits)
    moreover have "length (drop n b) < length b" using consumes[OF s] by auto
    ultimately show ?thesis using less.hyps by blast
  qed
qed

text \<open>A stream of frames written back to back is read back frame by frame.\<close>

lemma frames_concat:
  assumes "\<forall>(r, b) \<in> set xs. next_frame b = Some (r, length b)"
  shows "frames next_frame (concat (map snd xs)) = (map fst xs, [])"
  using assms
proof (induction xs)
  case Nil
  then show ?case by (simp add: frames_None)
next
  case (Cons x xs)
  obtain r b where x: "x = (r, b)" by (cases x)
  with Cons.prems have "next_frame b = Some (r, length b)" by simp
  from frames_Some[OF stable[OF this]] Cons x show ?case by auto
qed

end

end
