(* ===== verification/Request_Safety.thy ===== *)
theory Request_Safety
  imports Request_Laws Framing
begin

section \<open>What an accepted request guarantees\<close>

text \<open>
  The bounds and the well-formedness of the requests \<open>parse_with\<close> completes, the framing
  that rules out request smuggling, and the one input class on which it panics.
\<close>

subsection \<open>Lines of a head without a bare CR\<close>

lemma bare_cr_nth:
  "has_bare_cr s \<longleftrightarrow> (\<exists>i < length s. s ! i = CR \<and> (Suc i < length s \<longrightarrow> s ! Suc i \<noteq> LF))"
proof (induction s rule: has_bare_cr.induct)
  case (3 b c rest)
  then show ?case by (simp add: Ex_less_Suc2)
qed auto

lemma bare_cr_drop: "has_bare_cr (drop k s) \<Longrightarrow> has_bare_cr s"
proof -
  assume "has_bare_cr (drop k s)"
  then obtain i where "i < length (drop k s)" "drop k s ! i = CR"
    "Suc i < length (drop k s) \<longrightarrow> drop k s ! Suc i \<noteq> LF"
    by (auto simp: bare_cr_nth)
  then show ?thesis by (auto simp: bare_cr_nth intro!: exI[of _ "k + i"])
qed

lemma bare_cr_take:
  assumes "has_bare_cr (take k s)" and "k < length s" and "s ! k = CR"
  shows "has_bare_cr s"
proof -
  from assms(1,2) obtain i where i: "i < k" "s ! i = CR" "Suc i < k \<longrightarrow> s ! Suc i \<noteq> LF"
    by (auto simp: bare_cr_nth)
  moreover have "s ! Suc i \<noteq> LF" if "\<not> Suc i < k"
    using i(1) that assms(3) by (cases "Suc i = k") auto
  ultimately show ?thesis using assms(2) by (auto simp: bare_cr_nth intro!: exI[of _ i])
qed

lemma split_crlf_no_cr:
  "\<not> has_bare_cr block \<Longrightarrow> l \<in> set (split_crlf block) \<Longrightarrow> CR \<notin> set l"
proof (induction block rule: split_crlf.induct)
  case (1 block)
  have pair: "Suc j < length block \<and> take 2 (drop j block) = crlf"
    if "j < length block" "block ! j = CR" for j
    using "1.prems"(1) that by (auto simp: bare_cr_nth list_eq_iff_nth_eq less_Suc_eq numeral_2_eq_2)
  show ?case
  proof (cases "find_subslice block crlf")
    case None
    then have "window_position crlf block = None" by (simp add: find_subslice_window)
    then have "take 2 (drop j block) \<noteq> crlf" if "j + 2 \<le> length block" for j
      using that by (simp add: window_position_None numeral_2_eq_2)
    with pair have "CR \<notin> set block" by (fastforce simp: in_set_conv_nth)
    with None "1.prems"(2) show ?thesis by (subst (asm) split_crlf.simps) simp
  next
    case (Some i)
    then have i: "i + 2 \<le> length block" "take 2 (drop i block) = crlf"
      "\<forall>j < i. take 2 (drop j block) \<noteq> crlf"
      by (auto simp: find_subslice_Some numeral_2_eq_2)
    have "CR \<notin> set (take i block)"
      using pair i by (fastforce simp: in_set_conv_nth)
    moreover have "\<not> has_bare_cr (drop (i + 2) block)"
      using "1.prems"(1) bare_cr_drop by blast
    ultimately show ?thesis
      using "1.prems"(2) "1.IH"[OF Some] Some by (subst (asm) split_crlf.simps) auto
  qed
qed

lemma set_dropWhile: "set (dropWhile P xs) \<subseteq> set xs"
  by (induction xs) auto

lemma set_trim_ows: "set (trim_ows s) \<subseteq> set s"
  using set_dropWhile[of is_ows "rev (dropWhile is_ows s)"] set_dropWhile[of is_ows s]
  by (auto simp: trim_ows_def)

subsection \<open>Well-formed heads\<close>

text \<open>A header field as the parser lets it through.\<close>

definition field_ok :: "header \<Rightarrow> bool" where
  "field_ok h \<longleftrightarrow> hdr_name h \<noteq> [] \<and> list_all is_token_byte (hdr_name h) \<and>
     CR \<notin> set (hdr_value h) \<and> utf8_valid (hdr_value h)"

definition target_ok :: "bytes \<Rightarrow> bool" where
  "target_ok t \<longleftrightarrow> t \<noteq> [] \<and> length t \<le> MAX_TARGET_BYTES \<and> utf8_valid t \<and>
     CR \<notin> set t \<and> CHR '' '' \<notin> set t"

text \<open>
  Exactly one valid \<open>Host\<close> for HTTP/1.1 and at most one for HTTP/1.0; a body length that
  comes from one source only.
\<close>

definition host_ok :: "header list \<Rightarrow> version \<Rightarrow> bool" where
  "host_ok hs v \<longleftrightarrow>
     (case named ''host'' hs of [] \<Rightarrow> v = Http10 | [h] \<Rightarrow> is_valid_host_value (hdr_value h) | _ \<Rightarrow> False)"

definition framing_ok :: "header list \<Rightarrow> bool" where
  "framing_ok hs \<longleftrightarrow>
     length (named ''transfer-encoding'' hs) + length (named ''content-length'' hs) \<le> 1"

definition request_ok :: "request \<Rightarrow> bool" where
  "request_ok r \<longleftrightarrow> target_ok (req_target r) \<and> length (req_headers r) \<le> MAX_HEADERS \<and>
     list_all field_ok (req_headers r) \<and> host_ok (req_headers r) (req_version r) \<and>
     framing_ok (req_headers r)"

lemma parse_header_line_ok:
  "parse_header_line line = Inr h \<Longrightarrow> CR \<notin> set line \<Longrightarrow> field_ok h"
  using set_trim_ows set_drop_subset[of _ line]
  by (auto simp: parse_header_line_def field_ok_def Let_def split: option.splits if_splits) blast

lemma parse_headers_ok:
  assumes "parse_headers ls acc = Inr hs" and "\<forall>l \<in> set ls. CR \<notin> set l"
    and "list_all field_ok acc" and "length acc \<le> MAX_HEADERS"
  shows "list_all field_ok hs \<and> length hs \<le> MAX_HEADERS"
  using assms
proof (induction ls acc rule: parse_headers.induct)
  case (2 line lines headers)
  from "2.prems"(1) obtain h where h: "line \<noteq> []" "length headers < MAX_HEADERS"
    "parse_header_line line = Inr h" "parse_headers lines (headers @ [h]) = Inr hs"
    by (auto split: if_splits sum.splits)
  moreover have "field_ok h" using parse_header_line_ok[OF h(3)] "2.prems"(2) by simp
  ultimately show ?case using "2.IH"[of h] "2.prems" by simp
qed simp

lemma splitn_3_parts:
  assumes "splitn 3 d xs = [a, b, c]"
  shows "xs = a @ d # b @ d # c" and "d \<notin> set a" and "d \<notin> set b"
proof -
  from assms obtain r where "split_once d xs = Some (a, r)" "split_once d r = Some (b, c)"
    by (auto simp: splitn_3 split: option.splits)
  then show "xs = a @ d # b @ d # c" and "d \<notin> set a" and "d \<notin> set b"
    by (auto dest: split_once_Some)
qed

lemma parse_request_line_ok:
  assumes "parse_request_line line = Inr (m, t, v)" and "CR \<notin> set line"
  shows "target_ok t"
proof -
  from assms(1) obtain a b c where s: "splitn 3 (CHR '' '') line = [a, b, c]"
    by (auto simp: parse_request_line_def split: list.splits)
  note p = splitn_3_parts[OF s]
  from assms(1) s have "t = b" "b \<noteq> []" "length b \<le> MAX_TARGET_BYTES" "utf8_valid b"
    by (auto simp: parse_request_line_def split: option.splits sum.splits if_splits)
  with p assms(2) show ?thesis by (auto simp: target_ok_def)
qed

lemma validate_host_ok: "validate_host hs v = Inr u \<Longrightarrow> host_ok hs v"
  by (cases v) (auto simp: validate_host_def host_ok_def split: list.splits if_splits)

lemma body_framing_ok: "body_framing hs = Inr f \<Longrightarrow> framing_ok hs"
  by (auto simp: body_framing_def framing_ok_def Let_def split: list.splits if_splits option.splits)

lemma body_framing_chunked:
  "body_framing hs = Inr Chunked \<longleftrightarrow>
     named ''content-length'' hs = [] \<and>
     (\<exists>h. named ''transfer-encoding'' hs = [h] \<and> eq_ignore_ascii_case (trim (hdr_value h)) ''chunked'')"
  by (auto simp: body_framing_def Let_def split: list.splits if_splits option.splits)

lemma parse_usize_le: "parse_usize s = Some n \<Longrightarrow> n \<le> USIZE_MAX"
  by (auto simp: parse_usize_def parse_unsigned_def Let_def split: option.splits if_splits)

lemma body_framing_fixed:
  "body_framing hs = Inr (Fixed n) \<Longrightarrow>
     named ''transfer-encoding'' hs = [] \<and> n \<le> USIZE_MAX \<and>
     (named ''content-length'' hs = [] \<and> n = 0 \<or>
      (\<exists>h. named ''content-length'' hs = [h] \<and> parse_usize (trim (hdr_value h)) = Some n))"
  by (auto simp: body_framing_def Let_def dest: parse_usize_le
      split: list.splits if_splits option.splits)


subsection \<open>Completed requests\<close>

lemma wrap64_no_wrap:
  assumes "a \<le> wrap64 (a + l)" and "l \<le> USIZE_MAX"
  shows "wrap64 (a + l) = a + l"
proof (rule ccontr)
  assume "wrap64 (a + l) \<noteq> a + l"
  then have ge: "2 ^ 64 \<le> a + l" using wrap64_id[of "a + l"] by linarith
  have "a < 2 ^ 64" using assms(1) wrap64_less[of "a + l"] by linarith
  then have "a + l - 2 ^ 64 < 2 ^ 64" using assms(2) by (simp add: USIZE_MAX_def)
  then have "wrap64 (a + l) = a + l - 2 ^ 64"
    unfolding wrap64_def using ge by (simp only: le_mod_geq mod_less)
  with ge assms show False by (simp add: USIZE_MAX_def)
qed

text \<open>The facts every accepted head has, and the shape of a completed parse.\<close>

lemma parse_head_ok:
  assumes "parse_head (take (i + 4) buf) = Inr (m, t, v, hs, f)"
    and "find_subslice buf (crlf @ crlf) = Some i"
  shows "target_ok t" "list_all field_ok hs" "length hs \<le> MAX_HEADERS" "host_ok hs v"
    "framing_ok hs" "body_framing hs = Inr f"
proof -
  have len: "i + 4 \<le> length buf" and cr: "buf ! i = CR"
    using assms(2) nth_take[of 0 4 "drop i buf"] by (auto simp: find_subslice_Some eval_nat_numeral)
  obtain l ls where ls: "split_crlf (take i buf) = l # ls"
    using assms(1) len by (auto simp: parse_head_def min_def split: list.splits if_splits)
  have "\<not> has_bare_cr (take (i + 4) buf)" using assms(1) by (auto simp: parse_head_def)
  then have "\<not> has_bare_cr (take i buf)"
    using bare_cr_take[of i "take (i + 4) buf"] len cr by auto
  with split_crlf_no_cr ls have nocr: "CR \<notin> set l" "\<forall>x \<in> set ls. CR \<notin> set x" by auto
  from assms(1) ls len have *: "parse_request_line l = Inr (m, t, v)" "parse_headers ls [] = Inr hs"
    "\<exists>u. validate_host hs v = Inr u" "body_framing hs = Inr f"
    by (auto simp: parse_head_def min_def split: if_splits sum.splits)
  show "target_ok t" using parse_request_line_ok[OF *(1) nocr(1)] .
  show "list_all field_ok hs" "length hs \<le> MAX_HEADERS"
    using parse_headers_ok[OF *(2) nocr(2)] by simp_all
  show "host_ok hs v" using *(3) validate_host_ok by blast
  show "framing_ok hs" "body_framing hs = Inr f" using *(4) body_framing_ok by blast+
qed

lemma parse_with_completeE:
  assumes "parse_with buf mb = Ok (Complete r n)"
  obtains i f where "find_subslice buf (crlf @ crlf) = Some i" "i \<le> MAX_HEAD_BYTES" "i + 4 \<le> length buf"
    "parse_head (take (i + 4) buf) =
       Inr (req_method r, req_target r, req_version r, req_headers r, f)"
    "case f of
       Fixed len \<Rightarrow> len \<le> mb \<and> n = i + 4 + len \<and> n \<le> length buf \<and>
         req_body r = take len (drop (i + 4) buf)
     | Chunked \<Rightarrow> i + 4 \<le> n \<and>
         decode_chunked (drop (i + 4) buf) mb = Ok (ChunkComplete (req_body r) (n - (i + 4)))"
proof -
  from assms obtain i where i: "find_subslice buf (crlf @ crlf) = Some i" "i \<le> MAX_HEAD_BYTES"
    by (auto simp: parse_with_def Let_def split: option.splits if_splits)
  have le: "i + 4 \<le> length buf" using find_subslice_less(1)[OF i(1)] by simp
  from assms parse_with_head_err[OF i, of _ mb]
  obtain m t v hs f where h: "parse_head (take (i + 4) buf) = Inr (m, t, v, hs, f)"
    by (cases "parse_head (take (i + 4) buf)") auto
  note P = assms[unfolded parse_with_head[OF i h]]
  show thesis
  proof (cases f)
    case (Fixed len)
    have "len \<le> USIZE_MAX" using parse_head_ok(6)[OF h i(1)] body_framing_fixed Fixed by simp
    then have "wrap64 (i + 4 + len) = i + 4 + len" if "i + 4 \<le> wrap64 (i + 4 + len)"
      using that by (rule wrap64_no_wrap[rotated])
    with P Fixed show thesis
      by (intro that[OF i le, of f]) (auto simp: h Let_def slice_Some split: if_splits option.splits)
  next
    case Chunked
    with P show thesis
      by (intro that[OF i le, of f]) (auto simp: h split: outcome.splits chunk_outcome.splits)
  qed
qed


lemma parse_with_bounds:
  assumes "parse_with buf mb = Ok (Complete r n)"
  shows "0 < n \<and> n \<le> length buf \<and> length (req_body r) \<le> mb \<and>
    parse_with (take n buf) mb = Ok (Complete r n)"
  using assms
proof (cases rule: parse_with_completeE)
  case (1 i f)
  have find': "find_subslice (take n buf) (crlf @ crlf) = Some i" if "i + 4 \<le> n"
    using find_subslice_take[OF 1(1), of n] that by simp
  have head': "parse_head (take (i + 4) (take n buf)) =
      Inr (req_method r, req_target r, req_version r, req_headers r, f)" if "i + 4 \<le> n"
    using 1(4) that by (simp add: min_def)
  note P = parse_with_head[OF 1(1,2,4), of mb, unfolded assms]
  show ?thesis
  proof (cases f)
    case (Fixed len)
    with 1(5) have n: "len \<le> mb" "n = i + 4 + len" "n \<le> length buf"
      "req_body r = take len (drop (i + 4) buf)" by auto
    have w: "wrap64 (i + 4 + len) = i + 4 + len"
      using P Fixed n(1,2) by (auto simp: Let_def split: if_splits option.splits)
    have "parse_with (take n buf) mb = Ok (Complete r n)"
      using n(1) 1(3) n(2,3)
      by (subst parse_with_head[OF find' 1(2) head'])
        (auto simp: Fixed w Let_def slice_def drop_take n(4))
    with n show ?thesis by simp
  next
    case Chunked
    define k where "k = n - (i + 4)"
    with 1(5) Chunked have n: "n = i + 4 + k"
      and d: "decode_loop (drop (i + 4) buf) mb 0 [] = Ok (ChunkComplete (req_body r) k)"
      by (auto simp: decode_chunked_def)
    from decode_loop_bounds[OF d] have k: "0 < k" "k \<le> length buf - (i + 4)" "length (req_body r) \<le> mb"
      "decode_loop (take k (drop (i + 4) buf)) mb 0 [] = Ok (ChunkComplete (req_body r) k)"
      by auto
    have "decode_chunked (drop (i + 4) (take n buf)) mb = Ok (ChunkComplete (req_body r) k)"
      using k(4) n by (simp add: decode_chunked_def drop_take)
    then have "parse_with (take n buf) mb = Ok (Complete r n)"
      using n by (subst parse_with_head[OF find' 1(2) head']) (simp_all add: Chunked)
    with k n 1(3) show ?thesis by simp
  qed
qed

text \<open>The parser as a framer: the request at the front of the buffer and its length.\<close>

definition next_request :: "nat \<Rightarrow> bytes \<Rightarrow> (request \<times> nat) option" where
  "next_request mb buf =
     (case parse_with buf mb of Ok (Complete r n) \<Rightarrow> Some (r, n) | _ \<Rightarrow> None)"

lemma next_request_Some: "next_request mb b = Some (r, n) \<longleftrightarrow> parse_with b mb = Ok (Complete r n)"
  by (auto simp: next_request_def split: outcome.splits parsed.splits)

interpretation rq: framer "next_request mb" for mb
  by unfold_locales
    (auto simp: next_request_Some intro: parse_with_append dest: parse_with_bounds)

lemma parse_with_request_ok:
  assumes "parse_with buf mb = Ok (Complete r n)"
  shows "request_ok r"
  using assms
proof (cases rule: parse_with_completeE)
  case (1 i f)
  from parse_head_ok[OF 1(4,1)] show ?thesis by (simp add: request_ok_def)
qed

text \<open>The only panic of the parser is in the chunk decoder.\<close>

lemma parse_with_panic:
  assumes "parse_with buf mb = Panic" and "mb + MAX_HEAD_BYTES + 4 < 2 ^ 64"
  obtains i m t v hs where "find_subslice buf (crlf @ crlf) = Some i"
    "parse_head (take (i + 4) buf) = Inr (m, t, v, hs, Chunked)"
    "decode_chunked (drop (i + 4) buf) mb = Panic"
proof -
  from assms(1) obtain i where i: "find_subslice buf (crlf @ crlf) = Some i" "i \<le> MAX_HEAD_BYTES"
    by (auto simp: parse_with_def Let_def split: option.splits if_splits)
  from assms(1) parse_with_head_err[OF i, of _ mb]
  obtain m t v hs f where h: "parse_head (take (i + 4) buf) = Inr (m, t, v, hs, f)"
    by (cases "parse_head (take (i + 4) buf)") auto
  note P = assms(1)[unfolded parse_with_head[OF i h]]
  show thesis
  proof (cases f)
    case (Fixed len)
    have "wrap64 (i + 4 + len) = i + 4 + len" if "len \<le> mb"
      using that i(2) assms(2) by simp
    with P Fixed show thesis
      by (auto simp: Let_def slice_def split: if_splits)
  next
    case Chunked
    with P h show thesis
      by (intro that[OF i(1)]) (auto split: outcome.splits chunk_outcome.splits)
  qed
qed

end
