(* ===== verification/Request_Render.thy ===== *)
theory Request_Render
  imports Request_Safety
begin

section \<open>Writing requests and chunked bodies\<close>

text \<open>
  The inverse direction of the parser: a well-formed request written in the syntax of
  RFC 9112, and a body in the chunked coding. Parsing the text gives the request back
  and reports exactly its length as consumed, whatever follows in the buffer.
\<close>

subsection \<open>The chunked coding\<close>

definition encode_chunk :: "bytes \<Rightarrow> bytes" where
  "encode_chunk data = show_hex (length data) @ crlf @ data @ crlf"

definition last_chunk :: bytes where
  "last_chunk = ''0'' @ crlf @ crlf"

definition encode_chunks :: "bytes list \<Rightarrow> bytes" where
  "encode_chunks cs = concat (map encode_chunk cs) @ last_chunk"

lemma parse_hex_digits_append:
  "parse_hex_digits a v = Inr w \<Longrightarrow> parse_hex_digits (a @ b) v = parse_hex_digits b w"
  by (induction a v rule: parse_hex_digits.induct) (auto split: option.splits if_splits)

lemma parse_hex_digits_show: "n \<le> USIZE_MAX \<Longrightarrow> parse_hex_digits (show_hex n) 0 = Inr n"
proof (induction n rule: show_hex.induct)
  case (1 n)
  show ?case
  proof (cases "n < 16")
    case True
    then show ?thesis by (subst show_hex.simps) (simp add: USIZE_MAX_def)
  next
    case False
    have e: "n div 16 * 16 + n mod 16 = n" by simp
    with "1.prems" have "n div 16 * 16 \<le> USIZE_MAX" by linarith
    moreover have "parse_hex_digits (show_hex (n div 16)) 0 = Inr (n div 16)"
      using "1.IH" False "1.prems" by simp
    ultimately show ?thesis
      using False "1.prems" e
      by (subst show_hex.simps) (simp add: parse_hex_digits_append not_less)
  qed
qed

lemma parse_hex_show: "n \<le> USIZE_MAX \<Longrightarrow> parse_hex (show_hex n) = Inr n"
  by (simp add: parse_hex_def parse_hex_digits_show)

lemma show_hex_not: "\<not> is_ascii_alphanumeric c \<Longrightarrow> c \<notin> set (show_hex n)"
  using show_hex_graphic by blast

lemma chunk_size_token_show: "chunk_size_token (show_hex n) = show_hex n"
proof -
  have "position (\<lambda>b. b = CHR '';'') (show_hex n) = None"
    using show_hex_not[of "CHR '';''" n] by (auto simp: position_None ascii_class_defs)
  then show ?thesis by (simp add: chunk_size_token_def)
qed

lemma cr_not_hex: "CR \<notin> set (show_hex n)"
  by (rule show_hex_not) (simp add: ascii_class_defs)

lemma decode_loop_encode:
  assumes "\<forall>c \<in> set cs. c \<noteq> []"
    and "length pre + length (encode_chunks cs) < 2 ^ 64"
    and "length body + length (concat cs) \<le> mb"
  shows "decode_loop (pre @ encode_chunks cs @ rest) mb (length pre) body =
     Ok (ChunkComplete (body @ concat cs) (length pre + length (encode_chunks cs)))"
  using assms
proof (induction cs arbitrary: pre body)
  case Nil
  let ?buf = "pre @ encode_chunks [] @ rest"
  have d: "drop (length pre) ?buf = ''0'' @ CR # LF # CR # LF # rest"
    by (simp add: encode_chunks_def last_chunk_def)
  have f: "find_subslice (drop (length pre) ?buf) crlf = Some 1"
    unfolding d by (subst find_crlf_line) simp_all
  have h: "parse_hex (chunk_size_token (take 1 (drop (length pre) ?buf))) = Inr 0"
    unfolding d by (simp add: chunk_size_token_def parse_hex_def hex_digit_val_def byte_in_def)
  have "drop (length pre + 1 + 2) ?buf = CR # LF # rest"
    by (simp add: encode_chunks_def last_chunk_def)
  then show ?case
    by (subst decode_loop_final[OF f h], subst skip_trailers.simps)
      (simp add: scan_simps encode_chunks_def last_chunk_def)
next
  case (Cons c cs)
  let ?buf = "pre @ encode_chunks (c # cs) @ rest"
  let ?h = "show_hex (length c)"
  define de where "de = length pre + length ?h + 2 + length c"
  have e: "encode_chunks (c # cs) = encode_chunk c @ encode_chunks cs"
    by (simp add: encode_chunks_def)
  have buf: "?buf = (pre @ encode_chunk c) @ encode_chunks cs @ rest" by (simp add: e)
  have d: "drop (length pre) ?buf = ?h @ CR # LF # c @ CR # LF # encode_chunks cs @ rest"
    by (simp add: e encode_chunk_def)
  have lt: "de + 2 < 2 ^ 64" using Cons.prems(2) by (simp add: e encode_chunk_def de_def)
  have f: "find_subslice (drop (length pre) ?buf) crlf = Some (length ?h)"
    unfolding d by (rule find_crlf_line[OF cr_not_hex])
  have h: "parse_hex (chunk_size_token (take (length ?h) (drop (length pre) ?buf))) = Inr (length c)"
    unfolding d using lt by (simp add: chunk_size_token_show parse_hex_show de_def USIZE_MAX_def)
  have s1: "slice ?buf de (de + 2) = Some crlf"
    unfolding e encode_chunk_def de_def by (simp add: slice_Some)
  have s2: "slice ?buf (length pre + length ?h + 2) de = Some c"
    unfolding e encode_chunk_def de_def by (simp add: slice_Some)
  have "decode_loop ?buf mb (length pre) body = decode_loop ?buf mb (de + 2) (body @ c)"
    by (rule decode_loop_chunk[OF f h _ _ _ s1 s2])
      (use lt Cons.prems in \<open>auto simp: de_def\<close>)
  also have "de + 2 = length (pre @ encode_chunk c)" by (simp add: de_def encode_chunk_def)
  also have "decode_loop ?buf mb (length (pre @ encode_chunk c)) (body @ c) =
      Ok (ChunkComplete ((body @ c) @ concat cs)
        (length (pre @ encode_chunk c) + length (encode_chunks cs)))"
    unfolding buf using Cons.prems by (intro Cons.IH) (auto simp: e)
  finally show ?case by (simp add: e)
qed

lemma decode_encode_chunks:
  assumes "\<forall>c \<in> set cs. c \<noteq> []" and "length (encode_chunks cs) < 2 ^ 64"
    and "length (concat cs) \<le> mb"
  shows "decode_chunked (encode_chunks cs @ rest) mb =
     Ok (ChunkComplete (concat cs) (length (encode_chunks cs)))"
  using decode_loop_encode[of cs "[]" "[]" mb rest] assms by (simp add: decode_chunked_def)


subsection \<open>Requests\<close>

fun version_text :: "version \<Rightarrow> bytes" where
  "version_text Http10 = ''HTTP/1.0''"
| "version_text Http11 = ''HTTP/1.1''"

definition render_header :: "header \<Rightarrow> bytes" where
  "render_header h = hdr_name h @ '': '' @ hdr_value h"

definition request_line :: "request \<Rightarrow> bytes" where
  "request_line r =
     method_as_str (req_method r) @ '' '' @ req_target r @ '' '' @ version_text (req_version r)"

definition head_lines :: "request \<Rightarrow> bytes list" where
  "head_lines r = request_line r # map render_header (req_headers r)"

definition render_head :: "request \<Rightarrow> bytes" where
  "render_head r = unlines (head_lines r) @ crlf"

definition render_request :: "request \<Rightarrow> bytes" where
  "render_request r = render_head r @ req_body r"

text \<open>
  The requests that have a rendering: the parser's own conditions, values without the
  optional white space around them that the parser strips, and a head within its limit.
\<close>

definition renderable :: "request \<Rightarrow> bool" where
  "renderable r \<longleftrightarrow> request_ok r \<and>
     list_all (\<lambda>h. trim_ows (hdr_value h) = hdr_value h) (req_headers r) \<and>
     length (render_head r) \<le> MAX_HEAD_BYTES + 4"

lemma token_byte_no: "is_token_byte b \<Longrightarrow> b \<noteq> CHR '':'' \<and> b \<noteq> CR \<and> b \<noteq> LF \<and> b \<noteq> CHR '' ''"
  by (auto simp: is_token_byte_def ascii_class_defs)

lemma token_byte_ascii: "is_token_byte b \<Longrightarrow> byte_val b < 128"
  by (auto simp: is_token_byte_def ascii_class_defs)

lemma parse_version_text: "parse_version (version_text v) = Inr v"
  by (cases v) (simp_all add: parse_version_def strip_prefix_def ascii_to_u32_saturating_def
      ascii_class_defs U32_MAX_def digit_val_def)

lemma parse_request_line_render:
  assumes "target_ok (req_target r)"
  shows "parse_request_line (request_line r) =
    Inr (req_method r, req_target r, req_version r)"
proof -
  have b: "CHR '' '' \<notin> set (method_as_str (req_method r))" "CHR '' '' \<notin> set (req_target r)"
    using assms by (auto simp: target_ok_def ascii_class_defs dest!: method_as_str_alpha)
  have "splitn 3 (CHR '' '') (request_line r) =
      [method_as_str (req_method r), req_target r, version_text (req_version r)]"
    by (simp add: splitn_3 request_line_def split_once_hit[OF b(1)] split_once_hit[OF b(2)])
  moreover have "CHR '' '' \<notin> set (version_text (req_version r))"
    by (cases "req_version r") auto
  ultimately show ?thesis
    using assms by (simp add: parse_request_line_def parse_version_text target_ok_def)
qed

lemma parse_header_line_render:
  assumes "field_ok h" and "trim_ows (hdr_value h) = hdr_value h"
  shows "parse_header_line (render_header h) = Inr h"
proof -
  have n: "hdr_name h \<noteq> []" "list_all is_token_byte (hdr_name h)"
    using assms(1) by (auto simp: field_ok_def)
  have "position (\<lambda>b. b = CHR '':'') (render_header h) = Some (length (hdr_name h))"
    unfolding render_header_def using n(2)
    by (simp only: append_Cons, intro position_hit) (auto simp: list_all_iff dest: token_byte_no)
  moreover have "trim_ows (CHR '' '' # hdr_value h) = hdr_value h"
    using assms(2) by (simp add: trim_ows_def is_ows_def)
  moreover have "utf8_valid (hdr_name h)"
    using n(2) by (intro utf8_valid_ascii) (auto simp: list_all_iff dest: token_byte_ascii)
  ultimately show ?thesis
    using assms n by (simp add: parse_header_line_def render_header_def field_ok_def Let_def)
qed

lemma parse_headers_render:
  assumes "list_all field_ok hs" and "list_all (\<lambda>h. trim_ows (hdr_value h) = hdr_value h) hs"
    and "length (acc @ hs) \<le> MAX_HEADERS"
  shows "parse_headers (map render_header hs) acc = Inr (acc @ hs)"
  using assms
proof (induction hs arbitrary: acc)
  case (Cons h hs)
  then show ?case
    by (auto simp: parse_header_line_render) (simp add: render_header_def)
qed simp

lemma validate_host_render: "host_ok hs v \<Longrightarrow> validate_host hs v = Inr ()"
  by (auto simp: validate_host_def host_ok_def split: list.splits)

lemma unlines_no_bare_cr:
  "\<forall>l \<in> set ls. CR \<notin> set l \<Longrightarrow> \<not> has_bare_cr t \<Longrightarrow> \<not> has_bare_cr (unlines ls @ t)"
proof (induction ls)
  case (Cons l ls)
  have skip: "has_bare_cr (x @ CR # LF # y) \<longleftrightarrow> has_bare_cr y" if "CR \<notin> set x" for x y
    using that
  proof (induction x rule: induct_list012)
    case 1
    then show ?case by (cases y) auto
  next
    case (2 a)
    then show ?case by (cases y) auto
  qed auto
  from Cons show ?case by (simp add: skip)
qed simp

lemma head_lines_ok:
  assumes "request_ok r"
  shows "\<forall>l \<in> set (head_lines r). l \<noteq> [] \<and> CR \<notin> set l"
proof -
  have "CR \<notin> set (request_line r)"
    using assms method_as_str_alpha[of CR "req_method r"]
    by (cases "req_version r") (auto simp: request_line_def request_ok_def target_ok_def ascii_class_defs)
  moreover have "CR \<notin> set (render_header h)" if "field_ok h" for h
    using that token_byte_no[of CR] by (auto simp: render_header_def field_ok_def list_all_iff)
  ultimately show ?thesis
    using assms by (auto simp: head_lines_def request_line_def render_header_def request_ok_def list_all_iff)
qed

lemma split_crlf_block:
  assumes "ls \<noteq> []" and "\<forall>l \<in> set ls. CR \<notin> set l"
  shows "split_crlf (take (length (unlines ls) - 2) (unlines ls @ t)) = ls"
proof -
  obtain ks l where ls: "ls = ks @ [l]" using assms(1) by (metis append_butlast_last_id)
  have "take (length (unlines ls) - 2) (unlines ls @ t) = unlines ks @ l" by (simp add: ls)
  with split_crlf_unlines[of ks l] assms(2) ls show ?thesis by simp
qed

lemma render_head_parse:
  assumes "renderable r" and "body_framing (req_headers r) = Inr f"
  obtains i where "i + 4 = length (render_head r)" "i \<le> MAX_HEAD_BYTES"
    "find_subslice (render_head r @ rest) (crlf @ crlf) = Some i"
    "parse_head (take (i + 4) (render_head r @ rest)) =
       Inr (req_method r, req_target r, req_version r, req_headers r, f)"
proof -
  have ok: "request_ok r" "list_all (\<lambda>h. trim_ows (hdr_value h) = hdr_value h) (req_headers r)"
    using assms(1) by (auto simp: renderable_def)
  note lines = head_lines_ok[OF ok(1)]
  let ?i = "length (unlines (head_lines r)) - 2"
  have i: "?i + 4 = length (render_head r)" by (simp add: render_head_def head_lines_def)
  have "split_crlf (take ?i (render_head r)) = head_lines r"
    unfolding render_head_def using lines
    by (intro split_crlf_block) (auto simp: head_lines_def)
  moreover have "\<not> has_bare_cr (render_head r)"
    unfolding render_head_def using lines by (intro unlines_no_bare_cr) auto
  ultimately have "parse_head (render_head r) =
      Inr (req_method r, req_target r, req_version r, req_headers r, f)"
    using ok assms(2) i[symmetric]
    by (simp add: parse_head_def head_lines_def parse_request_line_render request_ok_def
        parse_headers_render[of _ "[]", simplified] validate_host_render)
  moreover have "find_subslice (render_head r @ rest) (crlf @ crlf) = Some ?i"
    using find_head_end[of "head_lines r" rest] lines by (simp add: render_head_def head_lines_def)
  moreover have "?i \<le> MAX_HEAD_BYTES" using assms(1) i by (simp add: renderable_def)
  ultimately show thesis using i by (intro that[of ?i]) auto
qed


lemma parse_render_fixed:
  assumes "renderable r" and "body_framing (req_headers r) = Inr (Fixed (length (req_body r)))"
    and "length (req_body r) \<le> mb" and "length (render_request r) < 2 ^ 64"
  shows "parse_with (render_request r @ rest) mb = Ok (Complete r (length (render_request r)))"
proof -
  obtain i where i: "i + 4 = length (render_head r)" "i \<le> MAX_HEAD_BYTES"
    "find_subslice (render_head r @ req_body r @ rest) (crlf @ crlf) = Some i"
    "parse_head (take (i + 4) (render_head r @ req_body r @ rest)) =
       Inr (req_method r, req_target r, req_version r, req_headers r, Fixed (length (req_body r)))"
    using render_head_parse[OF assms(1,2)] .
  have "wrap64 (i + 4 + length (req_body r)) = i + 4 + length (req_body r)"
    using assms(4) i(1) by (simp add: render_request_def)
  then show ?thesis
    using assms(3) i(1) parse_with_head[OF i(3,2,4), of mb]
    by (simp add: render_request_def slice_def Let_def)
qed

lemma parse_render_chunked:
  assumes "renderable r" and "body_framing (req_headers r) = Inr Chunked"
    and "\<forall>c \<in> set cs. c \<noteq> []" and "concat cs = req_body r" and "length (req_body r) \<le> mb"
    and "length (encode_chunks cs) < 2 ^ 64"
  shows "parse_with (render_head r @ encode_chunks cs @ rest) mb =
    Ok (Complete r (length (render_head r @ encode_chunks cs)))"
proof -
  obtain i where i: "i + 4 = length (render_head r)" "i \<le> MAX_HEAD_BYTES"
    "find_subslice (render_head r @ encode_chunks cs @ rest) (crlf @ crlf) = Some i"
    "parse_head (take (i + 4) (render_head r @ encode_chunks cs @ rest)) =
       Inr (req_method r, req_target r, req_version r, req_headers r, Chunked)"
    using render_head_parse[OF assms(1,2)] .
  then show ?thesis
    using parse_with_head[OF i(3,2,4), of mb] decode_encode_chunks[OF assms(3,6), of mb rest] assms(4,5)
    by simp
qed

lemma parse_huge_chunk:
  assumes "renderable r" and "body_framing (req_headers r) = Inr Chunked"
  shows "parse_with (render_head r @ ''FFFFFFFFFFFFFFFE'' @ crlf @ rest) mb = Panic"
proof -
  let ?tok = "''FFFFFFFFFFFFFFFE''"
  let ?b = "?tok @ CR # LF # rest"
  obtain i where i: "i + 4 = length (render_head r)" "i \<le> MAX_HEAD_BYTES"
    "find_subslice (render_head r @ ?b) (crlf @ crlf) = Some i"
    "parse_head (take (i + 4) (render_head r @ ?b)) =
       Inr (req_method r, req_target r, req_version r, req_headers r, Chunked)"
    using render_head_parse[OF assms] .
  have f: "find_subslice (drop 0 ?b) crlf = Some 16"
    using find_crlf_line[of ?tok rest] by simp
  have h: "parse_hex (chunk_size_token (take 16 (drop 0 ?b))) = Inr 18446744073709551614"
    by (simp add: chunk_size_token_def parse_hex_def hex_digit_val_def byte_in_def USIZE_MAX_def)
  have w: "wrap64 (0 + 16 + 2 + 18446744073709551614) = 16" "wrap64 (16 + 2) = 18"
    by (simp_all add: wrap64_def)
  have s: "slice ?b 16 18 = Some crlf" "slice ?b (0 + 16 + 2) 16 = None"
    by (simp_all add: slice_def)
  have "decode_loop ?b mb 0 [] = Panic"
    by (subst decode_loop.simps, simp only: f h w s option.case sum.case Let_def) simp
  then show ?thesis
    using i(1) parse_with_head[OF i(3,2,4), of mb] by (simp add: decode_chunked_def)
qed

end
