(* ===== verification/Request_Theorems.thy ===== *)
theory Request_Theorems
  imports Request_Render
begin

section \<open>The properties of the request parser\<close>

text \<open>
  The properties of \<open>request.rs\<close>, each a few steps from the lemmas of
  \<open>Request_Laws\<close>, \<open>Request_Safety\<close> and \<open>Request_Render\<close>, with
  concrete requests for their hypotheses.
\<close>

subsection \<open>Concrete requests\<close>

definition sample_post :: request where
  "sample_post = \<lparr>req_method = Post, req_target = ''/a?b'', req_version = Http11,
     req_headers = [\<lparr>hdr_name = ''Host'', hdr_value = ''h''\<rparr>,
                    \<lparr>hdr_name = ''Content-Length'', hdr_value = ''2''\<rparr>],
     req_body = ''hi''\<rparr>"

definition sample_chunked :: request where
  "sample_chunked = \<lparr>req_method = Put, req_target = ''/c'', req_version = Http11,
     req_headers = [\<lparr>hdr_name = ''Host'', hdr_value = ''h''\<rparr>,
                    \<lparr>hdr_name = ''Transfer-Encoding'', hdr_value = ''chunked''\<rparr>],
     req_body = ''abc''\<rparr>"

lemmas sample_eval =
  sample_post_def sample_chunked_def renderable_def request_ok_def target_ok_def field_ok_def
  host_ok_def framing_ok_def render_head_def head_lines_def request_line_def render_header_def
  render_request_def encode_chunks_def encode_chunk_def last_chunk_def

lemma renderable_sample_post: "renderable sample_post"
  "body_framing (req_headers sample_post) = Inr (Fixed (length (req_body sample_post)))"
  by (simp_all add: sample_eval exec_simps)

lemma renderable_sample_chunked: "renderable sample_chunked"
  "body_framing (req_headers sample_chunked) = Inr Chunked"
  by (simp_all add: sample_eval exec_simps)

lemma sample_post_parsed:
  "parse_with (render_request sample_post @ rest) 10 =
     Ok (Complete sample_post (length (render_request sample_post)))"
  using renderable_sample_post
  by (intro parse_render_fixed) (simp_all add: sample_eval)

subsection \<open>Incremental parsing\<close>


text \<open>Pipelined requests are recovered one by one. A sequence of well-formed requests
  written back to back is read as exactly that sequence, with no byte left over and none
  attributed to the wrong request.\<close>

theorem pipelined_requests_roundtrip:
  assumes "\<forall>r \<in> set rs. renderable r \<and>
      body_framing (req_headers r) = Inr (Fixed (length (req_body r))) \<and>
      length (req_body r) \<le> max_body \<and> length (render_request r) < 2 ^ 64"
  shows "frames (next_request max_body) (concat (map render_request rs)) = (rs, [])"
  using rq.frames_concat[of "map (\<lambda>r. (r, render_request r)) rs" max_body] assms
    parse_render_fixed[of _ max_body "[]"]
  by (force simp: next_request_Some comp_def)

lemma pipelined_requests_roundtrip_witness:
  "frames (next_request 10) (concat (map render_request [sample_post, sample_post])) =
     ([sample_post, sample_post], [])"
  by (rule pipelined_requests_roundtrip) (use renderable_sample_post in \<open>simp add: sample_eval\<close>)

text \<open>C10: The chunked coding is decoded. A well-formed request whose body is sent as any
  sequence of non-empty chunks is completed with the concatenation of the chunks as its body,
  and exactly the bytes of head and chunks are consumed, whatever follows them.\<close>

theorem chunked_request_roundtrip:
  assumes "renderable r" and "body_framing (req_headers r) = Inr Chunked"
    and "\<forall>c \<in> set cs. c \<noteq> []" and "concat cs = req_body r" and "length (req_body r) \<le> max_body"
    and "length (encode_chunks cs) < 2 ^ 64"
  shows "parse_with (render_head r @ encode_chunks cs @ rest) max_body =
    Ok (Complete r (length (render_head r @ encode_chunks cs)))"
  using assms by (rule parse_render_chunked)

lemma chunked_request_roundtrip_witness:
  "parse_with (render_head sample_chunked @ encode_chunks [''ab'', ''c''] @ ''GET'') 3 =
    Ok (Complete sample_chunked (length (render_head sample_chunked @ encode_chunks [''ab'', ''c''])))"
  by (rule chunked_request_roundtrip)
    (use renderable_sample_chunked in \<open>simp_all add: sample_chunked_def encode_chunks_def
      encode_chunk_def last_chunk_def show_hex.simps\<close>)

text \<open>A settled answer is final. Once \<open>parse_with\<close> completes a request or reports an
  error other than the two size limits on unterminated lines, more bytes behind the buffer do
  not change its answer.\<close>

theorem settled_answer_final:
  assumes "parse_with buf max_body = answer" and "answer \<noteq> Ok Partial" and "settled answer"
  shows "parse_with (buf @ rest) max_body = answer"
  using assms by (rule parse_with_append)

lemma settled_answer_final_witness:
  "parse_with (''GET  HTTP/1.1'' @ crlf @ crlf @ ''tail'') 10 = Err MalformedRequestLine"
  using settled_answer_final[of "''GET  HTTP/1.1'' @ crlf @ crlf" 10 "Err MalformedRequestLine" "''tail''"]
  by (simp add: exec_simps)

text \<open>Completing a request takes at least one byte and no more than has arrived, depends
  on the consumed bytes alone, and yields a body within the limit of the connection.\<close>

theorem completion_bounds:
  assumes "parse_with buf max_body = Ok (Complete r n)"
  shows "0 < n \<and> n \<le> length buf \<and> length (req_body r) \<le> max_body \<and>
    parse_with (take n buf) max_body = Ok (Complete r n)"
  using assms by (rule parse_with_bounds)

lemma completion_bounds_witness:
  "0 < length (render_request sample_post) \<and>
   parse_with (take (length (render_request sample_post)) (render_request sample_post @ ''x'')) 10 =
     Ok (Complete sample_post (length (render_request sample_post)))"
  using completion_bounds[OF sample_post_parsed[of "''x''"]] by blast

subsection \<open>Safety of accepted requests\<close>



text \<open>Without \<open>Transfer-Encoding\<close>, the body of a completed request is exactly as long
  as \<open>Content-Length\<close> announces (empty without the field), and it is the last part of the
  consumed bytes, so the next request starts right behind it.\<close>

theorem content_length_framing:
  assumes "parse_with buf max_body = Ok (Complete r n)"
    and "named ''transfer-encoding'' (req_headers r) = []"
  shows "req_body r = drop (n - length (req_body r)) (take n buf) \<and>
    (case named ''content-length'' (req_headers r) of
       [] \<Rightarrow> req_body r = []
     | h # _ \<Rightarrow> parse_usize (trim (hdr_value h)) = Some (length (req_body r)))"
  using assms(1)
proof (cases rule: parse_with_completeE)
  case (1 i f)
  have fr: "body_framing (req_headers r) = Inr f" using parse_head_ok(6)[OF 1(4,1)] .
  obtain len where f: "f = Fixed len"
    using assms(2) fr by (cases f) (auto simp: body_framing_chunked)
  with 1(5) have n: "n = i + 4 + len" "n \<le> length buf" "req_body r = take len (drop (i + 4) buf)"
    by auto
  then have "length (req_body r) = len" by simp
  with n f body_framing_fixed[of "req_headers r" len] fr show ?thesis
    by (auto simp: drop_take)
qed

lemma content_length_framing_witness:
  "parse_usize (trim ''2'') = Some (length (req_body sample_post))"
proof -
  have "named ''transfer-encoding'' (req_headers sample_post) = []"
    and "named ''content-length'' (req_headers sample_post) =
      [\<lparr>hdr_name = ''Content-Length'', hdr_value = ''2''\<rparr>]"
    by (simp_all add: sample_post_def exec_simps)
  with content_length_framing[OF sample_post_parsed[of "[]"]] show ?thesis by simp
qed



text \<open>That panic is reachable from the network. Any well-formed chunked request whose first
  chunk announces \<open>FFFFFFFFFFFFFFFE\<close> bytes panics as soon as the size line has arrived:
  the end of the data wraps around to a place before its start.\<close>

theorem oversized_chunk_panics:
  assumes "renderable r" and "body_framing (req_headers r) = Inr Chunked"
  shows "parse_with (render_head r @ ''FFFFFFFFFFFFFFFE'' @ crlf @ rest) max_body = Panic"
  using assms by (rule parse_huge_chunk)

lemma oversized_chunk_panics_witness:
  "parse_with (render_head sample_chunked @ ''FFFFFFFFFFFFFFFE'' @ crlf @ ''x'') 7 = Panic"
  by (rule oversized_chunk_panics[OF renderable_sample_chunked])

subsection \<open>White space around framing fields\<close>

lemma nbsp_trim: "trim ([CHR 0xC2, CHR 0xA0] @ ''chunked'') = ''chunked''"
proof -
  have "trim_start ([CHR 0xC2, CHR 0xA0] @ ''chunked'') = trim_start ''chunked''"
    by (subst trim_start.simps) (simp add: whitespace_encodings_def starts_with_def)
  moreover have "trim_start ''chunked'' = ''chunked''"
    by (subst trim_start.simps) (simp add: whitespace_encodings_def starts_with_def)
  moreover have "trim_end ''chunked'' = ''chunked''"
    by (subst trim_end.simps) (simp add: whitespace_encodings_def ends_with_def)
  ultimately show ?thesis by (simp add: trim_def)
qed

text \<open>
  The value of a framing field is trimmed by the Unicode notion of white space: a no-break space
  before the coding, which RFC 9112 does not allow there, is passed over.
\<close>

theorem no_break_space_trimmed:
  "body_framing [\<lparr>hdr_name = ''Transfer-Encoding'', hdr_value = [CHR 0xC2, CHR 0xA0] @ ''chunked''\<rparr>] = Inr Chunked"
  using nbsp_trim by (simp add: body_framing_def named_def eq_ignore_ascii_case_def exec_simps)

end
