(* ===== verification/Response.thy ===== *)
theory Response
  imports Http_Types
begin

section \<open>Responses\<close>

text \<open>
  \<open>crates/core/src/http/response.rs\<close>: the response record, its constructors and
  \<open>serialize\<close>, which derives the body length, drops header fields that could split
  the response and leaves the body out where HTTP has none. \<open>serialize\<close> is written
  as the source writes it, one push onto the head after the other; its properties are in
  \<open>Response_Laws\<close>.
\<close>

record response =
  resp_status :: status_code
  resp_headers :: "(bytes \<times> bytes) list"
  resp_body :: bytes

definition resp_new :: "status_code \<Rightarrow> response" where
  "resp_new status = \<lparr>resp_status = status, resp_headers = [], resp_body = []\<rparr>"

definition with_header :: "response \<Rightarrow> bytes \<Rightarrow> bytes \<Rightarrow> response" where
  "with_header r name value = r\<lparr>resp_headers := resp_headers r @ [(name, value)]\<rparr>"

definition resp_text :: "status_code \<Rightarrow> bytes \<Rightarrow> response" where
  "resp_text status body =
     \<lparr>resp_status = status, resp_headers = [(''Content-Type'', ''text/plain; charset=utf-8'')],
      resp_body = body\<rparr>"

definition resp_json :: "status_code \<Rightarrow> bytes \<Rightarrow> response" where
  "resp_json status body =
     \<lparr>resp_status = status, resp_headers = [(''Content-Type'', ''application/json'')],
      resp_body = body\<rparr>"

definition has_forbidden_byte :: "bytes \<Rightarrow> bool" where
  "has_forbidden_byte s \<longleftrightarrow> list_ex (\<lambda>b. b = CR \<or> b = LF \<or> byte_val b = 0) s"

definition push_header :: "bytes \<Rightarrow> bytes \<times> bytes \<Rightarrow> bytes" where
  "push_header out nv =
     (case nv of (name, value) \<Rightarrow>
        if eq_ignore_ascii_case name ''content-length'' then out
        else if has_forbidden_byte name \<or> has_forbidden_byte value then out
        else out @ name @ '': '' @ value @ crlf)"

definition serialize :: "response \<Rightarrow> bool \<Rightarrow> bytes" where
  "serialize r head_only =
     (let head = ''HTTP/1.1 '' @ show_nat (resp_status r) @ '' '' @ reason (resp_status r) @ crlf;
          head = foldl push_header head (resp_headers r);
          empty_body = is_empty_body (resp_status r);
          head = (if \<not> empty_body
                  then head @ ''Content-Length: '' @ show_nat (length (resp_body r)) @ crlf
                  else head);
          out = head @ crlf
      in if \<not> head_only \<and> \<not> empty_body then out @ resp_body r else out)"

declare resp_new_def [exec_simps]
declare with_header_def [exec_simps]
declare resp_text_def [exec_simps]
declare resp_json_def [exec_simps]
declare has_forbidden_byte_def [exec_simps]
declare push_header_def [exec_simps]
declare serialize_def [exec_simps]

lemma with_header_simps [simp]:
  "resp_status (with_header r n v) = resp_status r"
  "resp_body (with_header r n v) = resp_body r"
  "resp_headers (with_header r n v) = resp_headers r @ [(n, v)]"
  by (simp_all add: with_header_def)

lemma resp_text_simps [simp]:
  "resp_status (resp_text s b) = s" "resp_body (resp_text s b) = b"
  by (simp_all add: resp_text_def)

lemma resp_new_simps [simp]:
  "resp_status (resp_new s) = s" "resp_body (resp_new s) = []" "resp_headers (resp_new s) = []"
  by (simp_all add: resp_new_def)

text \<open>The value of the first header field with a name, as a client reads it.\<close>

definition resp_header :: "response \<Rightarrow> bytes \<Rightarrow> bytes option" where
  "resp_header r name =
     map_option snd (find (\<lambda>(n, _). eq_ignore_ascii_case n name) (resp_headers r))"


lemma find_append:
  "find P (xs @ ys) = (case find P xs of Some x \<Rightarrow> Some x | None \<Rightarrow> find P ys)"
  by (induction xs) auto

lemma resp_header_with:
  "resp_header (with_header r n v) name =
     (case resp_header r name of
        Some x \<Rightarrow> Some x
      | None \<Rightarrow> if eq_ignore_ascii_case n name then Some v else None)"
  by (auto simp: resp_header_def find_append split: option.split)

lemma resp_header_new [simp]: "resp_header (resp_new status) name = None"
  by (simp add: resp_header_def)

lemma resp_header_body [simp]: "resp_header (r\<lparr>resp_body := b\<rparr>) name = resp_header r name"
  by (simp add: resp_header_def)

end
