(* ===== verification/Date.thy ===== *)
theory Date
  imports Numerals
begin

section \<open>HTTP dates\<close>

text \<open>
  \<open>crates/core/src/http/date.rs\<close>: \<open>http_date\<close> prints a Unix time as an
  IMF-fixdate, \<open>parse_http_date\<close> reads one back, and both rest on the proleptic
  Gregorian calendar computed with integer divisions. \<open>days_from_civil\<close> is also called
  with a year a client chose, so its \<open>i64\<close> arithmetic wraps (one \<open>wrap_i64\<close> around a
  sum of products is the result of wrapping every step); \<open>civil_from_days\<close> is only
  called with the days of a \<open>u64\<close> time, where nothing overflows. The theory shows that
  the two conversions are inverse and that every \<open>u64\<close> time survives the round trip
  through its text.
\<close>

definition WEEKDAYS :: "bytes list" where
  "WEEKDAYS = [''Sun'', ''Mon'', ''Tue'', ''Wed'', ''Thu'', ''Fri'', ''Sat'']"

definition MONTHS :: "bytes list" where
  "MONTHS = [''Jan'', ''Feb'', ''Mar'', ''Apr'', ''May'', ''Jun'', ''Jul'', ''Aug'', ''Sep'',
             ''Oct'', ''Nov'', ''Dec'']"

definition civil_from_days :: "int \<Rightarrow> int \<times> int \<times> int" where
  "civil_from_days days =
     (let z = days + 719468;
          era = tdiv (if z \<ge> 0 then z else z - 146096) 146097;
          doe = z - era * 146097;
          yoe = tdiv (doe - tdiv doe 1460 + tdiv doe 36524 - tdiv doe 146096) 365;
          year = yoe + era * 400;
          doy = doe - (365 * yoe + tdiv yoe 4 - tdiv yoe 100);
          mp = tdiv (5 * doy + 2) 153;
          day = doy - tdiv (153 * mp + 2) 5 + 1;
          month = (if mp < 10 then mp + 3 else mp - 9)
      in (if month \<le> 2 then year + 1 else year, month, day))"

definition days_from_civil :: "int \<Rightarrow> int \<Rightarrow> int \<Rightarrow> int" where
  "days_from_civil year month day =
     (let y = (if month \<le> 2 then wrap_i64 (year - 1) else year);
          era = tdiv (if y \<ge> 0 then y else wrap_i64 (y - 399)) 400;
          yoe = wrap_i64 (y - era * 400);
          mp = (if month > 2 then month - 3 else month + 9);
          doy = tdiv (153 * mp + 2) 5 + day - 1;
          doe = yoe * 365 + tdiv yoe 4 - tdiv yoe 100 + doy
      in wrap_i64 (era * 146097 + doe - 719468))"

definition http_date :: "nat \<Rightarrow> bytes" where
  "http_date unix_secs =
     (let days = int (unix_secs div 86400);
          secs_of_day = unix_secs mod 86400;
          hour = secs_of_day div 3600;
          minute = (secs_of_day mod 3600) div 60;
          second = secs_of_day mod 60;
          weekday = nat ((days mod 7 + 4) mod 7)
      in case civil_from_days days of (year, month, day) \<Rightarrow>
        (WEEKDAYS ! weekday) @ '', '' @ pad_zero 2 (show_nat (nat day)) @ '' ''
          @ (MONTHS ! nat (month - 1)) @ '' '' @ pad_zero 4 (show_nat (nat year)) @ '' ''
          @ pad_zero 2 (show_nat hour) @ '':'' @ pad_zero 2 (show_nat minute) @ '':''
          @ pad_zero 2 (show_nat second) @ '' GMT'')"

definition parse_http_date :: "bytes \<Rightarrow> nat option" where
  "parse_http_date value =
     (case split_on (CHR '' '') value of
        [weekday, day_tok, month_tok, year_tok, time_tok, zone] \<Rightarrow>
          (case (parse_i64 day_tok, position (\<lambda>m. m = month_tok) MONTHS, parse_i64 year_tok,
                 split_on (CHR '':'') time_tok) of
             (Some day, Some month_idx, Some year, [hour_tok, minute_tok, second_tok]) \<Rightarrow>
               (case (parse_u64 hour_tok, parse_u64 minute_tok, parse_u64 second_tok) of
                  (Some hour, Some minute, Some second) \<Rightarrow>
                    if zone \<noteq> ''GMT'' then None
                    else if \<not> (1 \<le> day \<and> day \<le> 31) \<or> hour > 23 \<or> minute > 59 \<or> second > 60 then None
                    else (let days = days_from_civil year (int month_idx + 1) day in
                      if days < 0 then None
                      else Some (wrap64 (nat days * 86400 + hour * 3600 + minute * 60 + second)))
                | _ \<Rightarrow> None)
           | _ \<Rightarrow> None)
      | _ \<Rightarrow> None)"

subsection \<open>The calendar\<close>

lemma div_bounds:
  fixes x k :: int
  assumes "0 < k"
  shows "k * (x div k) \<le> x" and "x < k * (x div k) + k"
  using mult_div_mod_eq[of k x] pos_mod_sign[OF assms, of x] pos_mod_bound[OF assms, of x] by linarith+

lemma div_unique_bounds:
  fixes x k q :: int
  assumes "k * q \<le> x" and "x < k * q + k"
  shows "x div k = q"
  using assms by (intro int_div_pos_eq[of _ _ _ "x - k * q"]) auto

text \<open>The year of the era: the correction terms of the source find it for every day.\<close>

lemma year_of_century:
  fixes doe :: int
  assumes "b \<in> {0, 1, 2, 3}" and "36524 * b \<le> doe" and "doe < 36524 * b + 36524"
    and "yoe = (doe - doe div 1460 + b) div 365"
  shows "yoe div 100 = b" and "0 \<le> doe - (365 * yoe + yoe div 4 - b)"
    and "doe - (365 * yoe + yoe div 4 - b) \<le> 365"
proof -
  define a w where "a = doe div 1460" and "w = yoe div 4"
  have a: "1460 * a \<le> doe" "doe < 1460 * a + 1460"
    unfolding a_def by (rule div_bounds; simp)+
  have q: "365 * yoe \<le> doe - a + b" "doe - a + b < 365 * yoe + 365"
    unfolding assms(4) a_def by (rule div_bounds; simp)+
  have w: "4 * w \<le> yoe" "yoe < 4 * w + 4" unfolding w_def by (rule div_bounds; simp)+
  have b: "b = 0 \<or> b = 1 \<or> b = 2 \<or> b = 3" using assms(1) by auto
  have "100 * b \<le> yoe" "yoe < 100 * b + 100" using b assms(2,3) a q by (elim disjE; simp)+
  then show "yoe div 100 = b" by (rule div_unique_bounds)
  show "0 \<le> doe - (365 * yoe + yoe div 4 - b)" "doe - (365 * yoe + yoe div 4 - b) \<le> 365"
    unfolding w_def[symmetric] using b assms(2,3) a q w by (elim disjE; simp)+
qed

lemma year_of_era:
  fixes doe :: int
  assumes "0 \<le> doe" and "doe < 146097"
    and "yoe = (doe - doe div 1460 + doe div 36524 - doe div 146096) div 365"
    and "doy = doe - (365 * yoe + yoe div 4 - yoe div 100)"
  shows "0 \<le> yoe \<and> yoe < 400 \<and> 0 \<le> doy \<and> doy \<le> 365"
proof (cases "doe = 146096")
  case True
  with assms(3,4) show ?thesis by simp
next
  case False
  define b where "b = doe div 36524"
  have bb: "36524 * b \<le> doe" "doe < 36524 * b + 36524"
    unfolding b_def by (rule div_bounds; simp)+
  then have b: "b \<in> {0, 1, 2, 3}" using assms(1,2) False by auto
  have "doe div 146096 = 0" using assms(1,2) False by simp
  then have y: "yoe = (doe - doe div 1460 + b) div 365" using assms(3) by (simp add: b_def)
  note * = year_of_century[OF b bb y]
  have "0 \<le> yoe" "yoe < 400"
    using b *(1) div_bounds[of 100 yoe] by auto
  with * assms(4) show ?thesis by simp
qed

lemma month_of_year:
  fixes doy :: int
  assumes "0 \<le> doy" and "doy \<le> 365" and "mp = (5 * doy + 2) div 153"
  shows "0 \<le> mp \<and> mp \<le> 11 \<and> 1 \<le> doy - (153 * mp + 2) div 5 + 1 \<and> doy - (153 * mp + 2) div 5 + 1 \<le> 31"
proof -
  define k where "k = (153 * mp + 2) div 5"
  have "153 * mp \<le> 5 * doy + 2" "5 * doy + 2 < 153 * mp + 153"
    unfolding assms(3) by (rule div_bounds; simp)+
  moreover have "5 * k \<le> 153 * mp + 2" "153 * mp + 2 < 5 * k + 5"
    unfolding k_def by (rule div_bounds; simp)+
  ultimately show ?thesis using assms(1,2) unfolding k_def[symmetric] by auto
qed

text \<open>What \<open>civil_from_days\<close> returns, in terms of the eras, for days not before 1970.\<close>

lemma civil_from_days_parts:
  assumes "0 \<le> days"
  obtains era yoe mp doy where "civil_from_days days =
      (if 10 \<le> mp then yoe + era * 400 + 1 else yoe + era * 400,
       if mp < 10 then mp + 3 else mp - 9, doy - (153 * mp + 2) div 5 + 1)"
    "0 \<le> era" "0 \<le> yoe" "yoe < 400" "0 \<le> mp" "mp \<le> 11"
    "1 \<le> doy - (153 * mp + 2) div 5 + 1" "doy - (153 * mp + 2) div 5 + 1 \<le> 31" "0 \<le> doy"
    "days = era * 146097 + (yoe * 365 + yoe div 4 - yoe div 100 + doy) - 719468"
proof -
  define z era doe yoe doy mp where "z = days + 719468" and "era = z div 146097"
    and "doe = z - era * 146097"
    and "yoe = (doe - doe div 1460 + doe div 36524 - doe div 146096) div 365"
    and "doy = doe - (365 * yoe + yoe div 4 - yoe div 100)" and "mp = (5 * doy + 2) div 153"
  have z: "0 \<le> z" using assms by (simp add: z_def)
  have p: "0 < (146097 :: int)" "0 < (1460 :: int)" by simp_all
  have doe: "0 \<le> doe" "doe < 146097"
    unfolding doe_def era_def using div_bounds[OF p(1), of z] by linarith+
  note y = year_of_era[OF doe yoe_def doy_def]
  have m: "0 \<le> mp \<and> mp \<le> 11 \<and> 1 \<le> doy - (153 * mp + 2) div 5 + 1 \<and>
      doy - (153 * mp + 2) div 5 + 1 \<le> 31"
    using y by (intro month_of_year[OF _ _ mp_def]) simp_all
  have num: "0 \<le> doe - doe div 1460 + doe div 36524 - doe div 146096"
  proof -
    have "doe div 146096 \<le> doe div 36524" using doe by (simp add: zdiv_mono2)
    then show ?thesis using div_bounds[OF p(2), of doe] doe by linarith
  qed
  have t: "tdiv (if z \<ge> 0 then z else z - 146096) 146097 = era"
    using z by (simp add: tdiv_nonneg era_def)
  have t1: "tdiv (doe - tdiv doe 1460 + tdiv doe 36524 - tdiv doe 146096) 365 = yoe"
    using doe num by (simp add: tdiv_nonneg yoe_def)
  have t2: "doe - (365 * yoe + tdiv yoe 4 - tdiv yoe 100) = doy"
    using y by (simp add: tdiv_nonneg doy_def)
  have t3: "tdiv (5 * doy + 2) 153 = mp" "tdiv (153 * mp + 2) 5 = (153 * mp + 2) div 5"
    using y m by (simp_all add: tdiv_nonneg mp_def)
  have "civil_from_days days =
      (if 10 \<le> mp then yoe + era * 400 + 1 else yoe + era * 400,
       if mp < 10 then mp + 3 else mp - 9, doy - (153 * mp + 2) div 5 + 1)"
    unfolding civil_from_days_def Let_def z_def[symmetric] t doe_def[symmetric] t1 t2 t3
    using m by auto
  moreover have "0 \<le> era" using z by (simp add: era_def pos_imp_zdiv_nonneg_iff)
  moreover have "days = era * 146097 + (yoe * 365 + yoe div 4 - yoe div 100 + doy) - 719468"
    unfolding doy_def doe_def z_def by simp
  ultimately show thesis using that[of mp yoe era doy] y m by blast
qed


lemma civil_ranges:
  assumes "0 \<le> days" and "civil_from_days days = (year, month, day)"
  shows "1 \<le> month \<and> month \<le> 12 \<and> 1 \<le> day \<and> day \<le> 31 \<and> 0 \<le> year \<and> year \<le> days + 2000"
  using assms(1)
proof (rule civil_from_days_parts)
  fix era yoe mp doy :: int
  assume *: "civil_from_days days =
      (if 10 \<le> mp then yoe + era * 400 + 1 else yoe + era * 400,
       if mp < 10 then mp + 3 else mp - 9, doy - (153 * mp + 2) div 5 + 1)"
    "0 \<le> era" "0 \<le> yoe" "yoe < 400" "0 \<le> mp" "mp \<le> 11"
    "1 \<le> doy - (153 * mp + 2) div 5 + 1" "doy - (153 * mp + 2) div 5 + 1 \<le> 31" "0 \<le> doy"
    "days = era * 146097 + (yoe * 365 + yoe div 4 - yoe div 100 + doy) - 719468"
  have "yoe div 100 \<le> yoe div 4" using *(3) by (simp add: zdiv_mono2)
  then have "yoe + era * 400 + 1 \<le> days + 2000"
    using * assms(1) by (cases "era \<le> 4") (linarith, linarith)
  with assms(2) *(1-8) show ?thesis by (auto split: if_splits)
qed

lemma days_civil_inverse:
  assumes "0 \<le> days" and "days < 2 ^ 62" and "civil_from_days days = (year, month, day)"
  shows "days_from_civil year month day = days"
  using assms(1)
proof (rule civil_from_days_parts)
  fix era yoe mp doy :: int
  assume *: "civil_from_days days =
      (if 10 \<le> mp then yoe + era * 400 + 1 else yoe + era * 400,
       if mp < 10 then mp + 3 else mp - 9, doy - (153 * mp + 2) div 5 + 1)"
    and r: "0 \<le> era" "0 \<le> yoe" "yoe < 400" "0 \<le> mp" "mp \<le> 11"
    "1 \<le> doy - (153 * mp + 2) div 5 + 1" "doy - (153 * mp + 2) div 5 + 1 \<le> 31" "0 \<le> doy"
    and days: "days = era * 146097 + (yoe * 365 + yoe div 4 - yoe div 100 + doy) - 719468"
  from * assms(3) have c: "year = (if 10 \<le> mp then yoe + era * 400 + 1 else yoe + era * 400)"
    "month = (if mp < 10 then mp + 3 else mp - 9)" "day = doy - (153 * mp + 2) div 5 + 1"
    by simp_all
  have bound: "yoe + era * 400 + 1 < 2 ^ 63"
    using civil_ranges[OF assms(1) *] r assms(2) by (simp split: if_splits)
  have y: "(if month \<le> 2 then wrap_i64 (year - 1) else year) = yoe + era * 400"
    using c r bound by (auto simp: wrap_i64_id split: if_splits)
  have mp: "(if month > 2 then month - 3 else month + 9) = mp" using c r by auto
  have era: "tdiv (if yoe + era * 400 \<ge> 0 then yoe + era * 400 else wrap_i64 (yoe + era * 400 - 399)) 400 = era"
    using r by (simp add: tdiv_nonneg)
  have yoe: "wrap_i64 (yoe + era * 400 - era * 400) = yoe" using r by (simp add: wrap_i64_id)
  have doy: "tdiv (153 * mp + 2) 5 + day - 1 = doy" using r c(3) by (simp add: tdiv_nonneg)
  have "days_from_civil year month day =
      wrap_i64 (era * 146097 + (yoe * 365 + tdiv yoe 4 - tdiv yoe 100 + doy) - 719468)"
    by (simp only: days_from_civil_def Let_def y mp era yoe doy)
  also have "\<dots> = wrap_i64 days" using r by (simp add: tdiv_nonneg days)
  also have "\<dots> = days" using assms by (simp add: wrap_i64_id)
  finally show ?thesis .
qed

subsection \<open>The text of a date\<close>

lemma months_length: "length MONTHS = 12" by (simp add: MONTHS_def)
lemma weekdays_length: "length WEEKDAYS = 7" by (simp add: WEEKDAYS_def)

text \<open>The six blank-separated pieces of a printed date.\<close>

lemma http_date_pieces:
  assumes "civil_from_days (int (s div 86400)) = (year, month, day)"
  shows "split_on (CHR '' '') (http_date s) =
    [(WEEKDAYS ! nat ((int (s div 86400) mod 7 + 4) mod 7)) @ '','', pad_zero 2 (show_nat (nat day)),
     MONTHS ! nat (month - 1), pad_zero 4 (show_nat (nat year)),
     join '':'' [pad_zero 2 (show_nat (s mod 86400 div 3600)),
       pad_zero 2 (show_nat (s mod 86400 mod 3600 div 60)), pad_zero 2 (show_nat (s mod 86400 mod 60))],
     ''GMT'']"
  (is "_ = ?pieces")
proof -
  have m: "nat (month - 1) < 12" using civil_ranges[OF _ assms] by auto
  have w: "nat ((int (s div 86400) mod 7 + 4) mod 7) < 7" by simp
  have in_names: "MONTHS ! nat (month - 1) \<in> set (MONTHS @ WEEKDAYS)"
    "WEEKDAYS ! nat ((int (s div 86400) mod 7 + 4) mod 7) \<in> set (MONTHS @ WEEKDAYS)"
    using nth_mem[of "nat (month - 1)" MONTHS] m nth_mem[of _ WEEKDAYS, OF w[folded weekdays_length]]
    unfolding set_append by (simp_all add: months_length)
  have names: "CHR '' '' \<notin> set x" if "x \<in> set (MONTHS @ WEEKDAYS)" for x
    using that by (auto simp: MONTHS_def WEEKDAYS_def)
  have d: "CHR '' '' \<notin> set (pad_zero k (show_nat n))" for k n
    by (rule not_in_pad_zero) (simp add: ascii_class_defs)
  have "http_date s = join '' '' ?pieces"
    by (simp add: http_date_def Let_def assms)
  moreover have "CHR '' '' \<notin> set (MONTHS ! nat (month - 1))"
    by (rule names[OF in_names(1)])
  moreover have "CHR '' '' \<notin> set (WEEKDAYS ! nat ((int (s div 86400) mod 7 + 4) mod 7))"
    by (rule names[OF in_names(2)])
  ultimately show ?thesis
    using split_on_join[of ?pieces "CHR '' ''"] d by simp
qed

lemma month_position:
  assumes "i < 12"
  shows "position (\<lambda>m. m = MONTHS ! i) MONTHS = Some i"
proof -
  have "distinct MONTHS" by (simp add: MONTHS_def)
  moreover have "length MONTHS = 12" by (simp add: MONTHS_def)
  ultimately show ?thesis using assms by (auto simp: position_Some nth_eq_iff_index_eq)
qed

lemma http_date_roundtrip_lemma:
  assumes "s < 2 ^ 64"
  shows "parse_http_date (http_date s) = Some s"
proof -
  obtain year month day where c: "civil_from_days (int (s div 86400)) = (year, month, day)"
    by (metis prod_cases3)
  have ds: "int (s div 86400) < 2 ^ 48" using assms by simp
  have r: "1 \<le> month" "month \<le> 12" "1 \<le> day" "day \<le> 31" "0 \<le> year" "year < 2 ^ 63"
    using civil_ranges[OF _ c] ds by auto
  have time: "split_on (CHR '':'') (join '':'' [pad_zero 2 (show_nat a), pad_zero 2 (show_nat b),
      pad_zero 2 (show_nat e)]) = [pad_zero 2 (show_nat a), pad_zero 2 (show_nat b), pad_zero 2 (show_nat e)]"
    for a b e
    by (rule split_on_join) (auto dest: pad_zero_digits simp: ascii_class_defs)
  have nums: "parse_i64 (pad_zero 2 (show_nat (nat day))) = Some day"
    "parse_i64 (pad_zero 4 (show_nat (nat year))) = Some year"
    using r by (simp_all add: parse_i64_pad)
  have hms: "parse_u64 (pad_zero 2 (show_nat n)) = Some n" if "n < 86400" for n
    using that by (simp add: U64_MAX_def)
  have h: "s mod 86400 div 3600 \<le> 23" "s mod 86400 mod 3600 div 60 \<le> 59" "s mod 86400 mod 60 \<le> 59"
    by simp_all
  have sum: "nat (int (s div 86400)) * 86400 + s mod 86400 div 3600 * 3600 +
      s mod 86400 mod 3600 div 60 * 60 + s mod 86400 mod 60 = s"
  proof -
    have "s mod 86400 mod 60 = s mod 86400 mod 3600 mod 60" by (simp add: mod_mod_cancel)
    then show ?thesis
      using div_mult_mod_eq[of s 86400] div_mult_mod_eq[of "s mod 86400" 3600]
        div_mult_mod_eq[of "s mod 86400 mod 3600" 60] by simp
  qed
  have idx: "int (nat (month - 1)) + 1 = month" "nat (month - 1) < 12" using r by simp_all
  have dd: "days_from_civil year month day = int (s div 86400)"
    using days_civil_inverse[OF _ _ c] ds by simp
  show ?thesis
    unfolding parse_http_date_def http_date_pieces[OF c]
    using r h idx sum assms
    by (simp add: time nums hms month_position dd Let_def del: split_on.simps join.simps)
qed


lemma http_date_graphic:
  assumes "c \<in> set (http_date s)"
  shows "is_graphic c \<or> c = CHR '' ''"
proof -
  obtain year month day where d: "civil_from_days (int (s div 86400)) = (year, month, day)"
    by (metis prod_cases3)
  have "nat (month - 1) < 12" using civil_ranges[OF _ d] by auto
  then have m: "MONTHS ! nat (month - 1) \<in> set MONTHS" by (simp add: months_length)
  have w: "WEEKDAYS ! nat ((int (s div 86400) mod 7 + 4) mod 7) \<in> set WEEKDAYS"
    by (rule nth_mem) (simp add: weekdays_length)
  have names: "is_graphic x" if "y \<in> set MONTHS \<union> set WEEKDAYS" "x \<in> set y" for x y
    using that by (auto simp: MONTHS_def WEEKDAYS_def is_graphic_def)
  have digits: "\<forall>x \<in> set (pad_zero k (show_nat n)). is_graphic x" for k n
    using pad_zero_digits by (fastforce simp: is_graphic_def ascii_class_defs)
  have colon: "is_graphic (CHR '':'')" "is_graphic (CHR '','')" by (simp_all add: is_graphic_def)
  have gmt: "\<forall>x \<in> set ''GMT''. is_graphic x" by (simp add: is_graphic_def)
  let ?ps = "split_on (CHR '' '') (http_date s)"
  have "\<forall>p \<in> set ?ps. \<forall>x \<in> set p. is_graphic x"
    unfolding http_date_pieces[OF d] using names[of _ , OF UnI1[OF m]] names[of _, OF UnI2[OF w]] colon gmt digits
    by (simp add: ball_Un)
  moreover have "c \<in> set (join '' '' ?ps)" using assms by simp
  ultimately show ?thesis using set_join[of "'' ''" ?ps] by fastforce
qed

subsection \<open>Properties\<close>

text \<open>C17: A time survives its text: for every \<open>u64\<close> number of seconds, parsing the printed
  date gives the number back, so a \<open>Last-Modified\<close> date echoed in
  \<open>If-Modified-Since\<close> is read as the time that was sent.\<close>

theorem http_date_roundtrip:
  assumes "s < 2 ^ 64"
  shows "parse_http_date (http_date s) = Some s"
  using assms by (rule http_date_roundtrip_lemma)

lemma http_date_roundtrip_witness: "parse_http_date (http_date 784111777) = Some 784111777"
  by (rule http_date_roundtrip) simp

text \<open>\<open>civil_from_days\<close> yields a month and a day in range, so the name of the month is
  never looked up out of bounds, and \<open>days_from_civil\<close> is its inverse on all days from
  1970 on that the code can meet.\<close>

theorem civil_days_inverse:
  assumes "0 \<le> days" and "days < 2 ^ 62"
  shows "case civil_from_days days of (year, month, day) \<Rightarrow>
    1 \<le> month \<and> month \<le> 12 \<and> 1 \<le> day \<and> day \<le> 31 \<and> days_from_civil year month day = days"
  using civil_ranges[OF assms(1)] days_civil_inverse[OF assms] by (auto split: prod.split)

lemma civil_days_inverse_witness:
  "days_from_civil 2000 2 29 = 11016"
proof -
  have "civil_from_days 11016 = (2000, 2, 29)"
    by code_simp
  moreover have "(0 :: int) \<le> 11016" "(11016 :: int) < 2 ^ 62" by simp_all
  note civil_days_inverse[OF this]
  ultimately show ?thesis by (simp only: prod.case)
qed

end
