(* ===== verification/Conn.thy ===== *)
theory Conn
  imports Request_Safety Response Date
begin

section \<open>The connection state machine\<close>

text \<open>
  \<open>crates/core/src/conn.rs\<close> and \<open>service.rs\<close>. A connection is its unparsed bytes,
  its limits and whether the interim \<open>100 Continue\<close> has been sent for the request in
  flight. \<open>feed\<close> appends bytes, \<open>conn_step\<close> answers at most one request. The
  service (a trait of the source) is a parameter: a function from its own state, the request
  and the context to a response and the next state, since handlers count and log behind a
  shared reference. \<open>None\<close> is a panic of the parser.
\<close>

record request_context =
  ctx_peer :: bytes
  ctx_now :: nat

type_synonym 's service = "'s \<Rightarrow> request \<Rightarrow> request_context \<Rightarrow> response \<times> 's"

datatype step = NeedMore | Write (written: bytes) (closes: bool)

record response_policy =
  pol_security_headers :: bool
  pol_has_clock :: bool

definition default_policy :: response_policy where
  "default_policy = \<lparr>pol_security_headers = False, pol_has_clock = True\<rparr>"

record connection =
  conn_buf :: bytes
  conn_policy :: response_policy
  conn_max_body :: nat
  conn_peer :: bytes
  conn_continue_sent :: bool

definition conn_with_policy :: "response_policy \<Rightarrow> connection" where
  "conn_with_policy policy =
     \<lparr>conn_buf = [], conn_policy = policy, conn_max_body = MAX_BODY_BYTES,
      conn_peer = replicate 16 (CHR 0x00), conn_continue_sent = False\<rparr>"

definition conn_new :: connection where
  "conn_new = conn_with_policy default_policy"

definition set_max_body :: "nat \<Rightarrow> connection \<Rightarrow> connection" where
  "set_max_body max_body c = c\<lparr>conn_max_body := max_body\<rparr>"

definition set_peer :: "bytes \<Rightarrow> connection \<Rightarrow> connection" where
  "set_peer peer c = c\<lparr>conn_peer := peer\<rparr>"

definition set_clock :: "bool \<Rightarrow> connection \<Rightarrow> connection" where
  "set_clock has_clock c = c\<lparr>conn_policy := (conn_policy c)\<lparr>pol_has_clock := has_clock\<rparr>\<rparr>"

definition feed :: "bytes \<Rightarrow> connection \<Rightarrow> connection" where
  "feed data c = c\<lparr>conn_buf := conn_buf c @ data\<rparr>"

definition apply_security_headers :: "response \<Rightarrow> response" where
  "apply_security_headers r =
     with_header (with_header (with_header r
       ''X-Content-Type-Options'' ''nosniff'')
       ''X-Frame-Options'' ''SAMEORIGIN'')
       ''Referrer-Policy'' ''strict-origin-when-cross-origin''"

definition finalize :: "response \<Rightarrow> nat \<Rightarrow> bool \<Rightarrow> response_policy \<Rightarrow> response" where
  "finalize response now keep_alive policy =
     (let connection = (if keep_alive then ''keep-alive'' else ''close'');
          response = with_header response ''Connection'' connection;
          response = (if pol_has_clock policy then with_header response ''Date'' (http_date now)
                      else response)
      in if pol_security_headers policy then apply_security_headers response else response)"

fun error_status :: "parse_error \<Rightarrow> status_code" where
  "error_status UnsupportedVersion = HTTP_VERSION_NOT_SUPPORTED"
| "error_status UnknownMethod = NOT_IMPLEMENTED"
| "error_status UnsupportedTransferEncoding = NOT_IMPLEMENTED"
| "error_status BodyTooLarge = PAYLOAD_TOO_LARGE"
| "error_status TargetTooLong = URI_TOO_LONG"
| "error_status HeadTooLarge = REQUEST_HEADER_FIELDS_TOO_LARGE"
| "error_status TooManyHeaders = REQUEST_HEADER_FIELDS_TOO_LARGE"
| "error_status _ = BAD_REQUEST"

definition expectation_failed :: "nat \<Rightarrow> response_policy \<Rightarrow> response" where
  "expectation_failed now policy =
     finalize (resp_text EXPECTATION_FAILED ''417 Expectation Failed'') now False policy"

definition error_response :: "parse_error \<Rightarrow> nat \<Rightarrow> response_policy \<Rightarrow> response" where
  "error_response err now policy =
     finalize (resp_text (error_status err) (reason (error_status err))) now False policy"

definition conn_step ::
  "'s service \<Rightarrow> nat \<Rightarrow> connection \<Rightarrow> 's \<Rightarrow> (step \<times> connection \<times> 's) option" where
  "conn_step service now c s =
     (let policy = conn_policy c; ctx = \<lparr>ctx_peer = conn_peer c, ctx_now = now\<rparr> in
      case parse_with (conn_buf c) (conn_max_body c) of
        Panic \<Rightarrow> None
      | Ok Partial \<Rightarrow>
          (case expect_action (conn_buf c) of
             ExpectContinue \<Rightarrow>
               if \<not> conn_continue_sent c then
                 Some (Write (serialize (resp_new CONTINUE) False) False,
                       c\<lparr>conn_continue_sent := True\<rparr>, s)
               else Some (NeedMore, c, s)
           | ExpectUnsupported \<Rightarrow>
               Some (Write (serialize (expectation_failed now policy) False) True, c, s)
           | ExpectNone \<Rightarrow> Some (NeedMore, c, s))
      | Ok (Complete request consumed) \<Rightarrow>
          (let c' = c\<lparr>conn_buf := drop consumed (conn_buf c), conn_continue_sent := False\<rparr>;
               keep_alive = req_keep_alive request;
               head_only = is_head (req_method request)
           in case service s request ctx of (r, s') \<Rightarrow>
                Some (Write (serialize (finalize r now keep_alive policy) head_only) (\<not> keep_alive),
                      c', s'))
      | Err err \<Rightarrow>
          Some (Write (serialize (error_response err now policy) False) True, c, s))"

end
