(* ===== verification/Response_Laws.thy ===== *)
theory Response_Laws
  imports Response Request_Render
begin

section \<open>Properties of serialized responses\<close>

text \<open>
  A serialized response is a block of CRLF-terminated lines, a blank line and the body:
  the status line, one line per header field that may be emitted, and the
  \<open>Content-Length\<close> line. No header name or value, whatever a handler put into it,
  adds a line or ends the head early.
\<close>

definition status_line :: "response \<Rightarrow> bytes" where
  "status_line r = ''HTTP/1.1 '' @ show_nat (resp_status r) @ '' '' @ reason (resp_status r)"

definition emitted :: "(bytes \<times> bytes) \<Rightarrow> bool" where
  "emitted nv \<longleftrightarrow> \<not> eq_ignore_ascii_case (fst nv) ''content-length'' \<and>
     \<not> has_forbidden_byte (fst nv) \<and> \<not> has_forbidden_byte (snd nv)"

definition field_line :: "(bytes \<times> bytes) \<Rightarrow> bytes" where
  "field_line nv = fst nv @ '': '' @ snd nv"

definition length_lines :: "response \<Rightarrow> bytes list" where
  "length_lines r =
     (if is_empty_body (resp_status r) then []
      else [''Content-Length: '' @ show_nat (length (resp_body r))])"

definition response_lines :: "response \<Rightarrow> bytes list" where
  "response_lines r =
     status_line r # map field_line (filter emitted (resp_headers r)) @ length_lines r"

definition wire_body :: "response \<Rightarrow> bool \<Rightarrow> bytes" where
  "wire_body r head_only =
     (if head_only \<or> is_empty_body (resp_status r) then [] else resp_body r)"

lemma push_headers:
  "foldl push_header out hs = out @ unlines (map field_line (filter emitted hs))"
  by (induction hs arbitrary: out)
    (auto simp: push_header_def emitted_def field_line_def split: prod.splits)

lemma serialize_lines:
  "serialize r head_only = unlines (response_lines r) @ crlf @ wire_body r head_only"
  by (auto simp: serialize_def Let_def push_headers response_lines_def length_lines_def
      status_line_def wire_body_def)

lemma cr_not_show_nat: "CR \<notin> set (show_nat n)"
  by (rule not_in_show_nat) (simp add: ascii_class_defs)

lemma response_lines_ok: "\<forall>l \<in> set (response_lines r). l \<noteq> [] \<and> CR \<notin> set l"
proof -
  have "CR \<notin> set (reason (resp_status r))"
    using reason_text by (fastforce simp: is_text_byte_def)
  moreover have "CR \<notin> set (field_line nv)" if "emitted nv" for nv
    using that by (auto simp: emitted_def field_line_def has_forbidden_byte_def list_ex_iff)
  ultimately show ?thesis
    using cr_not_show_nat
    by (auto simp: response_lines_def status_line_def length_lines_def field_line_def)
qed

text \<open>How a client reads a response: the lines up to the blank line, then the rest.\<close>

definition read_response :: "bytes \<Rightarrow> (bytes list \<times> bytes) option" where
  "read_response wire =
     (case find_subslice wire (crlf @ crlf) of
        None \<Rightarrow> None
      | Some i \<Rightarrow> Some (split_crlf (take i wire), drop (i + 4) wire))"

lemma read_serialize:
  "read_response (serialize r head_only @ rest) =
     Some (response_lines r, wire_body r head_only @ rest)"
proof -
  have n: "response_lines r \<noteq> []" by (simp add: response_lines_def)
  have c: "\<forall>l \<in> set (response_lines r). CR \<notin> set l" using response_lines_ok by blast
  let ?u = "unlines (response_lines r)"
  have f: "find_subslice (?u @ CR # LF # wire_body r head_only @ rest) (crlf @ crlf) =
      Some (length ?u - 2)"
    using find_head_end[OF n response_lines_ok] by simp
  have ge: "2 \<le> length ?u" by (simp add: response_lines_def)
  show ?thesis
    using f split_crlf_block[OF n c] ge by (simp add: serialize_lines read_response_def)
qed

end
