(* ===== verification/Conn_Laws.thy ===== *)
theory Conn_Laws
  imports Conn Response_Laws Request_Theorems
begin

section \<open>Properties of the connection\<close>

text \<open>
  How one step of a connection behaves on each answer of the parser, the measure that makes
  the loop over buffered requests end, the loop itself (written the same way in
  \<open>transport_mio.rs\<close> and in \<open>pump_connection\<close> of the embedded crate), and the
  runs of a connection as a transition relation, which says how often the interim
  \<open>100 Continue\<close> can be sent.
\<close>

subsection \<open>One step\<close>

definition answer_bytes :: "response \<Rightarrow> nat \<Rightarrow> response_policy \<Rightarrow> request \<Rightarrow> bytes" where
  "answer_bytes r now policy request =
     serialize (finalize r now (req_keep_alive request) policy) (is_head (req_method request))"

definition after_request :: "nat \<Rightarrow> connection \<Rightarrow> connection" where
  "after_request n c = c\<lparr>conn_buf := drop n (conn_buf c), conn_continue_sent := False\<rparr>"

definition conn_context :: "connection \<Rightarrow> nat \<Rightarrow> request_context" where
  "conn_context c now = \<lparr>ctx_peer = conn_peer c, ctx_now = now\<rparr>"

definition interim_bytes :: bytes where
  "interim_bytes = serialize (resp_new CONTINUE) False"

lemma conn_step_complete:
  assumes "parse_with (conn_buf c) (conn_max_body c) = Ok (Complete request n)"
    and "service s request (conn_context c now) = (r, s')"
  shows "conn_step service now c s =
    Some (Write (answer_bytes r now (conn_policy c) request) (\<not> req_keep_alive request),
          after_request n c, s')"
  using assms by (simp add: conn_step_def Let_def answer_bytes_def after_request_def conn_context_def)

lemma conn_step_error:
  assumes "parse_with (conn_buf c) (conn_max_body c) = Err e"
  shows "conn_step service now c s =
    Some (Write (serialize (error_response e now (conn_policy c)) False) True, c, s)"
  using assms by (simp add: conn_step_def Let_def)

lemma conn_step_partial:
  assumes "parse_with (conn_buf c) (conn_max_body c) = Ok Partial"
  shows "conn_step service now c s =
    (case expect_action (conn_buf c) of
       ExpectNone \<Rightarrow> Some (NeedMore, c, s)
     | ExpectContinue \<Rightarrow>
         if conn_continue_sent c then Some (NeedMore, c, s)
         else Some (Write interim_bytes False, c\<lparr>conn_continue_sent := True\<rparr>, s)
     | ExpectUnsupported \<Rightarrow>
         Some (Write (serialize (expectation_failed now (conn_policy c)) False) True, c, s))"
  using assms by (simp add: conn_step_def Let_def interim_bytes_def split: expect_action.split)

text \<open>The ways a step can go on: it waits, or it writes and stays open, or it writes and closes.\<close>

lemma conn_step_openE:
  assumes "conn_step service now c s = Some (Write b False, c', s')"
  obtains (answered) request n r where
      "parse_with (conn_buf c) (conn_max_body c) = Ok (Complete request n)"
      "service s request (conn_context c now) = (r, s')" "req_keep_alive request"
      "b = answer_bytes r now (conn_policy c) request" "c' = after_request n c"
  | (interim) "parse_with (conn_buf c) (conn_max_body c) = Ok Partial"
      "expect_action (conn_buf c) = ExpectContinue" "\<not> conn_continue_sent c"
      "b = interim_bytes" "c' = c\<lparr>conn_continue_sent := True\<rparr>" "s' = s"
proof (cases "parse_with (conn_buf c) (conn_max_body c)")
  case (Ok p)
  show thesis
  proof (cases p)
    case Partial
    with Ok assms interim show thesis
      by (auto simp: conn_step_partial split: expect_action.splits if_splits)
  next
    case (Complete request n)
    obtain r s2 where sv: "service s request (conn_context c now) = (r, s2)"
      by (cases "service s request (conn_context c now)")
    with Ok Complete assms answered[of request n r] show thesis
      by (auto simp: conn_step_complete)
  qed
next
  case (Err e)
  with assms show thesis by (simp add: conn_step_error)
next
  case Panic
  with assms show thesis by (simp add: conn_step_def Let_def)
qed

lemma conn_step_needmore:
  assumes "conn_step service now c s = Some (NeedMore, c', s')"
  shows "parse_with (conn_buf c) (conn_max_body c) = Ok Partial \<and> c' = c \<and> s' = s"
proof (cases "parse_with (conn_buf c) (conn_max_body c)")
  case (Ok p)
  show ?thesis
  proof (cases p)
    case Partial
    with Ok assms show ?thesis
      by (auto simp: conn_step_partial split: expect_action.splits if_splits)
  next
    case (Complete request n)
    obtain r s2 where sv: "service s request (conn_context c now) = (r, s2)"
      by (cases "service s request (conn_context c now)")
    with Ok Complete assms show ?thesis by (auto simp: conn_step_complete)
  qed
next
  case (Err e)
  with assms show ?thesis by (simp add: conn_step_error)
next
  case Panic
  with assms show ?thesis by (simp add: conn_step_def Let_def)
qed

subsection \<open>The loop over buffered requests\<close>

text \<open>Every step that writes and stays open takes a byte, or sends the one interim response.\<close>

definition conn_weight :: "connection \<Rightarrow> nat" where
  "conn_weight c = 2 * length (conn_buf c) + (if conn_continue_sent c then 0 else 1)"

lemma conn_step_weight:
  assumes "conn_step service now c s = Some (Write b False, c', s')"
  shows "conn_weight c' < conn_weight c"
  using assms
proof (cases rule: conn_step_openE)
  case (answered request n r)
  with parse_with_bounds[OF answered(1)] show ?thesis
    by (auto simp: conn_weight_def after_request_def)
next
  case interim
  then show ?thesis by (simp add: conn_weight_def)
qed

function drive ::
  "'s service \<Rightarrow> nat \<Rightarrow> connection \<Rightarrow> 's \<Rightarrow> bytes \<Rightarrow> (bytes \<times> bool \<times> connection \<times> 's) option" where
  "drive service now c s out =
     (case conn_step service now c s of
        None \<Rightarrow> None
      | Some (NeedMore, c', s') \<Rightarrow> Some (out, False, c', s')
      | Some (Write b close, c', s') \<Rightarrow>
          if close then Some (out @ b, True, c', s')
          else drive service now c' s' (out @ b))"
  by pat_completeness auto
termination
  by (relation "measure (\<lambda>(service, now, c, s, out). conn_weight c)") (auto intro: conn_step_weight)

declare drive.simps [simp del]

lemma drive_needmore:
  "conn_step service now c s = Some (NeedMore, c', s') \<Longrightarrow>
     drive service now c s out = Some (out, False, c', s')"
  by (simp add: drive.simps)

lemma drive_close:
  "conn_step service now c s = Some (Write b True, c', s') \<Longrightarrow>
     drive service now c s out = Some (out @ b, True, c', s')"
  by (simp add: drive.simps)

lemma drive_open:
  "conn_step service now c s = Some (Write b False, c', s') \<Longrightarrow>
     drive service now c s out = drive service now c' s' (out @ b)"
  by (simp add: drive.simps[of service now c])

text \<open>
  What the loop should do with the complete requests in the buffer: hand them to the service
  in order, and stop behind the first that ends the connection.
\<close>

fun serve_requests ::
  "'s service \<Rightarrow> request_context \<Rightarrow> response_policy \<Rightarrow> request list \<Rightarrow> 's \<Rightarrow> bytes \<times> bool \<times> 's" where
  "serve_requests service ctx policy [] s = ([], False, s)"
| "serve_requests service ctx policy (request # rs) s =
     (case service s request ctx of (r, s') \<Rightarrow>
        let b = answer_bytes r (ctx_now ctx) policy request in
        if req_keep_alive request then
          (case serve_requests service ctx policy rs s' of (bs, closed, s'') \<Rightarrow> (b @ bs, closed, s''))
        else (b, True, s'))"

lemma drive_serves:
  assumes "frames (next_request (conn_max_body c)) (conn_buf c) = (rs, rest)"
    and "parse_with rest (conn_max_body c) = Ok Partial" and "expect_action rest = ExpectNone"
    and "serve_requests service (conn_context c now) (conn_policy c) rs s = (bs, closed, s')"
  shows "\<exists>c'. drive service now c s out = Some (out @ bs, closed, c', s') \<and>
    (\<not> closed \<longrightarrow> conn_buf c' = rest)"
  using assms
proof (induction rs arbitrary: c s out bs)
  case Nil
  have n: "next_request (conn_max_body c) (conn_buf c) = None"
  proof (cases "next_request (conn_max_body c) (conn_buf c)")
    case (Some p)
    obtain r n where "p = (r, n)" by (cases p)
    with Some Nil.prems(1) rq.frames_Some[of "conn_max_body c" "conn_buf c" r n] show ?thesis
      by (simp split: prod.splits)
  qed
  with Nil.prems(1) have "conn_buf c = rest" using rq.frames_None[OF n] by simp
  with Nil.prems show ?case
    by (auto simp: conn_step_partial intro!: drive_needmore)
next
  case (Cons r rs)
  obtain q n where q: "next_request (conn_max_body c) (conn_buf c) = Some (q, n)"
    using Cons.prems(1) rq.frames_None[of "conn_max_body c" "conn_buf c"]
    by (cases "next_request (conn_max_body c) (conn_buf c)") auto
  then have p: "parse_with (conn_buf c) (conn_max_body c) = Ok (Complete q n)"
    by (simp add: next_request_Some)
  have fr: "r = q" "frames (next_request (conn_max_body c)) (drop n (conn_buf c)) = (rs, rest)"
    using Cons.prems(1) rq.frames_Some[OF q] by (auto split: prod.splits)
  obtain resp s1 where sv: "service s q (conn_context c now) = (resp, s1)"
    by (cases "service s q (conn_context c now)")
  note st = conn_step_complete[of c q n service s now, OF p sv]
  show ?case
  proof (cases "req_keep_alive q")
    case False
    with Cons.prems(4) sv st show ?thesis
      by (auto simp: fr(1) Let_def conn_context_def intro!: drive_close)
  next
    case True
    define c1 where "c1 = after_request n c"
    have c1: "conn_max_body c1 = conn_max_body c" "conn_policy c1 = conn_policy c"
      "conn_context c1 now = conn_context c now" "conn_buf c1 = drop n (conn_buf c)"
      by (simp_all add: c1_def after_request_def conn_context_def)
    obtain bs1 where bs: "bs = answer_bytes resp now (conn_policy c) q @ bs1"
      "serve_requests service (conn_context c now) (conn_policy c) rs s1 = (bs1, closed, s')"
      using Cons.prems(4) sv True
      by (auto simp: fr(1) Let_def conn_context_def split: prod.splits)
    from st True have "drive service now c s out =
        drive service now c1 s1 (out @ answer_bytes resp now (conn_policy c) q)"
      by (intro drive_open) (simp add: c1_def)
    with Cons.IH[of c1 s1 bs1 "out @ answer_bytes resp now (conn_policy c) q"] fr(2) bs Cons.prems(2,3) c1
    show ?thesis by simp
  qed
qed


subsection \<open>Runs of a connection\<close>

text \<open>What happens to a connection: bytes arrive, or a step is taken with one of its outcomes.\<close>

datatype conn_event = Fed bytes | Waited | Interim | Answered request | Closed

definition step_event :: "connection \<Rightarrow> step \<Rightarrow> conn_event" where
  "step_event c st =
     (case parse_with (conn_buf c) (conn_max_body c) of
        Ok (Complete request n) \<Rightarrow> Answered request
      | _ \<Rightarrow> (case st of NeedMore \<Rightarrow> Waited | Write b close \<Rightarrow> if close then Closed else Interim))"

inductive conn_trans ::
  "'s service \<Rightarrow> connection \<times> 's \<Rightarrow> conn_event \<Rightarrow> connection \<times> 's \<Rightarrow> bool" for service where
  fed: "conn_trans service (c, s) (Fed data) (feed data c, s)"
| stepped: "conn_step service now c s = Some (st, c', s') \<Longrightarrow>
    conn_trans service (c, s) (step_event c st) (c', s')"

inductive conn_run ::
  "'s service \<Rightarrow> connection \<times> 's \<Rightarrow> conn_event list \<Rightarrow> connection \<times> 's \<Rightarrow> bool" for service where
  stop: "conn_run service x [] x"
| more: "conn_trans service x e y \<Longrightarrow> conn_run service y es z \<Longrightarrow> conn_run service x (e # es) z"

inductive_simps conn_run_simps: "conn_run service x [] z" "conn_run service x (e # es) z"
inductive_cases conn_transE: "conn_trans service (c, s) e (c', s')"

lemma step_event_interim:
  assumes "conn_step service now c s = Some (st, c', s')" and "step_event c st = Interim"
  shows "\<not> conn_continue_sent c \<and> conn_continue_sent c' \<and> s' = s"
proof -
  from assms(2) obtain b where st: "st = Write b False"
    by (auto simp: step_event_def split: outcome.splits parsed.splits step.splits if_splits)
  from assms(1)[unfolded st] assms(2) show ?thesis
    by (cases rule: conn_step_openE) (auto simp: step_event_def)
qed

text \<open>Only an answered request clears the flag; only an answered request reaches the service.\<close>

lemma step_event_keeps:
  assumes "conn_step service now c s = Some (st, c', s')" and "\<forall>r. step_event c st \<noteq> Answered r"
  shows "s' = s" and "conn_continue_sent c \<Longrightarrow> conn_continue_sent c'"
proof -
  have np: "parse_with (conn_buf c) (conn_max_body c) \<noteq> Ok (Complete r n)" for r n
    using assms(2) by (auto simp: step_event_def)
  have "s' = s \<and> (conn_continue_sent c \<longrightarrow> conn_continue_sent c')"
  proof (cases "parse_with (conn_buf c) (conn_max_body c)")
    case (Ok p)
    with np have "p = Partial" by (cases p) auto
    with Ok assms(1) show ?thesis
      by (auto simp: conn_step_partial split: expect_action.splits if_splits)
  next
    case (Err e)
    with assms(1) show ?thesis by (simp add: conn_step_error)
  next
    case Panic
    with assms(1) show ?thesis by (simp add: conn_step_def Let_def)
  qed
  then show "s' = s" and "conn_continue_sent c \<Longrightarrow> conn_continue_sent c'" by auto
qed

lemma conn_trans_keeps:
  assumes "conn_trans service x e y" and "\<forall>r. e \<noteq> Answered r"
  shows "snd y = snd x" and "conn_continue_sent (fst x) \<Longrightarrow> conn_continue_sent (fst y)"
  using assms by (auto elim!: conn_trans.cases simp: feed_def dest: step_event_keeps)

lemma conn_run_append:
  "conn_run service x (es @ fs) z \<longleftrightarrow> (\<exists>y. conn_run service x es y \<and> conn_run service y fs z)"
  by (induction es arbitrary: x) (auto simp: conn_run_simps)

lemma conn_run_keeps:
  "conn_run service x es y \<Longrightarrow> \<forall>r. Answered r \<notin> set es \<Longrightarrow>
     snd y = snd x \<and> (conn_continue_sent (fst x) \<longrightarrow> conn_continue_sent (fst y))"
proof (induction rule: conn_run.induct)
  case (more x e y es z)
  then show ?case using conn_trans_keeps[OF more.hyps(1)] by auto
qed simp

lemma interim_once:
  assumes "conn_run service x (Interim # mid @ [Interim]) z"
  shows "\<exists>r. Answered r \<in> set mid"
proof (rule ccontr)
  assume no: "\<not> ?thesis"
  from assms obtain y u where y: "conn_trans service x Interim y" "conn_run service y mid u"
    "conn_trans service u Interim z"
    by (auto simp: conn_run_simps conn_run_append)
  from y(1) have "conn_continue_sent (fst y)"
    by (cases rule: conn_trans.cases) (auto dest: step_event_interim)
  with conn_run_keeps[OF y(2)] no have "conn_continue_sent (fst u)" by blast
  moreover from y(3) have "\<not> conn_continue_sent (fst u)"
    by (cases rule: conn_trans.cases) (auto dest: step_event_interim)
  ultimately show False by simp
qed

text \<open>The two transitions of an exchange with \<open>Expect: 100-continue\<close>.\<close>

lemma conn_trans_interim:
  assumes "parse_with (conn_buf c) (conn_max_body c) = Ok Partial"
    and "expect_action (conn_buf c) = ExpectContinue" and "\<not> conn_continue_sent c"
  shows "conn_trans service (c, s) Interim (c\<lparr>conn_continue_sent := True\<rparr>, s)"
proof -
  have "conn_step service 0 c s = Some (Write interim_bytes False, c\<lparr>conn_continue_sent := True\<rparr>, s)"
    using assms by (simp add: conn_step_partial)
  from conn_trans.stepped[OF this] show ?thesis using assms by (simp add: step_event_def)
qed

lemma conn_trans_answered:
  assumes "parse_with (conn_buf c) (conn_max_body c) = Ok (Complete request n)"
  shows "conn_trans service (c, s) (Answered request)
    (after_request n c, snd (service s request (conn_context c 0)))"
proof -
  obtain r s' where sv: "service s request (conn_context c 0) = (r, s')"
    by (cases "service s request (conn_context c 0)")
  from conn_trans.stepped[OF conn_step_complete[of c request n service s 0, OF assms sv]] assms sv
  show ?thesis by (simp add: step_event_def)
qed

subsection \<open>What is written\<close>

lemma emitted_literals:
  "emitted (''Connection'', ''close'')" "emitted (''Connection'', ''keep-alive'')"
  by (simp_all add: emitted_def exec_simps)

lemma finalize_headers:
  "\<exists>hs. resp_headers (finalize r now ka policy) =
     resp_headers r @ (''Connection'', if ka then ''keep-alive'' else ''close'') # hs"
  by (simp add: finalize_def apply_security_headers_def Let_def)

lemma finalize_status [simp]: "resp_status (finalize r now ka policy) = resp_status r"
  by (simp add: finalize_def apply_security_headers_def Let_def)

lemma finalize_body [simp]: "resp_body (finalize r now ka policy) = resp_body r"
  by (simp add: finalize_def apply_security_headers_def Let_def)

lemma finalize_connection_line:
  "(if ka then ''Connection: keep-alive'' else ''Connection: close'') \<in>
     set (response_lines (finalize r now ka policy))"
proof -
  obtain hs where hs: "resp_headers (finalize r now ka policy) =
     resp_headers r @ (''Connection'', if ka then ''keep-alive'' else ''close'') # hs"
    using finalize_headers by blast
  have "field_line (''Connection'', if ka then ''keep-alive'' else ''close'') =
      (if ka then ''Connection: keep-alive'' else ''Connection: close'')"
    by (simp add: field_line_def)
  with hs emitted_literals show ?thesis
    by (cases ka) (auto simp: response_lines_def image_iff)
qed

lemma error_status_range:
  "error_status e \<in> {400, 413, 414, 431, 501, 505}"
  by (cases e) simp_all


text \<open>The name of a field line, as a client reads it.\<close>

definition line_name :: "bytes \<Rightarrow> bytes" where
  "line_name l = (case split_once (CHR '':'') l of Some (name, _) \<Rightarrow> name | None \<Rightarrow> l)"

lemma line_name_token: "list_all is_token_byte n \<Longrightarrow> line_name (n @ '': '' @ v) = n"
proof -
  assume "list_all is_token_byte n"
  then have "CHR '':'' \<notin> set n" by (auto simp: list_all_iff dest: token_byte_no)
  then show ?thesis by (simp add: line_name_def split_once_hit)
qed

lemma conn_step_write:
  assumes "conn_step service now c s = Some (Write b close, c', s')"
  shows "b = interim_bytes \<and> \<not> close \<or>
    (\<exists>r head_only. b = serialize (finalize r now (\<not> close) (conn_policy c)) head_only)"
proof (cases "parse_with (conn_buf c) (conn_max_body c)")
  case (Ok p)
  show ?thesis
  proof (cases p)
    case Partial
    with Ok assms show ?thesis
      by (auto simp: conn_step_partial expectation_failed_def split: expect_action.splits if_splits)
  next
    case (Complete request n)
    obtain r s2 where sv: "service s request (conn_context c now) = (r, s2)"
      by (cases "service s request (conn_context c now)")
    with Ok Complete assms
    have "b = serialize (finalize r now (\<not> close) (conn_policy c)) (is_head (req_method request))"
      by (auto simp: conn_step_complete answer_bytes_def)
    then show ?thesis by blast
  qed
next
  case (Err e)
  with assms show ?thesis by (auto simp: conn_step_error error_response_def)
next
  case Panic
  with assms show ?thesis by (simp add: conn_step_def Let_def)
qed

end
