(* ===== verification/Conn_Theorems.thy ===== *)
theory Conn_Theorems
  imports Conn_Laws
begin

section \<open>The properties of responses and connections\<close>

text \<open>
  The properties of \<open>response.rs\<close> and \<open>conn.rs\<close>: what a client reads off the
  wire, in which order requests are answered, and how a connection ends.
\<close>

subsection \<open>Responses\<close>

text \<open>C13: No header can split a response. Whatever names and values a handler adds, a client
  that reads up to the first blank line finds exactly the status line, the fields that hold
  no CR, LF or NUL, in order, and one derived \<open>Content-Length\<close> line, and then exactly
  the body.\<close>

theorem response_head_exact:
  "read_response (serialize r head_only @ rest) =
     Some (response_lines r, wire_body r head_only @ rest)"
  by (rule read_serialize)

text \<open>The length a response announces is the length of its body: when the header names
  are tokens, exactly one field line is named \<open>Content-Length\<close> (the name of a line is what
  precedes its first colon), and its value is the number of bytes of the body, whether the
  body is sent or, for HEAD, left out.\<close>

theorem content_length_derived:
  assumes "\<not> is_empty_body (resp_status r)"
    and "list_all (\<lambda>(name, value). list_all is_token_byte name) (resp_headers r)"
  shows "filter (\<lambda>l. eq_ignore_ascii_case (line_name l) ''content-length'') (tl (response_lines r)) =
    [''Content-Length: '' @ show_nat (length (resp_body r))]"
proof -
  have no: "\<not> eq_ignore_ascii_case (line_name (field_line nv)) ''content-length''"
    if "nv \<in> set (resp_headers r)" "emitted nv" for nv
    using that assms(2) line_name_token[of "fst nv" "snd nv"]
    by (auto simp: list_all_iff emitted_def field_line_def)
  define cl where "cl = ''Content-Length: '' @ show_nat (length (resp_body r))"
  have "line_name cl = ''Content-Length''"
    using line_name_token[of "''Content-Length''" "show_nat (length (resp_body r))"]
    by (simp add: cl_def is_token_byte_def ascii_class_defs)
  then have n: "eq_ignore_ascii_case (line_name cl) ''content-length''"
    by (simp add: exec_simps)
  have f: "filter (\<lambda>l. eq_ignore_ascii_case (line_name l) ''content-length'')
      (map field_line (filter emitted (resp_headers r))) = []"
    using no by (auto simp: filter_empty_conv)
  have "tl (response_lines r) = map field_line (filter emitted (resp_headers r)) @ [cl]"
    using assms(1) by (simp add: response_lines_def length_lines_def cl_def)
  then show ?thesis unfolding cl_def[symmetric] by (simp add: f n)
qed

lemma content_length_derived_witness:
  "filter (\<lambda>l. eq_ignore_ascii_case (line_name l) ''content-length'')
     (tl (response_lines (with_header (resp_text 200 ''hi'') ''content-LENGTH'' ''999''))) =
   [''Content-Length: '' @ show_nat 2]"
  using content_length_derived[of "with_header (resp_text 200 ''hi'') ''content-LENGTH'' ''999''"]
  by (simp add: is_empty_body_def resp_text_def is_token_byte_def ascii_class_defs numeral_2_eq_2)

subsection \<open>Connections\<close>

text \<open>Pipelined requests are answered in order. When the buffer of a connection holds
  well-formed requests back to back, the loop over \<open>step\<close> hands exactly these requests to
  the service, one after the other and none after a request that ends the connection, appends
  the responses in the same order, and leaves nothing in the buffer if the connection stays
  open.\<close>

theorem pipelined_requests_answered_in_order:
  assumes "\<forall>r \<in> set rs. renderable r \<and>
      body_framing (req_headers r) = Inr (Fixed (length (req_body r))) \<and>
      length (req_body r) \<le> conn_max_body c \<and> length (render_request r) < 2 ^ 64"
    and "conn_buf c = concat (map render_request rs)"
    and "serve_requests service (conn_context c now) (conn_policy c) rs s = (bs, closed, s')"
  shows "\<exists>c'. drive service now c s out = Some (out @ bs, closed, c', s') \<and>
    (\<not> closed \<longrightarrow> conn_buf c' = [])"
proof (rule drive_serves[OF _ _ _ assms(3)])
  show "frames (next_request (conn_max_body c)) (conn_buf c) = (rs, [])"
    using rq.frames_concat[of "map (\<lambda>r. (r, render_request r)) rs" "conn_max_body c"] assms(1,2)
      parse_render_fixed[of _ "conn_max_body c" "[]"]
    by (force simp: next_request_Some comp_def)
  show "parse_with [] (conn_max_body c) = Ok Partial"
    by (simp add: parse_with_def find_subslice_def)
  show "expect_action [] = ExpectNone"
    by (simp add: expect_action_def find_subslice_def)
qed

lemma pipelined_requests_answered_in_order_witness:
  "\<exists>c'. drive (\<lambda>s r ctx. (resp_text 200 (req_target r), Suc s)) 0
        (feed (render_request sample_post @ render_request sample_post) conn_new) 0 [] =
      Some (answer_bytes (resp_text 200 ''/a?b'') 0 default_policy sample_post @
            answer_bytes (resp_text 200 ''/a?b'') 0 default_policy sample_post, False, c', 2) \<and>
     conn_buf c' = []"
proof -
  have ka: "req_keep_alive sample_post" by (simp add: sample_post_def exec_simps)
  have t: "req_target sample_post = ''/a?b''" by (simp add: sample_post_def)
  let ?c = "feed (render_request sample_post @ render_request sample_post) conn_new"
  have "\<forall>r \<in> set [sample_post, sample_post]. renderable r \<and>
      body_framing (req_headers r) = Inr (Fixed (length (req_body r))) \<and>
      length (req_body r) \<le> conn_max_body ?c \<and> length (render_request r) < 2 ^ 64"
    using renderable_sample_post
    by (simp add: feed_def conn_new_def conn_with_policy_def MAX_BODY_BYTES_def sample_eval)
  from pipelined_requests_answered_in_order[OF this,
      of "\<lambda>s r ctx. (resp_text 200 (req_target r), Suc s)" 0 0 _ False _ "[]"] ka t
  show ?thesis
    by (simp add: feed_def conn_new_def conn_with_policy_def conn_context_def default_policy_def
        Let_def numeral_2_eq_2)
qed

text \<open>C14: A connection sends at most one interim \<open>100 Continue\<close> per request: in every run,
  whatever arrives between the steps, a request is answered between two interim responses.\<close>

theorem interim_at_most_once:
  assumes "conn_run service x (before @ Interim # mid @ Interim # after) z"
  shows "\<exists>r. Answered r \<in> set mid"
proof -
  have "conn_run service x (before @ (Interim # mid @ [Interim]) @ after) z" using assms by simp
  then obtain u v where "conn_run service u (Interim # mid @ [Interim]) v"
    unfolding conn_run_append by blast
  then show ?thesis by (rule interim_once)
qed

definition sample_expect :: bytes where
  "sample_expect = ''POST / HTTP/1.1'' @ crlf @ ''Host: h'' @ crlf @ ''Content-Length: 2'' @ crlf @
     ''Expect: 100-continue'' @ crlf @ crlf"

definition sample_expect_request :: request where
  "sample_expect_request = \<lparr>req_method = Post, req_target = ''/'', req_version = Http11,
     req_headers = [\<lparr>hdr_name = ''Host'', hdr_value = ''h''\<rparr>,
                    \<lparr>hdr_name = ''Content-Length'', hdr_value = ''2''\<rparr>,
                    \<lparr>hdr_name = ''Expect'', hdr_value = ''100-continue''\<rparr>],
     req_body = ''hi''\<rparr>"

lemma sample_expect_parsed:
  "parse_with sample_expect MAX_BODY_BYTES = Ok Partial"
  "expect_action sample_expect = ExpectContinue"
  "parse_with (sample_expect @ ''hi'') MAX_BODY_BYTES =
     Ok (Complete sample_expect_request (length (sample_expect @ ''hi'')))"
  by (simp_all add: sample_expect_def sample_expect_request_def exec_simps)

lemma interim_at_most_once_witness:
  "\<exists>r. Answered r \<in> set [Fed ''hi'', Answered sample_expect_request, Fed sample_expect]"
proof -
  let ?sv = "\<lambda>s r ctx. (resp_new 200, s) :: response \<times> unit"
  define c where "c = conn_new\<lparr>conn_buf := sample_expect\<rparr>"
  define c1 where "c1 = c\<lparr>conn_continue_sent := True\<rparr>"
  define c2 where "c2 = feed ''hi'' c1"
  define c3 where "c3 = after_request (length (sample_expect @ ''hi'')) c2"
  have mb: "conn_max_body c = MAX_BODY_BYTES" "conn_max_body c2 = MAX_BODY_BYTES"
    "conn_buf c = sample_expect" "conn_buf c2 = sample_expect @ ''hi''" "\<not> conn_continue_sent c"
    by (simp_all add: c_def c1_def c2_def feed_def conn_new_def conn_with_policy_def)
  have again: "feed sample_expect c3 = c"
    by (simp add: c3_def c2_def c1_def c_def after_request_def feed_def conn_new_def conn_with_policy_def)
  have t: "conn_trans ?sv (c, ()) Interim (c1, ())"
    unfolding c1_def by (rule conn_trans_interim) (simp_all add: mb sample_expect_parsed)
  have t2: "conn_trans ?sv (c2, ()) (Answered sample_expect_request) (c3, ())"
    using conn_trans_answered[of c2 sample_expect_request "length (sample_expect @ ''hi'')" ?sv "()"]
    by (simp add: c3_def mb sample_expect_parsed)
  have t1: "conn_trans ?sv (c1, ()) (Fed ''hi'') (c2, ())"
    unfolding c2_def by (rule conn_trans.fed)
  have t3: "conn_trans ?sv (c3, ()) (Fed sample_expect) (c, ())"
    using conn_trans.fed[of ?sv c3 "()" sample_expect] by (simp only: again)
  note m = conn_run.more
  have "conn_run ?sv (c, ()) ([] @ Interim #
      [Fed ''hi'', Answered sample_expect_request, Fed sample_expect] @ Interim # []) (c1, ())"
    using m[OF t m[OF t1 m[OF t2 m[OF t3 m[OF t conn_run.stop]]]]] by simp
  then show ?thesis by (rule interim_at_most_once)
qed

text \<open>C15: A parse error is reported and ends the connection: one response with a status of
  400, 413, 414, 431, 501 or 505 and \<open>Connection: close\<close>, the service is not called, and
  the loop stops.\<close>

theorem parse_error_closes:
  assumes "parse_with (conn_buf c) (conn_max_body c) = Err e"
  shows "\<exists>r. drive service now c s out = Some (out @ serialize r False, True, c, s) \<and>
    resp_status r \<in> {400, 413, 414, 431, 501, 505} \<and>
    ''Connection: close'' \<in> set (response_lines r)"
proof -
  have "drive service now c s out = Some (out @ serialize (error_response e now (conn_policy c)) False, True, c, s)"
    by (rule drive_close[OF conn_step_error[OF assms]])
  moreover have "resp_status (error_response e now (conn_policy c)) \<in> {400, 413, 414, 431, 501, 505}"
    using error_status_range[of e] by (simp add: error_response_def)
  moreover have "''Connection: close'' \<in> set (response_lines (error_response e now (conn_policy c)))"
    using finalize_connection_line[of False] by (simp add: error_response_def)
  ultimately show ?thesis by blast
qed

lemma parse_error_closes_witness:
  "\<exists>r. drive (\<lambda>s r ctx. (resp_text 200 [], Suc s)) 7
      (feed (''GET  HTTP/1.1'' @ crlf @ crlf) conn_new) 0 [] = Some (serialize r False, True,
      feed (''GET  HTTP/1.1'' @ crlf @ crlf) conn_new, 0) \<and>
    ''Connection: close'' \<in> set (response_lines r)"
proof -
  have "parse_with (conn_buf (feed (''GET  HTTP/1.1'' @ crlf @ crlf) conn_new))
      (conn_max_body (feed (''GET  HTTP/1.1'' @ crlf @ crlf) conn_new)) = Err MalformedRequestLine"
    by (simp add: feed_def conn_new_def conn_with_policy_def exec_simps)
  from parse_error_closes[OF this, of "\<lambda>s r ctx. (resp_text 200 [], Suc s)" 7 0 "[]"]
  show ?thesis by auto
qed

text \<open>C16: The \<open>Connection\<close> field tells the truth: every response other than the interim one
  carries \<open>Connection: close\<close> when the connection is closed behind it and
  \<open>Connection: keep-alive\<close> when it stays open.\<close>

theorem connection_header_truthful:
  assumes "conn_step service now c s = Some (Write b close, c', s')"
  shows "b = interim_bytes \<and> \<not> close \<or>
    (\<exists>lines body. read_response b = Some (lines, body) \<and>
      (if close then ''Connection: close'' else ''Connection: keep-alive'') \<in> set lines)"
proof -
  from conn_step_write[OF assms] show ?thesis
  proof
    assume "\<exists>r head_only. b = serialize (finalize r now (\<not> close) (conn_policy c)) head_only"
    then obtain r head_only where "b = serialize (finalize r now (\<not> close) (conn_policy c)) head_only"
      by blast
    with read_serialize[of "finalize r now (\<not> close) (conn_policy c)" head_only "[]"]
      finalize_connection_line[of "\<not> close" r now "conn_policy c"]
    show ?thesis by (intro disjI2) (cases close; simp)
  qed simp
qed

lemma connection_header_truthful_witness:
  "\<exists>lines body. read_response (serialize (error_response MalformedRequestLine 7 default_policy) False) =
      Some (lines, body) \<and> ''Connection: close'' \<in> set lines"
proof -
  let ?c = "feed (''GET  HTTP/1.1'' @ crlf @ crlf) conn_new"
  have "parse_with (conn_buf ?c) (conn_max_body ?c) = Err MalformedRequestLine"
    by (simp add: feed_def conn_new_def conn_with_policy_def exec_simps)
  from connection_header_truthful[OF conn_step_error[OF this, of "\<lambda>s r ctx. (resp_new 200, s)" 7 "()"]]
  show ?thesis by (simp add: feed_def conn_new_def conn_with_policy_def)
qed

end
