(* ===== verification/Conditional.thy ===== *)
theory Conditional
  imports Request_Safety Response Date
begin

section \<open>Conditional requests and ranges\<close>

text \<open>
  \<open>crates/core/src/http/conditional.rs\<close>: preconditions turn a fresh \<open>200 OK\<close> into
  \<open>304 Not Modified\<close>, otherwise a single byte range turns it into \<open>206\<close> or
  \<open>416\<close>. The inclusive slice of the body is written with \<open>take\<close> and \<open>drop\<close>;
  \<open>range_in_bounds\<close> shows that it never leaves the body.
\<close>

definition strip_weak :: "bytes \<Rightarrow> bytes" where
  "strip_weak a = (case strip_prefix ''W/'' a of Some t \<Rightarrow> t | None \<Rightarrow> a)"

definition weak_eq :: "bytes \<Rightarrow> bytes \<Rightarrow> bool" where
  "weak_eq a b \<longleftrightarrow> strip_weak a = strip_weak b"

definition not_modified :: "request \<Rightarrow> response \<Rightarrow> bool" where
  "not_modified request response =
     (case req_header request ''if-none-match'' of
        Some inm \<Rightarrow>
          trim inm = ''*'' \<or>
          (case resp_header response ''etag'' of
             None \<Rightarrow> False
           | Some tag \<Rightarrow> list_ex (\<lambda>c. weak_eq (trim c) tag) (split_on (CHR '','') inm))
      | None \<Rightarrow>
          (case (req_header request ''if-modified-since'', resp_header response ''last-modified'') of
             (Some ims, Some lm) \<Rightarrow>
               (case (parse_http_date ims, parse_http_date lm) of
                  (Some ims_secs, Some lm_secs) \<Rightarrow> lm_secs \<le> ims_secs
                | _ \<Rightarrow> False)
           | _ \<Rightarrow> False))"

definition keep_header :: "response \<Rightarrow> response \<Rightarrow> bytes \<Rightarrow> response" where
  "keep_header from to name =
     (case resp_header from name of Some value \<Rightarrow> with_header to name value | None \<Rightarrow> to)"

definition to_not_modified :: "response \<Rightarrow> response" where
  "to_not_modified response =
     foldl (keep_header response) (resp_new NOT_MODIFIED)
       [''ETag'', ''Last-Modified'', ''Cache-Control'', ''Vary'']"

datatype range_outcome = Satisfiable nat nat | Unsatisfiable

definition parse_single_range :: "bytes \<Rightarrow> nat \<Rightarrow> range_outcome option" where
  "parse_single_range value len =
     (case strip_prefix ''bytes='' value of
        None \<Rightarrow> None
      | Some rest \<Rightarrow>
          let spec = trim rest in
          if CHR '','' \<in> set spec then None
          else (case split_once (CHR ''-'') spec of
            None \<Rightarrow> None
          | Some (lo, hi) \<Rightarrow>
              let lo = trim lo; hi = trim hi in
              if lo = [] then
                (case parse_u64 hi of
                   None \<Rightarrow> None
                 | Some n \<Rightarrow>
                     if n = 0 \<or> len = 0 then Some Unsatisfiable
                     else let n = min n len in Some (Satisfiable (len - n) (len - 1)))
              else (case parse_u64 lo of
                  None \<Rightarrow> None
                | Some start \<Rightarrow>
                    if start \<ge> len then Some Unsatisfiable
                    else if hi = [] then Some (Satisfiable start (len - 1))
                    else (case parse_u64 hi of
                        None \<Rightarrow> None
                      | Some requested \<Rightarrow>
                          if requested < start then Some Unsatisfiable
                          else Some (Satisfiable start (min requested (len - 1)))))))"

definition apply_range :: "request \<Rightarrow> response \<Rightarrow> response" where
  "apply_range request response =
     (case req_header request ''range'' of
        None \<Rightarrow> response
      | Some value \<Rightarrow>
          let len = length (resp_body response) in
          (case parse_single_range value len of
             Some (Satisfiable lo hi) \<Rightarrow>
               let partial = with_header (with_header (resp_new PARTIAL_CONTENT)
                     ''Accept-Ranges'' ''bytes'')
                     ''Content-Range''
                     (''bytes '' @ show_nat lo @ ''-'' @ show_nat hi @ ''/'' @ show_nat len);
                   partial = foldl (keep_header response) partial
                     [''Content-Type'', ''ETag'', ''Last-Modified'']
               in partial\<lparr>resp_body := take (hi + 1 - lo) (drop lo (resp_body response))\<rparr>
           | Some Unsatisfiable \<Rightarrow>
               with_header (resp_new RANGE_NOT_SATISFIABLE) ''Content-Range''
                 (''bytes */'' @ show_nat len)
           | None \<Rightarrow> response))"

definition evaluate :: "request \<Rightarrow> response \<Rightarrow> response" where
  "evaluate request response =
     (if resp_status response \<noteq> OK then response
      else if not_modified request response then to_not_modified response
      else apply_range request response)"

declare strip_weak_def [exec_simps]
declare weak_eq_def [exec_simps]
declare not_modified_def [exec_simps]
declare keep_header_def [exec_simps]
declare to_not_modified_def [exec_simps]
declare parse_single_range_def [exec_simps]
declare apply_range_def [exec_simps]
declare evaluate_def [exec_simps]

subsection \<open>Lemmas\<close>

lemma keep_header_simps [simp]:
  "resp_status (keep_header from to name) = resp_status to"
  "resp_body (keep_header from to name) = resp_body to"
  by (simp_all add: keep_header_def split: option.split)

lemma to_not_modified_simps [simp]:
  "resp_status (to_not_modified r) = 304" "resp_body (to_not_modified r) = []"
  by (simp_all add: to_not_modified_def)

lemma parse_single_range_bounds:
  "parse_single_range v len = Some (Satisfiable a b) \<Longrightarrow> a \<le> b \<and> b < len"
  by (auto simp: parse_single_range_def Let_def split: option.splits if_splits prod.splits)

lemma show_nat_graphic: "c \<in> set (show_nat n) \<Longrightarrow> is_graphic c"
  using show_nat_digits[of c n] by (auto simp: is_graphic_def is_ascii_digit_def)

lemma trim_all_graphic:
  assumes "\<And>c. c \<in> set s \<Longrightarrow> is_graphic c"
  shows "trim s = s"
proof (cases "s = []")
  case False
  with assms show ?thesis by (intro trim_graphic) auto
qed simp

lemma trim_show_nat: "trim (show_nat n) = show_nat n"
  by (rule trim_all_graphic) (rule show_nat_graphic)

lemma not_in_show: "c \<notin> set (show_nat n)" if "\<not> is_ascii_digit c" for c
  using that by (rule not_in_show_nat)

text \<open>The spelling of a range, and what \<open>parse_single_range\<close> makes of it.\<close>

lemma parse_range_text:
  assumes "trim spec = spec" and "CHR '','' \<notin> set spec" and "split_once (CHR ''-'') spec = Some (lo, hi)"
    and "trim lo = lo" and "trim hi = hi"
  shows "parse_single_range (''bytes='' @ spec) len =
    (if lo = [] then
       (case parse_u64 hi of
          None \<Rightarrow> None
        | Some n \<Rightarrow> if n = 0 \<or> len = 0 then Some Unsatisfiable
                    else Some (Satisfiable (len - min n len) (len - 1)))
     else (case parse_u64 lo of
          None \<Rightarrow> None
        | Some start \<Rightarrow>
            if start \<ge> len then Some Unsatisfiable
            else if hi = [] then Some (Satisfiable start (len - 1))
            else (case parse_u64 hi of
                None \<Rightarrow> None
              | Some requested \<Rightarrow>
                  if requested < start then Some Unsatisfiable
                  else Some (Satisfiable start (min requested (len - 1))))))"
proof -
  have "strip_prefix ''bytes='' (''bytes='' @ spec) = Some spec" by (rule strip_prefix_append)
  then show ?thesis
    unfolding parse_single_range_def Let_def using assms by (simp split: option.split)
qed

lemma parse_range_between:
  assumes "a \<le> b" and "a < len" and "b \<le> U64_MAX"
  shows "parse_single_range (''bytes='' @ show_nat a @ ''-'' @ show_nat b) len =
    Some (Satisfiable a (min b (len - 1)))"
proof -
  let ?spec = "show_nat a @ CHR ''-'' # show_nat b"
  have "trim ?spec = ?spec"
    by (rule trim_all_graphic) (auto simp: is_graphic_def dest: show_nat_graphic[unfolded is_graphic_def])
  moreover have "CHR '','' \<notin> set ?spec" by (simp add: not_in_show is_ascii_digit_def)
  moreover have "split_once (CHR ''-'') ?spec = Some (show_nat a, show_nat b)"
    by (intro split_once_hit not_in_show) (simp add: is_ascii_digit_def)
  ultimately show ?thesis
    using parse_range_text[of ?spec "show_nat a" "show_nat b" len] assms
    by (simp add: trim_show_nat)
qed

lemma parse_range_suffix:
  assumes "0 < n" and "0 < len" and "n \<le> U64_MAX"
  shows "parse_single_range (''bytes=-'' @ show_nat n) len =
    Some (Satisfiable (len - min n len) (len - 1))"
proof -
  let ?spec = "CHR ''-'' # show_nat n"
  have "trim ?spec = ?spec"
    by (rule trim_all_graphic) (auto simp: is_graphic_def dest: show_nat_graphic[unfolded is_graphic_def])
  moreover have "CHR '','' \<notin> set ?spec" by (simp add: not_in_show is_ascii_digit_def)
  moreover have "split_once (CHR ''-'') ?spec = Some ([], show_nat n)"
    using split_once_hit[of "CHR ''-''" "[]" "show_nat n"] by simp
  ultimately show ?thesis
    using parse_range_text[of ?spec "[]" "show_nat n" len] assms
    by (simp add: trim_show_nat)
qed

text \<open>Validators sent back unchanged.\<close>

lemma etag_echo:
  assumes "req_header request ''if-none-match'' = Some tag" and "resp_header r ''etag'' = Some tag"
    and "trim tag = tag" and "CHR '','' \<notin> set tag"
  shows "not_modified request r"
  using assms by (simp add: not_modified_def split_on_free weak_eq_def)

lemma date_echo:
  assumes "req_header request ''if-none-match'' = None"
    and "req_header request ''if-modified-since'' = Some (http_date s)"
    and "resp_header r ''last-modified'' = Some (http_date t)" and "s < 2 ^ 64" and "t < 2 ^ 64"
  shows "not_modified request r \<longleftrightarrow> t \<le> s"
  using assms by (simp add: not_modified_def http_date_roundtrip_lemma)

lemma evaluate_status:
  "resp_status (evaluate request r) \<in> {resp_status r, 304, 206, 416}"
  by (auto simp: evaluate_def apply_range_def Let_def split: option.splits range_outcome.splits)

lemma evaluate_partial:
  assumes "resp_status r = 200" and "\<not> not_modified request r" and "req_header request ''range'' = Some v"
    and "parse_single_range v (length (resp_body r)) = Some (Satisfiable a b)"
  shows "resp_status (evaluate request r) = 206 \<and>
    resp_body (evaluate request r) = take (b + 1 - a) (drop a (resp_body r)) \<and>
    length (resp_body (evaluate request r)) = b + 1 - a"
  using assms parse_single_range_bounds[OF assms(4)]
  by (auto simp: evaluate_def apply_range_def Let_def)


lemma resp_header_keep:
  "resp_header (keep_header source target n) name =
     (case resp_header target name of
        Some x \<Rightarrow> Some x
      | None \<Rightarrow> if eq_ignore_ascii_case n name then resp_header source n else None)"
  by (auto simp: keep_header_def resp_header_with split: option.split)

lemma resp_header_cong: "eq_ignore_ascii_case a b \<Longrightarrow> resp_header r a = resp_header r b"
  by (simp add: resp_header_def eq_ignore_ascii_case_def)

lemmas eq_ignore_eval =
  eq_ignore_ascii_case_def to_lower_table to_lower_other is_ascii_uppercase_def

lemma to_not_modified_keeps:
  assumes "eq_ignore_ascii_case name n" and "n \<in> {''ETag'', ''Last-Modified'', ''Cache-Control'', ''Vary''}"
  shows "resp_header (to_not_modified r) name = resp_header r name"
proof -
  note e = resp_header_cong[OF assms(1)]
  have "resp_header (to_not_modified r) n = resp_header r n"
    using assms(2) by (elim insertE emptyE)
      (simp_all add: to_not_modified_def resp_header_keep eq_ignore_eval split: option.split)
  then show ?thesis by (simp add: e)
qed

lemma evaluate_content_range:
  assumes "resp_status r = 200" and "\<not> not_modified request r" and "req_header request ''range'' = Some v"
    and "parse_single_range v (length (resp_body r)) = Some (Satisfiable a b)"
  shows "resp_header (evaluate request r) ''content-range'' =
    Some (''bytes '' @ show_nat a @ ''-'' @ show_nat b @ ''/'' @ show_nat (length (resp_body r)))"
  using assms
  by (simp add: evaluate_def apply_range_def Let_def resp_header_keep resp_header_with
      eq_ignore_eval)

subsection \<open>Properties\<close>

text \<open>A range never leaves the body: whenever \<open>parse_single_range\<close> accepts a range of
  a body of \<open>len\<close> bytes, its first and last position lie in the body in this order, so the
  slice the response is built from cannot panic.\<close>

theorem range_in_bounds:
  assumes "parse_single_range value len = Some (Satisfiable a b)"
  shows "a \<le> b \<and> b < len"
  using assms by (rule parse_single_range_bounds)

lemma range_in_bounds_witness: "(7 :: nat) \<le> 9 \<and> (9 :: nat) < 10"
proof (rule range_in_bounds)
  show "parse_single_range (''bytes='' @ show_nat 7 @ ''-'' @ show_nat 12) 10 = Some (Satisfiable 7 9)"
    using parse_range_between[of 7 12 10] by (simp add: U64_MAX_def)
qed

text \<open>C19: A byte range is served exactly: on a fresh response whose preconditions do not hold,
  a request for the bytes \<open>a\<close> to \<open>b\<close> of a body that has a byte \<open>a\<close> is answered by
  \<open>206\<close> with precisely these bytes (up to the end of the body) and a \<open>Content-Range\<close>
  that names them.\<close>

theorem range_request_served:
  assumes "resp_status r = 200" and "\<not> not_modified request r"
    and "req_header request ''range'' = Some (''bytes='' @ show_nat a @ ''-'' @ show_nat b)"
    and "a \<le> b" and "a < length (resp_body r)" and "b \<le> U64_MAX"
  shows "resp_status (evaluate request r) = 206 \<and>
    resp_body (evaluate request r) =
      map ((!) (resp_body r)) [a..<Suc (min b (length (resp_body r) - 1))] \<and>
    resp_header (evaluate request r) ''content-range'' =
      Some (''bytes '' @ show_nat a @ ''-'' @ show_nat (min b (length (resp_body r) - 1)) @ ''/'' @
        show_nat (length (resp_body r)))"
proof -
  define e where "e = min b (length (resp_body r) - 1)"
  have e: "a \<le> e" "e < length (resp_body r)" using assms(4,5) by (auto simp: e_def)
  have p: "parse_single_range (''bytes='' @ show_nat a @ ''-'' @ show_nat b) (length (resp_body r)) =
      Some (Satisfiable a e)"
    unfolding e_def using parse_range_between[OF assms(4-6)] .
  have "take (e + 1 - a) (drop a (resp_body r)) = map ((!) (resp_body r)) [a..<Suc e]"
    using e by (intro nth_equalityI) (auto simp del: upt_Suc)
  with evaluate_partial[OF assms(1-3) p] evaluate_content_range[OF assms(1-3) p]
  show ?thesis by (simp add: e_def)
qed

definition sample_range_request :: request where
  "sample_range_request = \<lparr>req_method = Get, req_target = ''/f'', req_version = Http11,
     req_headers = [\<lparr>hdr_name = ''Range'', hdr_value = ''bytes=1-9''\<rparr>], req_body = []\<rparr>"

lemma range_request_served_witness:
  "resp_body (evaluate sample_range_request (resp_text 200 ''abc'')) = ''bc''"
proof -
  have "req_header sample_range_request ''range'' = Some (''bytes='' @ show_nat 1 @ ''-'' @ show_nat 9)"
    by (simp add: sample_range_request_def exec_simps)
  moreover have "\<not> not_modified sample_range_request (resp_text 200 ''abc'')"
    by (simp add: sample_range_request_def exec_simps)
  ultimately show ?thesis
    using range_request_served[of "resp_text 200 ''abc''" sample_range_request 1 9]
    by (simp add: U64_MAX_def upt_rec)
qed

text \<open>Preconditions and ranges only ever turn a response into \<open>304\<close>, \<open>206\<close> or
  \<open>416\<close>, a \<open>304\<close> has no body and repeats the validators, and a response other than
  \<open>200 OK\<close>, or one for a request without the three fields, is returned unchanged.\<close>

theorem evaluate_outcomes:
  "resp_status (evaluate request r) \<in> {resp_status r, 304, 206, 416} \<and>
   (not_modified request r \<and> resp_status r = 200 \<longrightarrow>
      resp_status (evaluate request r) = 304 \<and> resp_body (evaluate request r) = [] \<and>
      resp_header (evaluate request r) ''etag'' = resp_header r ''etag'') \<and>
   (resp_status r \<noteq> 200 \<or> req_header request ''if-none-match'' = None \<and>
        req_header request ''if-modified-since'' = None \<and> req_header request ''range'' = None \<longrightarrow>
      evaluate request r = r)"
proof (intro conjI impI)
  show "resp_status (evaluate request r) \<in> {resp_status r, 304, 206, 416}" by (rule evaluate_status)
next
  assume "resp_status r \<noteq> 200 \<or> req_header request ''if-none-match'' = None \<and>
        req_header request ''if-modified-since'' = None \<and> req_header request ''range'' = None"
  then show "evaluate request r = r"
    by (auto simp: evaluate_def not_modified_def apply_range_def)
next
  have "eq_ignore_ascii_case ''etag'' ''ETag''" by (simp add: exec_simps)
  from to_not_modified_keeps[OF this]
  show "not_modified request r \<and> resp_status r = 200 \<Longrightarrow>
      resp_header (evaluate request r) ''etag'' = resp_header r ''etag''"
    by (simp add: evaluate_def)
qed (simp_all add: evaluate_def)

lemma evaluate_outcomes_witness:
  "evaluate sample_range_request (resp_text 404 ''x'') = resp_text 404 ''x''"
  using evaluate_outcomes[of sample_range_request "resp_text 404 ''x''"] by simp

end
