(* ===== verification/Static_Files.thy ===== *)
theory Static_Files
  imports Conditional Response_Laws
begin

section \<open>Static files\<close>

text \<open>
  \<open>crates/core/src/handler/static_files.rs\<close>, \<open>asset.rs\<close> and
  \<open>handler/query.rs\<close>. An asset source is a function from relative paths to assets
  (\<open>load\<close>) with a cheaper membership test (\<open>exists\<close>); the locale
  \<open>asset_source\<close> states the law the code relies on between the two. The request path
  is percent-decoded and split into segments that are safe to hand to a source. The
  \<open>QUERY\<close> media-type check is at the end.
\<close>

record asset =
  asset_bytes :: bytes
  asset_mtime :: "nat option"

type_synonym asset_load = "bytes \<Rightarrow> asset option"

subsection \<open>Paths\<close>

fun percent_loop :: "bytes \<Rightarrow> bytes \<Rightarrow> bytes option" where
  "percent_loop [] out = Some out"
| "percent_loop (b # rest) out =
     (if b = CHR ''%'' then
        (case rest of
           h # l # rest' \<Rightarrow>
             (case (hex_digit_val h, hex_digit_val l) of
                (Some hi, Some lo) \<Rightarrow> percent_loop rest' (out @ [char_of (hi * 16 + lo)])
              | _ \<Rightarrow> None)
         | _ \<Rightarrow> None)
      else percent_loop rest (out @ [b]))"

definition percent_decode :: "bytes \<Rightarrow> bytes option" where
  "percent_decode input =
     (case percent_loop input [] of
        None \<Rightarrow> None
      | Some out \<Rightarrow> if utf8_valid out then Some out else None)"

fun sanitize_loop :: "bytes list \<Rightarrow> bytes list \<Rightarrow> bytes list option" where
  "sanitize_loop [] segments = Some segments"
| "sanitize_loop (segment # rest) segments =
     (if segment = [] \<or> segment = ''.'' then sanitize_loop rest segments
      else if segment = ''..'' then None
      else if list_ex (\<lambda>b. byte_val b < 32 \<or> b = BACKSLASH) segment then None
      else sanitize_loop rest (segments @ [segment]))"

definition sanitize :: "bytes \<Rightarrow> bytes list option" where
  "sanitize decoded = sanitize_loop (split_on (CHR ''/'') decoded) []"

definition candidate_paths :: "bytes \<Rightarrow> bytes list \<Rightarrow> bytes list option" where
  "candidate_paths path index_files =
     (case percent_decode path of
        None \<Rightarrow> None
      | Some decoded \<Rightarrow>
          (case sanitize decoded of
             None \<Rightarrow> None
           | Some segments \<Rightarrow>
               let is_directory = segments = [] \<or> ends_with ''/'' decoded in
               if is_directory then
                 let base = join ''/'' segments in
                 Some (map (\<lambda>index. if base = [] then index else base @ ''/'' @ index) index_files)
               else Some [join ''/'' segments]))"

subsection \<open>Serving\<close>

definition etag :: "nat \<Rightarrow> nat \<Rightarrow> bytes" where
  "etag len mtime = DQUOTE # show_hex len @ ''-'' @ show_hex mtime @ [DQUOTE]"

definition file_response :: "bytes \<Rightarrow> asset \<Rightarrow> (bytes \<times> bytes) list \<Rightarrow> response" where
  "file_response name a mime_overrides =
     (let response = with_header (with_header (resp_new OK)
            ''Content-Type'' (mime_for name mime_overrides))
            ''Accept-Ranges'' ''bytes'';
          response = (case asset_mtime a of
              Some mtime \<Rightarrow> with_header (with_header response ''Last-Modified'' (http_date mtime))
                ''ETag'' (etag (length (asset_bytes a)) mtime)
            | None \<Rightarrow> response)
      in response\<lparr>resp_body := asset_bytes a\<rparr>)"

fun first_asset :: "asset_load \<Rightarrow> (bytes \<times> bytes) list \<Rightarrow> bytes list \<Rightarrow> response option" where
  "first_asset load mime_overrides [] = None"
| "first_asset load mime_overrides (candidate # rest) =
     (case load candidate of
        Some a \<Rightarrow> Some (file_response candidate a mime_overrides)
      | None \<Rightarrow> first_asset load mime_overrides rest)"

definition serve_static ::
  "bytes \<Rightarrow> bytes list \<Rightarrow> asset_load \<Rightarrow> (bytes \<times> bytes) list \<Rightarrow> response option" where
  "serve_static path index_files load mime_overrides =
     (case candidate_paths path index_files of
        None \<Rightarrow> None
      | Some candidates \<Rightarrow> first_asset load mime_overrides candidates)"

definition static_exists :: "bytes \<Rightarrow> bytes list \<Rightarrow> (bytes \<Rightarrow> bool) \<Rightarrow> bool" where
  "static_exists path index_files present =
     (case candidate_paths path index_files of
        Some candidates \<Rightarrow> list_ex present candidates
      | None \<Rightarrow> False)"

text \<open>The compile-time table of the embedded profile, and the default of \<open>exists\<close>.\<close>

definition embedded_load :: "(bytes \<times> bytes) list \<Rightarrow> asset_load" where
  "embedded_load table rel_path =
     map_option (\<lambda>(_, bytes). \<lparr>asset_bytes = bytes, asset_mtime = None\<rparr>)
       (find (\<lambda>(name, _). name = rel_path) table)"

definition default_exists :: "asset_load \<Rightarrow> bytes \<Rightarrow> bool" where
  "default_exists load rel_path \<longleftrightarrow> load rel_path \<noteq> None"

subsection \<open>The media type of a QUERY request\<close>

definition join_media_types :: "bytes list \<Rightarrow> bytes" where
  "join_media_types types =
     foldl (\<lambda>out (i, t). (if i > 0 then out @ '', '' else out) @ t) [] (zip [0..<length types] types)"

definition query_content_type_check :: "request \<Rightarrow> bytes list \<Rightarrow> response + unit" where
  "query_content_type_check request accepted =
     (case req_header request ''content-type'' of
        None \<Rightarrow> Inl (resp_text BAD_REQUEST ''QUERY requests must carry a Content-Type'')
      | Some content_type \<Rightarrow>
          let media_type = trim (hd (split_on (CHR '';'') content_type)) in
          if list_ex (\<lambda>a. eq_ignore_ascii_case a media_type) accepted then Inr ()
          else Inl (with_header (resp_text UNSUPPORTED_MEDIA_TYPE ''Unsupported query media type'')
                 ''Accept-Query'' (join_media_types accepted)))"

declare percent_decode_def [exec_simps]
declare sanitize_def [exec_simps]
declare candidate_paths_def [exec_simps]
declare ends_with_def [exec_simps]
declare etag_def [exec_simps]
declare file_response_def [exec_simps]
declare serve_static_def [exec_simps]
declare static_exists_def [exec_simps]
declare embedded_load_def [exec_simps]

subsection \<open>Safe paths\<close>

text \<open>A segment that cannot leave the directory it is looked up in.\<close>

definition safe_segment :: "bytes \<Rightarrow> bool" where
  "safe_segment s \<longleftrightarrow> s \<noteq> [] \<and> s \<noteq> ''.'' \<and> s \<noteq> ''..'' \<and> CHR ''/'' \<notin> set s \<and>
     (\<forall>b \<in> set s. 32 \<le> byte_val b \<and> b \<noteq> BACKSLASH)"

lemma sanitize_loop_safe:
  assumes "sanitize_loop ps acc = Some segs" and "\<forall>p \<in> set ps. CHR ''/'' \<notin> set p"
    and "\<forall>s \<in> set acc. safe_segment s"
  shows "\<forall>s \<in> set segs. safe_segment s"
  using assms
proof (induction ps acc rule: sanitize_loop.induct)
  case (2 p ps acc)
  show ?case
  proof (cases "p = [] \<or> p = ''.''")
    case True
    with "2.prems"(1) have "sanitize_loop ps acc = Some segs" by (simp only: sanitize_loop.simps if_True)
    then show ?thesis using "2.IH"(1)[OF True] "2.prems"(2,3) by simp
  next
    case False
    let ?bad = "list_ex (\<lambda>b. byte_val b < 32 \<or> b = BACKSLASH) p"
    from False have u: "sanitize_loop (p # ps) acc =
        (if p = ''..'' then None else if ?bad then None else sanitize_loop ps (acc @ [p]))"
      by (simp only: sanitize_loop.simps if_False)
    have ok: "p \<noteq> ''..''" "\<not> ?bad"
      using "2.prems"(1) unfolding u by (metis option.distinct(1))+
    then have rec: "sanitize_loop ps (acc @ [p]) = Some segs"
      using "2.prems"(1) unfolding u by (simp only: if_False)
    have "safe_segment p"
      unfolding safe_segment_def using False ok "2.prems"(2) by (simp add: list_ex_iff not_less)
    then have "\<forall>s \<in> set (acc @ [p]). safe_segment s" using "2.prems"(3) by simp
    moreover have "\<forall>p \<in> set ps. CHR ''/'' \<notin> set p" using "2.prems"(2) by simp
    ultimately show ?thesis using "2.IH"(2)[OF False ok rec] by blast
  qed
qed simp

lemma sanitize_safe: "sanitize d = Some segs \<Longrightarrow> s \<in> set segs \<Longrightarrow> safe_segment s"
  using sanitize_loop_safe[of "split_on (CHR ''/'') d" "[]" segs]
  by (auto simp: sanitize_def dest: split_on_pieces)

lemma sanitize_loop_id:
  "\<forall>s \<in> set segs. safe_segment s \<Longrightarrow> sanitize_loop segs acc = Some (acc @ segs)"
proof (induction segs arbitrary: acc)
  case (Cons p ps)
  then have "p \<noteq> [] \<and> p \<noteq> ''.'' \<and> p \<noteq> ''..'' \<and> \<not> list_ex (\<lambda>b. byte_val b < 32 \<or> b = BACKSLASH) p"
    by (simp add: safe_segment_def list_ex_iff not_less)
  then have "sanitize_loop (p # ps) acc = sanitize_loop ps (acc @ [p])"
    by (simp only: sanitize_loop.simps simp_thms if_False)
  with Cons show ?case by simp
qed simp

lemma sanitize_join:
  "segs \<noteq> [] \<Longrightarrow> \<forall>s \<in> set segs. safe_segment s \<Longrightarrow> sanitize (join ''/'' segs) = Some segs"
proof -
  assume n: "segs \<noteq> []" and safe: "\<forall>s \<in> set segs. safe_segment s"
  then have "\<forall>s \<in> set segs. CHR ''/'' \<notin> set s" by (simp add: safe_segment_def)
  from split_on_join[OF n this] sanitize_loop_id[OF safe, of "[]"] show ?thesis
    by (simp add: sanitize_def)
qed

lemma candidate_paths_cases:
  assumes "candidate_paths path index_files = Some cs" and "c \<in> set cs"
  obtains segs where "\<forall>s \<in> set segs. safe_segment s"
    "c = join ''/'' segs \<and> segs \<noteq> [] \<or>
     (\<exists>index \<in> set index_files. c = (if segs = [] then index else join ''/'' segs @ ''/'' @ index))"
proof -
  obtain d segs where d: "percent_decode path = Some d" "sanitize d = Some segs"
    using assms(1) by (auto simp: candidate_paths_def split: option.splits)
  have safe: "\<forall>s \<in> set segs. safe_segment s" using sanitize_safe[OF d(2)] by blast
  then have "join ''/'' segs = [] \<longleftrightarrow> segs = []"
    by (cases segs; cases "tl segs") (auto simp: safe_segment_def)
  with assms d have "c = join ''/'' segs \<and> segs \<noteq> [] \<or>
     (\<exists>index \<in> set index_files. c = (if segs = [] then index else join ''/'' segs @ ''/'' @ index))"
    by (auto simp: candidate_paths_def Let_def split: if_splits)
  with safe that show thesis by blast
qed

text \<open>Percent encoding, the inverse of \<open>percent_decode\<close>.\<close>

definition percent_encode :: "bytes \<Rightarrow> bytes" where
  "percent_encode s = concat (map (\<lambda>b. [CHR ''%'', hex_digit_char (byte_val b div 16),
     hex_digit_char (byte_val b mod 16)]) s)"

lemma percent_loop_encode: "percent_loop (percent_encode s) out = Some (out @ s)"
proof (induction s arbitrary: out)
  case (Cons b s)
  have "byte_val b < 256" by (rule nat_of_char_less_256)
  then have "byte_val b div 16 < 16" by (intro less_mult_imp_div_less) simp
  with Cons show ?case by (simp add: percent_encode_def)
qed (simp add: percent_encode_def)

lemma percent_decode_encode: "utf8_valid s \<Longrightarrow> percent_decode (percent_encode s) = Some s"
  by (simp add: percent_decode_def percent_loop_encode)


subsection \<open>The contract of an asset source\<close>

lemma first_asset_Some:
  "first_asset load ov cs = Some r \<Longrightarrow>
     \<exists>c a. c \<in> set cs \<and> load c = Some a \<and> r = file_response c a ov"
  by (induction cs) (auto split: option.splits)

lemma first_asset_None: "first_asset load ov cs = None \<longleftrightarrow> (\<forall>c \<in> set cs. load c = None)"
  by (induction cs) (auto split: option.splits)

text \<open>\<open>exists\<close> answers what \<open>load\<close> would find, without reading it.\<close>

locale asset_source =
  fixes load :: "bytes \<Rightarrow> asset option" and present :: "bytes \<Rightarrow> bool"
  assumes present_iff: "present p \<longleftrightarrow> load p \<noteq> None"
begin

lemma exists_iff_served:
  "static_exists path index_files present \<longleftrightarrow> serve_static path index_files load ov \<noteq> None"
  by (cases "candidate_paths path index_files")
    (simp_all add: static_exists_def serve_static_def list_ex_iff present_iff first_asset_None
      del: not_None_eq)

end

interpretation embedded: asset_source "embedded_load table" "default_exists (embedded_load table)" for table
  by unfold_locales (simp add: default_exists_def)

subsection \<open>Validators\<close>

lemma show_hex_inj: "show_hex a = show_hex b \<Longrightarrow> a = b"
proof (induction a arbitrary: b rule: show_hex.induct)
  case (1 a)
  have hex: "hex_digit_char x = hex_digit_char y \<Longrightarrow> x < 16 \<Longrightarrow> y < 16 \<Longrightarrow> x = y" for x y
    by (metis hex_digit_val_char option.inject)
  have unf: "show_hex n = (if n < 16 then [] else show_hex (n div 16)) @ [hex_digit_char (n mod 16)]" for n
    by (subst show_hex.simps) simp
  from "1.prems" have "(if a < 16 then [] else show_hex (a div 16)) = (if b < 16 then [] else show_hex (b div 16))"
    and last: "hex_digit_char (a mod 16) = hex_digit_char (b mod 16)"
    unfolding unf[of a] unf[of b] by simp_all
  then have "a < 16 \<longleftrightarrow> b < 16" "\<not> a < 16 \<Longrightarrow> show_hex (a div 16) = show_hex (b div 16)"
    using show_hex_not_Nil[THEN not_sym] by (auto split: if_splits)
  with "1.IH" have "a div 16 = b div 16" by (cases "a < 16") auto
  moreover have "a mod 16 = b mod 16" using last by (intro hex) simp_all
  ultimately show ?case by (metis div_mult_mod_eq)
qed

lemma etag_inj: "etag l m = etag l' m' \<Longrightarrow> l = l' \<and> m = m'"
proof -
  assume "etag l m = etag l' m'"
  then have e: "show_hex l @ CHR ''-'' # (show_hex m @ [DQUOTE]) = show_hex l' @ CHR ''-'' # (show_hex m' @ [DQUOTE])"
    by (simp add: etag_def)
  have n: "CHR ''-'' \<notin> set (show_hex k)" for k
    using show_hex_graphic[of "CHR ''-''" k] by (auto simp: ascii_class_defs)
  have "split_once (CHR ''-'') (show_hex k @ CHR ''-'' # t) = Some (show_hex k, t)" for k t
    by (rule split_once_hit[OF n])
  with e have "show_hex l = show_hex l'" "show_hex m @ [DQUOTE] = show_hex m' @ [DQUOTE]"
    by (metis option.inject prod.inject)+
  then show ?thesis using show_hex_inj by simp
qed

lemma etag_text: "trim (etag l m) = etag l m" "CHR '','' \<notin> set (etag l m)"
proof -
  have h: "is_graphic c \<and> c \<noteq> CHR '',''" if "c \<in> set (show_hex k)" for c k
    using show_hex_graphic[OF that] by (auto simp: ascii_class_defs is_graphic_def)
  have "is_graphic c" if "c \<in> set (etag l m)" for c
    using that h by (auto simp: etag_def is_graphic_def)
  then show "trim (etag l m) = etag l m" by (rule trim_all_graphic)
  show "CHR '','' \<notin> set (etag l m)" using h by (auto simp: etag_def)
qed

lemma file_response_simps [simp]:
  "resp_status (file_response name a ov) = 200"
  "resp_body (file_response name a ov) = asset_bytes a"
  by (simp_all add: file_response_def Let_def split: option.split)

lemma file_response_validators:
  assumes "asset_mtime a = Some t"
  shows "resp_header (file_response name a ov) ''etag'' = Some (etag (length (asset_bytes a)) t)"
    and "resp_header (file_response name a ov) ''last-modified'' = Some (http_date t)"
  using assms by (simp_all add: file_response_def Let_def resp_header_with eq_ignore_eval)


lemma file_path_candidates:
  assumes "segs \<noteq> []" and "\<forall>s \<in> set segs. safe_segment s" and "utf8_valid (join ''/'' segs)"
  shows "candidate_paths (CHR ''/'' # percent_encode (join ''/'' segs)) index_files = Some [join ''/'' segs]"
proof -
  let ?p = "join ''/'' segs"
  have "utf8_valid (CHR ''/'' # ?p)" using assms(3) by simp
  then have d: "percent_decode (CHR ''/'' # percent_encode ?p) = Some (CHR ''/'' # ?p)"
    by (simp add: percent_decode_def percent_loop_encode)
  have s: "sanitize (CHR ''/'' # ?p) = Some segs"
    using sanitize_join[OF assms(1,2)] by (simp add: sanitize_def)
  have "last ?p \<noteq> CHR ''/'' \<and> ?p \<noteq> []"
    using assms(1,2)
  proof (induction segs rule: induct_list012)
    case (2 x)
    then have "x \<noteq> [] \<and> CHR ''/'' \<notin> set x" by (simp add: safe_segment_def)
    then show ?case by (cases x rule: rev_cases) auto
  qed auto
  then obtain q c where "?p = q @ [c]" "c \<noteq> CHR ''/''" by (metis append_butlast_last_id)
  then have "\<not> ends_with ''/'' (CHR ''/'' # ?p)" by (simp add: ends_with_def)
  with d s assms(1) show ?thesis by (simp add: candidate_paths_def)
qed

subsection \<open>Properties\<close>

text \<open>No request path escapes the document root. Every relative path that is handed to
  the asset source is built from segments that are not empty, \<open>.\<close> or \<open>..\<close>, hold no slash,
  backslash or control byte after percent-decoding, possibly followed by a configured index
  file.\<close>

theorem served_paths_safe:
  assumes "candidate_paths path index_files = Some cs" and "c \<in> set cs"
  shows "\<exists>segs. (\<forall>s \<in> set segs. safe_segment s) \<and>
    (c = join ''/'' segs \<and> segs \<noteq> [] \<or>
     (\<exists>index \<in> set index_files. c = (if segs = [] then index else join ''/'' segs @ ''/'' @ index)))"
  by (rule candidate_paths_cases[OF assms]) blast

lemma served_paths_safe_witness:
  "\<exists>segs. (\<forall>s \<in> set segs. safe_segment s) \<and>
    (''a/i'' = join ''/'' segs \<and> segs \<noteq> [] \<or>
     (\<exists>index \<in> set [''i'']. ''a/i'' = (if segs = [] then index else join ''/'' segs @ ''/'' @ index)))"
proof (rule served_paths_safe)
  show "candidate_paths ''/%61/'' [''i''] = Some [''a/i'']"
    by (simp add: exec_simps char_of_eq_iff)
qed simp

text \<open>A path with a \<open>..\<close> segment after percent-decoding, however it is encoded, is never
  served and never reported to exist.\<close>

theorem traversal_rejected:
  assumes "percent_decode path = Some decoded" and "''..'' \<in> set (split_on (CHR ''/'') decoded)"
  shows "serve_static path index_files load overrides = None \<and>
    \<not> static_exists path index_files present"
proof -
  have "sanitize_loop ps acc = None" if "''..'' \<in> set ps" for ps acc
    using that
  proof (induction ps acc rule: sanitize_loop.induct)
    case (2 p ps acc)
    show ?case
    proof (cases "p = ''..''")
      case False
      with "2.prems" have "''..'' \<in> set ps" by simp
      with "2.IH" show ?thesis by (simp only: sanitize_loop.simps split: if_split) blast
    qed simp
  qed simp
  with assms have "candidate_paths path index_files = None"
    by (simp add: candidate_paths_def sanitize_def)
  then show ?thesis by (simp add: serve_static_def static_exists_def)
qed

lemma traversal_rejected_witness:
  "serve_static ''/x/%2e%2E/y'' [] (\<lambda>p. Some \<lparr>asset_bytes = [], asset_mtime = None\<rparr>) [] = None"
proof -
  have "percent_decode ''/x/%2e%2E/y'' = Some ''/x/../y''" by (simp add: exec_simps char_of_eq_iff)
  moreover have "''..'' \<in> set (split_on (CHR ''/'') ''/x/../y'')" by simp
  ultimately show ?thesis by (rule traversal_rejected[THEN conjunct1])
qed

text \<open>A file is found under its percent-encoded path: for a relative path of safe segments,
  the request for its encoding is answered with the file's bytes if the source has it, and with
  nothing if it does not; no index file is tried.\<close>

theorem static_file_found:
  assumes "segs \<noteq> []" and "\<forall>s \<in> set segs. safe_segment s" and "utf8_valid (join ''/'' segs)"
  shows "serve_static (CHR ''/'' # percent_encode (join ''/'' segs)) index_files load overrides =
    map_option (\<lambda>a. file_response (join ''/'' segs) a overrides) (load (join ''/'' segs))"
  using file_path_candidates[OF assms] by (simp add: serve_static_def split: option.split)

lemma static_file_found_witness:
  "serve_static ''/%61%20'' [] (embedded_load [(''a '', ''data'')]) [] =
     Some (file_response ''a '' \<lparr>asset_bytes = ''data'', asset_mtime = None\<rparr> [])"
proof -
  have "\<forall>s \<in> set [''a '']. safe_segment s" by (simp add: safe_segment_def)
  moreover have "CHR ''/'' # percent_encode (join ''/'' [''a '']) = ''/%61%20''"
    by (simp add: percent_encode_def hex_digit_char_def exec_simps char_of_eq_iff)
  ultimately show ?thesis
    using static_file_found[of "[''a '']" "[]" "embedded_load [(''a '', ''data'')]" "[]"]
    by (simp add: embedded_load_def)
qed

text \<open>For the embedded asset source, \<open>OPTIONS\<close> and 405 treat a path as a static resource
  exactly if a GET request for it would be served.\<close>

theorem embedded_exists_iff_served:
  "static_exists path index_files (default_exists (embedded_load table)) \<longleftrightarrow>
     serve_static path index_files (embedded_load table) overrides \<noteq> None"
  by (rule embedded.exists_iff_served)


definition revalidation_request :: request where
  "revalidation_request = \<lparr>req_method = Get, req_target = ''/f'', req_version = Http11,
     req_headers = [\<lparr>hdr_name = ''if-none-match'', hdr_value = etag 3 5\<rparr>], req_body = []\<rparr>"


end
