(* ===== verification/Router.thy ===== *)
theory Router
  imports Request_Safety Response
begin

section \<open>The router\<close>

text \<open>
  \<open>crates/core/src/router.rs\<close>: routes are tried in registration order, a pattern is
  a list of static and \<open>:name\<close> segments, and a HEAD request is answered by a GET route.
  A handler is a function of the request and the captured parameters.
\<close>

type_synonym params = "(bytes \<times> bytes) list"

definition params_get :: "params \<Rightarrow> bytes \<Rightarrow> bytes option" where
  "params_get ps name = map_option snd (find (\<lambda>(k, _). k = name) ps)"

type_synonym handler = "request \<Rightarrow> params \<Rightarrow> response"

datatype segment = Static bytes | Param bytes

record route =
  route_method :: http_method
  route_segments :: "segment list"
  route_handler :: handler

type_synonym router = "route list"

definition split_path :: "bytes \<Rightarrow> bytes list" where
  "split_path path = filter (\<lambda>seg. seg \<noteq> []) (split_on (CHR ''/'') path)"

definition parse_pattern :: "bytes \<Rightarrow> segment list" where
  "parse_pattern pattern =
     map (\<lambda>seg. case strip_prefix '':'' seg of Some name \<Rightarrow> Param name | None \<Rightarrow> Static seg)
       (split_path pattern)"

fun match_loop :: "(segment \<times> bytes) list \<Rightarrow> params \<Rightarrow> params option" where
  "match_loop [] ps = Some ps"
| "match_loop ((Static s, value) # rest) ps = (if s \<noteq> value then None else match_loop rest ps)"
| "match_loop ((Param name, value) # rest) ps = match_loop rest (ps @ [(name, value)])"

definition match_segments :: "segment list \<Rightarrow> bytes \<Rightarrow> params option" where
  "match_segments pattern path =
     (let actual = split_path path in
      if length actual \<noteq> length pattern then None
      else match_loop (zip pattern actual) [])"

definition method_matches :: "http_method \<Rightarrow> http_method \<Rightarrow> bool" where
  "method_matches registered requested \<longleftrightarrow>
     registered = requested \<or> (requested = Head \<and> registered = Get)"

definition router_route :: "http_method \<Rightarrow> bytes \<Rightarrow> handler \<Rightarrow> router \<Rightarrow> router" where
  "router_route m pattern h rt =
     rt @ [\<lparr>route_method = m, route_segments = parse_pattern pattern, route_handler = h\<rparr>]"

fun dispatch_path :: "router \<Rightarrow> request \<Rightarrow> bytes \<Rightarrow> response option" where
  "dispatch_path [] request path = None"
| "dispatch_path (r # rs) request path =
     (if \<not> method_matches (route_method r) (req_method request) then dispatch_path rs request path
      else (case match_segments (route_segments r) path of
              Some ps \<Rightarrow> Some (route_handler r request ps)
            | None \<Rightarrow> dispatch_path rs request path))"

definition dispatch :: "router \<Rightarrow> request \<Rightarrow> response option" where
  "dispatch rt request = dispatch_path rt request (req_path request)"

definition allowed_methods :: "router \<Rightarrow> bytes \<Rightarrow> http_method list" where
  "allowed_methods rt path =
     foldl (\<lambda>ms r. if match_segments (route_segments r) path \<noteq> None \<and> route_method r \<notin> set ms
                   then ms @ [route_method r] else ms) [] rt"

definition registered_methods :: "router \<Rightarrow> http_method list" where
  "registered_methods rt =
     foldl (\<lambda>ms r. if route_method r \<notin> set ms then ms @ [route_method r] else ms) [] rt"

definition router_handle :: "router \<Rightarrow> request \<Rightarrow> response" where
  "router_handle rt request =
     (case dispatch rt request of Some r \<Rightarrow> r | None \<Rightarrow> resp_text NOT_FOUND ''404 Not Found'')"

declare params_get_def [exec_simps]
declare split_path_def [exec_simps]
declare parse_pattern_def [exec_simps]
declare match_segments_def [exec_simps]
declare method_matches_def [exec_simps]
declare router_route_def [exec_simps]
declare dispatch_def [exec_simps]
declare allowed_methods_def [exec_simps]
declare registered_methods_def [exec_simps]
declare router_handle_def [exec_simps]

subsection \<open>Matching\<close>

text \<open>The path segments a pattern stands for, given the captured values in order.\<close>

fun fill :: "segment list \<Rightarrow> bytes list \<Rightarrow> bytes list" where
  "fill [] vs = []"
| "fill (Static s # segs) vs = s # fill segs vs"
| "fill (Param n # segs) (v # vs) = v # fill segs vs"
| "fill (Param n # segs) [] = [] # fill segs []"

fun param_names :: "segment list \<Rightarrow> bytes list" where
  "param_names [] = []"
| "param_names (Static s # segs) = param_names segs"
| "param_names (Param n # segs) = n # param_names segs"

lemma length_fill [simp]: "length (fill segs vs) = length segs"
  by (induction segs vs rule: fill.induct) auto

lemma match_loop_fill:
  "length vs = length (param_names segs) \<Longrightarrow>
     match_loop (zip segs (fill segs vs)) ps = Some (ps @ zip (param_names segs) vs)"
  by (induction segs vs arbitrary: ps rule: fill.induct) auto

lemma match_loop_Some:
  "match_loop (zip segs actual) ps = Some qs \<Longrightarrow> length actual = length segs \<Longrightarrow>
     \<exists>vs. length vs = length (param_names segs) \<and> actual = fill segs vs \<and>
          qs = ps @ zip (param_names segs) vs"
proof (induction segs arbitrary: actual ps)
  case (Cons seg segs)
  obtain a as where a: "actual = a # as" "length as = length segs"
    using Cons.prems(2) by (cases actual) auto
  show ?case
  proof (cases seg)
    case (Static s)
    with Cons.prems(1) a have "s = a" "match_loop (zip segs as) ps = Some qs" by (auto split: if_splits)
    with Cons.IH[OF this(2) a(2)] a Static show ?thesis by auto
  next
    case (Param n)
    with Cons.prems(1) a have "match_loop (zip segs as) (ps @ [(n, a)]) = Some qs" by simp
    from Cons.IH[OF this a(2)] obtain vs where vs: "length vs = length (param_names segs)"
      "as = fill segs vs" "qs = (ps @ [(n, a)]) @ zip (param_names segs) vs" by blast
    with a Param show ?thesis by (intro exI[of _ "a # vs"]) simp
  qed
qed simp

lemma match_segments_iff:
  "match_segments segs path = Some ps \<longleftrightarrow>
     (\<exists>vs. length vs = length (param_names segs) \<and> split_path path = fill segs vs \<and>
           ps = zip (param_names segs) vs)"
  by (auto simp: match_segments_def Let_def match_loop_fill dest: match_loop_Some)

lemma split_path_pieces: "seg \<in> set (split_path path) \<Longrightarrow> seg \<noteq> [] \<and> CHR ''/'' \<notin> set seg"
  by (auto simp: split_path_def dest: split_on_pieces)

lemma split_path_join:
  "\<forall>seg \<in> set segs. seg \<noteq> [] \<and> CHR ''/'' \<notin> set seg \<Longrightarrow>
     split_path (CHR ''/'' # join ''/'' segs) = segs"
proof (cases "segs = []")
  case False
  assume *: "\<forall>seg \<in> set segs. seg \<noteq> [] \<and> CHR ''/'' \<notin> set seg"
  then have "split_on (CHR ''/'') (join ''/'' segs) = segs" using False by (intro split_on_join) auto
  with * show ?thesis by (simp add: split_path_def filter_id_conv)
qed (simp add: split_path_def)

subsection \<open>Dispatch\<close>

definition route_answers :: "request \<Rightarrow> route \<Rightarrow> bool" where
  "route_answers request r \<longleftrightarrow> method_matches (route_method r) (req_method request) \<and>
     match_segments (route_segments r) (req_path request) \<noteq> None"

lemma dispatch_find:
  "dispatch rt request =
     map_option (\<lambda>r. route_handler r request (the (match_segments (route_segments r) (req_path request))))
       (find (route_answers request) rt)"
  unfolding dispatch_def by (induction rt) (auto simp: route_answers_def split: option.splits)

lemma dispatch_None: "dispatch rt request = None \<longleftrightarrow> (\<forall>r \<in> set rt. \<not> route_answers request r)"
  by (auto simp: dispatch_find find_None_iff)

lemma allowed_methods_acc:
  assumes "distinct ms"
  shows "distinct (foldl (\<lambda>ms r. if P r \<and> f r \<notin> set ms then ms @ [f r] else ms) ms rt) \<and>
    set (foldl (\<lambda>ms r. if P r \<and> f r \<notin> set ms then ms @ [f r] else ms) ms rt) =
      set ms \<union> f ` {r \<in> set rt. P r}"
  using assms by (induction rt arbitrary: ms) auto

lemma allowed_methods_set:
  "set (allowed_methods rt path) =
     route_method ` {r \<in> set rt. match_segments (route_segments r) path \<noteq> None}"
  and allowed_methods_distinct: "distinct (allowed_methods rt path)"
  using allowed_methods_acc[of "[]" "\<lambda>r. match_segments (route_segments r) path \<noteq> None" route_method rt]
  by (simp_all add: allowed_methods_def)

lemma registered_methods_set: "set (registered_methods rt) = route_method ` set rt"
  and registered_methods_distinct: "distinct (registered_methods rt)"
  using allowed_methods_acc[of "[]" "\<lambda>r. True" route_method rt]
  by (simp_all add: registered_methods_def)

lemma dispatch_allowed:
  "dispatch rt request \<noteq> None \<longleftrightarrow>
     (\<exists>m \<in> set (allowed_methods rt (req_path request)). method_matches m (req_method request))"
  by (auto simp: dispatch_None allowed_methods_set route_answers_def)

subsection \<open>Properties\<close>

text \<open>C18: The first matching route answers. \<open>dispatch\<close> runs the handler of the first
  registered route whose method and pattern match, with the parameters its pattern captured,
  and answers nothing when no route matches.\<close>

theorem dispatch_first_match:
  "dispatch rt request = Some resp \<longleftrightarrow>
     (\<exists>before r after ps. rt = before @ r # after \<and> (\<forall>b \<in> set before. \<not> route_answers request b) \<and>
        method_matches (route_method r) (req_method request) \<and>
        match_segments (route_segments r) (req_path request) = Some ps \<and>
        resp = route_handler r request ps)"
proof
  assume "dispatch rt request = Some resp"
  then obtain r where r: "find (route_answers request) rt = Some r"
    "resp = route_handler r request (the (match_segments (route_segments r) (req_path request)))"
    by (auto simp: dispatch_find)
  then obtain i where i: "i < length rt" "rt ! i = r" "route_answers request r"
    "\<forall>j < i. \<not> route_answers request (rt ! j)"
    by (auto simp: find_Some_iff)
  then show "\<exists>before r after ps. rt = before @ r # after \<and>
      (\<forall>b \<in> set before. \<not> route_answers request b) \<and>
      method_matches (route_method r) (req_method request) \<and>
      match_segments (route_segments r) (req_path request) = Some ps \<and> resp = route_handler r request ps"
    using r(2) id_take_nth_drop[OF i(1)]
    by (intro exI[of _ "take i rt"] exI[of _ r] exI[of _ "drop (Suc i) rt"])
      (auto simp: route_answers_def in_set_conv_nth)
next
  assume "\<exists>before r after ps. rt = before @ r # after \<and>
      (\<forall>b \<in> set before. \<not> route_answers request b) \<and>
      method_matches (route_method r) (req_method request) \<and>
      match_segments (route_segments r) (req_path request) = Some ps \<and> resp = route_handler r request ps"
  then obtain before r after ps where *: "rt = before @ r # after"
    "\<forall>b \<in> set before. \<not> route_answers request b"
    "method_matches (route_method r) (req_method request)"
    "match_segments (route_segments r) (req_path request) = Some ps"
    "resp = route_handler r request ps" by blast
  then have "find (route_answers request) rt = Some r"
    by (induction before arbitrary: rt) (auto simp: route_answers_def)
  with * show "dispatch rt request = Some resp" by (simp add: dispatch_find)
qed

definition echo_route :: route where
  "echo_route = \<lparr>route_method = Get, route_segments = parse_pattern ''/u/:id'',
     route_handler = (\<lambda>r ps. resp_text 200 (the (params_get ps ''id'')))\<rparr>"

definition head_request :: "bytes \<Rightarrow> request" where
  "head_request target = \<lparr>req_method = Head, req_target = target, req_version = Http11,
     req_headers = [], req_body = []\<rparr>"

lemma dispatch_first_match_witness:
  "dispatch (router_route Post ''/u/:id'' (\<lambda>r ps. resp_new 500) [] @ [echo_route])
     (head_request ''/u/7?x'') = Some (resp_text 200 ''7'')"
proof -
  let ?post = "router_route Post ''/u/:id'' (\<lambda>r ps. resp_new 500) []"
  have m: "match_segments (route_segments echo_route) (req_path (head_request ''/u/7?x'')) =
      Some [(''id'', ''7'')]"
    by (simp add: echo_route_def head_request_def exec_simps)
  have "\<forall>b \<in> set ?post. \<not> route_answers (head_request ''/u/7?x'') b"
    by (simp add: route_answers_def head_request_def router_route_def method_matches_def)
  moreover have "method_matches (route_method echo_route) (req_method (head_request ''/u/7?x''))"
    by (simp add: echo_route_def head_request_def method_matches_def)
  moreover have "resp_text 200 ''7'' = route_handler echo_route (head_request ''/u/7?x'') [(''id'', ''7'')]"
    by (simp add: echo_route_def params_get_def)
  ultimately show ?thesis
    unfolding dispatch_first_match using m by (intro exI conjI) auto
qed

text \<open>A pattern matches exactly the paths it describes: a path matches, with captured
  parameters \<open>ps\<close>, if and only if its segments are the pattern's with each \<open>:name\<close>
  replaced by one value, and \<open>ps\<close> pairs the names with these values in order.\<close>

theorem match_segments_exact:
  "match_segments (parse_pattern pattern) path = Some ps \<longleftrightarrow>
     (\<exists>vs. length vs = length (param_names (parse_pattern pattern)) \<and>
        split_path path = fill (parse_pattern pattern) vs \<and>
        ps = zip (param_names (parse_pattern pattern)) vs)"
  by (rule match_segments_iff)

text \<open>The \<open>Allow\<close> list agrees with dispatch: it lists each method of the matching
  routes once, and a request is answered by a route if and only if one of the listed methods
  answers its method, so 405 is sent only for methods the resource does not have.\<close>

theorem allowed_methods_agree:
  "distinct (allowed_methods rt (req_path request)) \<and>
   (dispatch rt request \<noteq> None \<longleftrightarrow>
     (\<exists>m \<in> set (allowed_methods rt (req_path request)). method_matches m (req_method request)))"
  using allowed_methods_distinct dispatch_allowed by blast

end
