(* ===== verification/Security.thy ===== *)
theory Security
  imports Numerals
begin

section \<open>The per-peer rate limiter\<close>

text \<open>
  \<open>crates/core/src/security.rs\<close>. The limiter keeps a table from peers to entries (the
  start of a fixed window, the number of requests in it, the end of a ban) and a clock of
  the last eviction. The table is a \<open>BTreeMap\<close> of the standard library: an association
  list with distinct keys here, whose four operations meet the laws of the locale
  \<open>peer_table\<close>; everything about the limiter is proved from these laws. The sum that sets
  the end of a ban wraps as in the release profile.
\<close>

record rate_limit_config =
  rl_enabled :: bool
  rl_requests :: nat
  rl_window_secs :: nat
  rl_ban_secs :: nat

datatype decision = Allow | Deny nat

record entry =
  window_start :: nat
  entry_count :: nat
  banned_until :: nat

type_synonym peer = bytes

subsection \<open>The table\<close>

type_synonym table = "(peer \<times> entry) list"

fun tbl_get :: "table \<Rightarrow> peer \<Rightarrow> entry option" where
  "tbl_get [] p = None"
| "tbl_get ((k, e) # t) p = (if k = p then Some e else tbl_get t p)"

fun tbl_insert :: "table \<Rightarrow> peer \<Rightarrow> entry \<Rightarrow> table" where
  "tbl_insert [] p e = [(p, e)]"
| "tbl_insert ((k, x) # t) p e = (if k = p then (k, e) # t else (k, x) # tbl_insert t p e)"

definition tbl_retain :: "table \<Rightarrow> (entry \<Rightarrow> bool) \<Rightarrow> table" where
  "tbl_retain t keep = filter (\<lambda>(k, e). keep e) t"

definition tbl_len :: "table \<Rightarrow> nat" where
  "tbl_len t = length t"

definition tbl_ok :: "table \<Rightarrow> bool" where
  "tbl_ok t \<longleftrightarrow> distinct (map fst t)"

locale peer_table =
  fixes get :: "'t \<Rightarrow> peer \<Rightarrow> entry option"
    and insert_entry :: "'t \<Rightarrow> peer \<Rightarrow> entry \<Rightarrow> 't"
    and retain :: "'t \<Rightarrow> (entry \<Rightarrow> bool) \<Rightarrow> 't"
    and len :: "'t \<Rightarrow> nat"
    and ok :: "'t \<Rightarrow> bool"
  assumes get_insert: "ok t \<Longrightarrow> get (insert_entry t p e) q = (if q = p then Some e else get t q)"
    and get_retain: "ok t \<Longrightarrow> get (retain t keep) q =
      (case get t q of None \<Rightarrow> None | Some e \<Rightarrow> if keep e then Some e else None)"
    and len_insert: "ok t \<Longrightarrow> len (insert_entry t p e) = (if get t p = None then len t + 1 else len t)"
    and len_retain: "ok t \<Longrightarrow> len (retain t keep) \<le> len t"
    and ok_insert: "ok t \<Longrightarrow> ok (insert_entry t p e)"
    and ok_retain: "ok t \<Longrightarrow> ok (retain t keep)"
begin

lemma get_insert_retain:
  "ok t \<Longrightarrow> q \<noteq> p \<Longrightarrow> get (insert_entry (retain t keep) p e) q =
     (case get t q of None \<Rightarrow> None | Some x \<Rightarrow> if keep x then Some x else None)"
  by (simp add: get_insert get_retain ok_retain)

lemma len_insert_le: "ok t \<Longrightarrow> len t < m \<or> get t p \<noteq> None \<and> len t \<le> m \<Longrightarrow> len (insert_entry t p e) \<le> m"
  by (auto simp: len_insert)

end

lemma tbl_get_map_of: "tbl_get t p = map_of t p"
  by (induction t p rule: tbl_get.induct) auto

lemma tbl_insert_keys:
  "set (map fst (tbl_insert t p e)) = insert p (set (map fst t))"
  by (induction t p e rule: tbl_insert.induct) auto

interpretation tbl: peer_table tbl_get tbl_insert tbl_retain tbl_len tbl_ok
proof
  fix t :: table and p q e keep
  show "tbl_get (tbl_insert t p e) q = (if q = p then Some e else tbl_get t q)"
    by (induction t p e rule: tbl_insert.induct) auto
  show "tbl_len (tbl_insert t p e) = (if tbl_get t p = None then tbl_len t + 1 else tbl_len t)"
    by (induction t p e rule: tbl_insert.induct) (auto simp: tbl_len_def)
  show "tbl_len (tbl_retain t keep) \<le> tbl_len t"
    by (simp add: tbl_len_def tbl_retain_def)
  assume ok: "tbl_ok t"
  show "tbl_get (tbl_retain t keep) q =
      (case tbl_get t q of None \<Rightarrow> None | Some e \<Rightarrow> if keep e then Some e else None)"
    using ok
  proof (induction t)
    case (Cons x t)
    obtain k e where x: "x = (k, e)" by (cases x)
    have "q \<notin> fst ` set t \<Longrightarrow> tbl_get (filter (\<lambda>(k, e). keep e) t) q = None"
      by (auto simp: tbl_get_map_of map_of_eq_None_iff)
    with Cons x show ?case by (auto simp: tbl_retain_def tbl_ok_def)
  qed (simp add: tbl_retain_def)
  show "tbl_ok (tbl_insert t p e)"
    using ok
  proof (induction t p e rule: tbl_insert.induct)
    case (2 k x t p e)
    then show ?case using tbl_insert_keys[of t p e] by (auto simp: tbl_ok_def)
  qed (simp add: tbl_ok_def)
  show "tbl_ok (tbl_retain t keep)"
    using ok by (simp add: tbl_ok_def tbl_retain_def distinct_map_filter)
qed

subsection \<open>The limiter\<close>

definition MAX_ENTRIES :: nat where "MAX_ENTRIES = 100000"

record rate_limiter =
  rl_config :: rate_limit_config
  rl_entries :: table
  last_evict :: nat

definition rate_limiter_new :: "rate_limit_config \<Rightarrow> rate_limiter" where
  "rate_limiter_new config = \<lparr>rl_config = config, rl_entries = [], last_evict = 0\<rparr>"

definition tick :: "entry \<Rightarrow> rate_limit_config \<Rightarrow> nat \<Rightarrow> decision \<times> entry" where
  "tick e config now =
     (if now < banned_until e then (Deny (banned_until e - now), e)
      else
        let e = (if banned_until e \<noteq> 0 \<or> now - window_start e \<ge> rl_window_secs config
                 then \<lparr>window_start = now, entry_count = 0, banned_until = 0\<rparr> else e);
            e = e\<lparr>entry_count := wrap64 (entry_count e + 1)\<rparr>
        in if entry_count e > rl_requests config then
             (Deny (rl_ban_secs config),
              e\<lparr>banned_until := wrap64 (now + rl_ban_secs config)\<rparr>)
           else (Allow, e))"

definition expired :: "rate_limit_config \<Rightarrow> nat \<Rightarrow> entry \<Rightarrow> bool" where
  "expired config now e \<longleftrightarrow> now \<ge> banned_until e \<and> now - window_start e \<ge> rl_window_secs config"

definition evict_expired :: "rate_limiter \<Rightarrow> nat \<Rightarrow> rate_limiter" where
  "evict_expired l now =
     (if now \<le> last_evict l then l
      else l\<lparr>last_evict := now,
             rl_entries := tbl_retain (rl_entries l) (\<lambda>e. \<not> expired (rl_config l) now e)\<rparr>)"

definition check :: "rate_limiter \<Rightarrow> peer \<Rightarrow> nat \<Rightarrow> decision \<times> rate_limiter" where
  "check l p now =
     (if \<not> rl_enabled (rl_config l) then (Allow, l)
      else case tbl_get (rl_entries l) p of
        Some e \<Rightarrow>
          (case tick e (rl_config l) now of
             (d, e') \<Rightarrow> (d, l\<lparr>rl_entries := tbl_insert (rl_entries l) p e'\<rparr>))
      | None \<Rightarrow>
          let l = (if tbl_len (rl_entries l) \<ge> MAX_ENTRIES then evict_expired l now else l) in
          if tbl_len (rl_entries l) \<ge> MAX_ENTRIES then (Allow, l)
          else (case tick \<lparr>window_start = now, entry_count = 0, banned_until = 0\<rparr> (rl_config l) now of
                  (d, e) \<Rightarrow> (d, l\<lparr>rl_entries := tbl_insert (rl_entries l) p e\<rparr>)))"


subsection \<open>Invariant\<close>

definition limiter_ok :: "rate_limiter \<Rightarrow> bool" where
  "limiter_ok l \<longleftrightarrow> tbl_ok (rl_entries l) \<and> tbl_len (rl_entries l) \<le> MAX_ENTRIES"

lemma evict_ok: "limiter_ok l \<Longrightarrow> limiter_ok (evict_expired l now)"
  using tbl.len_retain[of "rl_entries l"] tbl.ok_retain[of "rl_entries l"]
  by (auto simp: evict_expired_def limiter_ok_def intro: order_trans)

lemma evict_config [simp]: "rl_config (evict_expired l now) = rl_config l"
  by (simp add: evict_expired_def)

lemma insert_ok:
  "limiter_ok l \<Longrightarrow> tbl_len (rl_entries l) < MAX_ENTRIES \<or> tbl_get (rl_entries l) p \<noteq> None \<Longrightarrow>
     limiter_ok (l\<lparr>rl_entries := tbl_insert (rl_entries l) p e\<rparr>)"
  using tbl.len_insert_le[of "rl_entries l" MAX_ENTRIES p e] tbl.ok_insert[of "rl_entries l" p e]
  by (auto simp: limiter_ok_def)

lemma check_ok:
  assumes "limiter_ok l"
  shows "limiter_ok (snd (check l p now))" and "rl_config (snd (check l p now)) = rl_config l"
proof -
  note ins = insert_ok[OF assms, of p] insert_ok[OF evict_ok[OF assms, of now], of p]
  show "limiter_ok (snd (check l p now))"
    using assms evict_ok[OF assms, of now] ins
    by (auto simp: check_def Let_def not_le split: option.splits prod.splits)
  show "rl_config (snd (check l p now)) = rl_config l"
    by (auto simp: check_def Let_def split: option.splits prod.splits)
qed

subsection \<open>Independence of the peers\<close>

text \<open>What one peer should see: its own automaton, started by its first request.\<close>

definition fresh_entry :: "nat \<Rightarrow> entry" where
  "fresh_entry now = \<lparr>window_start = now, entry_count = 0, banned_until = 0\<rparr>"

fun peer_run :: "rate_limit_config \<Rightarrow> entry option \<Rightarrow> nat list \<Rightarrow> decision list" where
  "peer_run config st [] = []"
| "peer_run config st (now # nows) =
     (case tick (case st of Some e \<Rightarrow> e | None \<Rightarrow> fresh_entry now) config now of
        (d, e) \<Rightarrow> d # peer_run config (Some e) nows)"

text \<open>The requests of all peers, in the order they arrive, and the decisions they get.\<close>

fun run_checks :: "rate_limiter \<Rightarrow> (peer \<times> nat) list \<Rightarrow> decision list" where
  "run_checks l [] = []"
| "run_checks l ((p, now) # rs) = (case check l p now of (d, l') \<Rightarrow> d # run_checks l' rs)"

definition decisions_of :: "peer \<Rightarrow> (peer \<times> nat) list \<Rightarrow> decision list \<Rightarrow> decision list" where
  "decisions_of p rs ds = map snd (filter (\<lambda>(r, d). fst r = p) (zip rs ds))"

lemma check_with_room:
  assumes "limiter_ok l" and "rl_enabled (rl_config l)" and "tbl_len (rl_entries l) < MAX_ENTRIES"
    and "tick (case tbl_get (rl_entries l) p of Some e \<Rightarrow> e | None \<Rightarrow> fresh_entry now) (rl_config l) now = (d, e)"
  shows "check l p now = (d, l\<lparr>rl_entries := tbl_insert (rl_entries l) p e\<rparr>)"
  using assms by (auto simp: check_def Let_def fresh_entry_def split: option.splits)

lemma run_checks_per_peer:
  assumes "limiter_ok l" and "rl_enabled (rl_config l)"
    and "tbl_len (rl_entries l) + length rs \<le> MAX_ENTRIES"
  shows "decisions_of p rs (run_checks l rs) =
    peer_run (rl_config l) (tbl_get (rl_entries l) p) (map snd (filter (\<lambda>r. fst r = p) rs))"
  using assms
proof (induction rs arbitrary: l)
  case (Cons r rs)
  obtain q now where r: "r = (q, now)" by (cases r)
  obtain d e where t: "tick (case tbl_get (rl_entries l) q of Some e \<Rightarrow> e | None \<Rightarrow> fresh_entry now)
      (rl_config l) now = (d, e)" by (cases "tick (case tbl_get (rl_entries l) q of Some e \<Rightarrow> e
        | None \<Rightarrow> fresh_entry now) (rl_config l) now")
  define l' where "l' = l\<lparr>rl_entries := tbl_insert (rl_entries l) q e\<rparr>"
  have ok: "tbl_ok (rl_entries l)" using Cons.prems(1) by (simp add: limiter_ok_def)
  have c: "check l q now = (d, l')"
    unfolding l'_def using Cons.prems t by (intro check_with_room) auto
  have "limiter_ok l'" "rl_config l' = rl_config l"
    using check_ok[OF Cons.prems(1), of q now] c by simp_all
  moreover have "tbl_len (rl_entries l') + length rs \<le> MAX_ENTRIES"
    using Cons.prems(3) tbl.len_insert[OF ok, of q e] by (simp add: l'_def split: if_splits)
  ultimately have "decisions_of p rs (run_checks l' rs) =
      peer_run (rl_config l) (tbl_get (rl_entries l') p) (map snd (filter (\<lambda>r. fst r = p) rs))"
    using Cons.IH[of l'] Cons.prems(2) by simp
  then show ?case
    using t c r tbl.get_insert[OF ok] by (cases "q = p") (simp_all add: decisions_of_def l'_def)
qed (simp add: decisions_of_def)

subsection \<open>Windows and bans\<close>

lemma tick_banned: "now < banned_until e \<Longrightarrow> tick e config now = (Deny (banned_until e - now), e)"
  by (simp add: tick_def)

lemma peer_run_banned:
  "\<forall>n \<in> set nows. n < banned_until e \<Longrightarrow>
     peer_run config (Some e) nows = map (\<lambda>n. Deny (banned_until e - n)) nows"
  by (induction nows) (auto simp: tick_banned)

lemma tick_open:
  assumes "banned_until e = 0" and "now - window_start e < rl_window_secs config"
    and "entry_count e < rl_requests config" and "rl_requests config < 2 ^ 64"
  shows "tick e config now = (Allow, e\<lparr>entry_count := Suc (entry_count e)\<rparr>)"
  using assms by (simp add: tick_def Let_def not_le)

lemma tick_over:
  assumes "banned_until e = 0" and "now - window_start e < rl_window_secs config"
    and "entry_count e = rl_requests config" and "rl_requests config < 2 ^ 64 - 1"
  shows "tick e config now = (Deny (rl_ban_secs config),
    e\<lparr>entry_count := Suc (entry_count e), banned_until := wrap64 (now + rl_ban_secs config)\<rparr>)"
  using assms by (simp add: tick_def Let_def not_le)

text \<open>Within one window, the quota is granted first and everything behind it is denied.\<close>

lemma peer_run_window:
  assumes "banned_until e = 0" and "\<forall>n \<in> set nows. window_start e \<le> n \<and> n < window_start e + rl_window_secs config"
    and "entry_count e \<le> rl_requests config" and "rl_requests config < 2 ^ 64 - 1"
    and "rl_window_secs config \<le> rl_ban_secs config"
    and "window_start e + rl_window_secs config + rl_ban_secs config < 2 ^ 64"
  shows "map (\<lambda>d. d = Allow) (peer_run config (Some e) nows) =
    map (\<lambda>i. i < rl_requests config - entry_count e) [0..<length nows]"
  using assms
proof (induction nows arbitrary: e)
  case (Cons n nows)
  have w: "n - window_start e < rl_window_secs config" using Cons.prems(2) by auto
  show ?case
  proof (cases "entry_count e < rl_requests config")
    case True
    define e' where "e' = e\<lparr>entry_count := Suc (entry_count e)\<rparr>"
    have t: "tick e config n = (Allow, e')"
      unfolding e'_def using Cons.prems True w by (intro tick_open) auto
    have "map (\<lambda>d. d = Allow) (peer_run config (Some e') nows) =
        map (\<lambda>i. i < rl_requests config - entry_count e') [0..<length nows]"
      using Cons.prems True by (intro Cons.IH) (auto simp: e'_def)
    also have "\<dots> = map (\<lambda>i. Suc i < rl_requests config - entry_count e) [0..<length nows]"
      using True by (auto simp: e'_def)
    finally show ?thesis
      using t True by (simp add: map_upt_Suc del: upt_Suc)
  next
    case False
    with Cons.prems(3) have c: "entry_count e = rl_requests config" by simp
    define e' where "e' = e\<lparr>entry_count := Suc (entry_count e), banned_until := n + rl_ban_secs config\<rparr>"
    have lt: "n + rl_ban_secs config < 2 ^ 64" using Cons.prems(2,6) by auto
    have t: "tick e config n = (Deny (rl_ban_secs config), e')"
      using tick_over[OF Cons.prems(1) w c Cons.prems(4)] lt by (simp add: e'_def)
    have "peer_run config (Some e') nows = map (\<lambda>n. Deny (banned_until e' - n)) nows"
      using Cons.prems(2,5) by (intro peer_run_banned) (auto simp: e'_def)
    then show ?thesis using t c by (simp add: comp_def map_replicate_const)
  qed
qed simp


lemma tick_deny_ban:
  assumes "tick e config now = (Deny k, e')" and "now + rl_ban_secs config < 2 ^ 64"
  shows "banned_until e' = now + k"
  using assms by (auto simp: tick_def Let_def split: if_splits)

lemma tick_after_ban:
  assumes "banned_until e \<noteq> 0" and "banned_until e \<le> now" and "1 \<le> rl_requests config"
  shows "fst (tick e config now) = Allow"
  using assms by (simp add: tick_def Let_def)

subsection \<open>Properties\<close>

text \<open>C21: The table stays bounded and consistent: whatever peers send requests at whatever
  times, the table of a limiter holds at most \<open>MAX_ENTRIES\<close> entries, one for each peer.\<close>

theorem limiter_table_bounded:
  "tbl_len (rl_entries (foldl (\<lambda>l (p, now). snd (check l p now)) (rate_limiter_new config) rs)) \<le> MAX_ENTRIES \<and>
   tbl_ok (rl_entries (foldl (\<lambda>l (p, now). snd (check l p now)) (rate_limiter_new config) rs))"
proof -
  have "limiter_ok (foldl (\<lambda>l (p, now). snd (check l p now)) l rs)" if "limiter_ok l" for l
    using that by (induction rs arbitrary: l) (auto simp: check_ok)
  moreover have "limiter_ok (rate_limiter_new config)"
    by (simp add: limiter_ok_def rate_limiter_new_def tbl_ok_def tbl_len_def)
  ultimately show ?thesis by (auto simp: limiter_ok_def)
qed


definition sample_limit :: rate_limit_config where
  "sample_limit = \<lparr>rl_enabled = True, rl_requests = 1, rl_window_secs = 10, rl_ban_secs = 60\<rparr>"


text \<open>The quota of a window is exact: of the requests a peer sends in a window that starts
  with its first one, the first \<open>requests\<close> are allowed and all others denied, when a ban
  lasts at least as long as a window.\<close>

theorem window_quota_exact:
  assumes "\<forall>n \<in> set nows. t \<le> n \<and> n < t + rl_window_secs config"
    and "rl_requests config < 2 ^ 64 - 1" and "rl_window_secs config \<le> rl_ban_secs config"
    and "t + rl_window_secs config + rl_ban_secs config < 2 ^ 64"
  shows "map (\<lambda>d. d = Allow) (peer_run config (Some (fresh_entry t)) nows) =
    map (\<lambda>i. i < rl_requests config) [0..<length nows]"
  using peer_run_window[of "fresh_entry t" nows config] assms by (simp add: fresh_entry_def)

lemma window_quota_exact_witness:
  "map (\<lambda>d. d = Allow) (peer_run sample_limit (Some (fresh_entry 100)) [100, 103, 109]) =
     [True, False, False]"
  using window_quota_exact[of "[100, 103, 109]" 100 sample_limit]
  by (simp add: sample_limit_def upt_rec)

text \<open>\<open>Retry-After\<close> is honest: after a denial with \<open>k\<close> seconds, every request of the
  peer before these have passed is denied with the time that remains, and the first one after
  them is allowed.\<close>

theorem retry_after_exact:
  assumes "tick e config now = (Deny k, e')" and "0 < k" and "now + rl_ban_secs config < 2 ^ 64"
    and "1 \<le> rl_requests config"
  shows "(\<forall>t. now \<le> t \<and> t < now + k \<longrightarrow> tick e' config t = (Deny (now + k - t), e')) \<and>
    (\<forall>t. now + k \<le> t \<longrightarrow> fst (tick e' config t) = Allow)"
  using tick_deny_ban[OF assms(1,3)] tick_banned[of _ e' config] tick_after_ban[of e' _ config] assms(2,4)
  by auto

lemma retry_after_exact_witness:
  "tick \<lparr>window_start = 5, entry_count = 2, banned_until = 66\<rparr> sample_limit 30 =
     (Deny 36, \<lparr>window_start = 5, entry_count = 2, banned_until = 66\<rparr>)"
proof -
  have "tick \<lparr>window_start = 5, entry_count = 1, banned_until = 0\<rparr> sample_limit 6 =
      (Deny 60, \<lparr>window_start = 5, entry_count = 2, banned_until = 66\<rparr>)"
    by (simp add: tick_def sample_limit_def Let_def wrap64_def)
  from retry_after_exact[OF this] show ?thesis by (simp add: sample_limit_def)
qed

text \<open>A ban that is too long is no ban: with \<open>ban_secs\<close> at the largest \<open>u64\<close>, which
  a configuration may set, the sum that ends the ban wraps to the past, so the request right
  after the ban is allowed.\<close>

theorem huge_ban_ineffective:
  assumes "tick e config now = (Deny k, e')" and "\<not> now < banned_until e"
    and "rl_ban_secs config = U64_MAX" and "2 \<le> now" and "now < 2 ^ 64" and "1 \<le> rl_requests config"
  shows "fst (tick e' config now) = Allow"
proof -
  have "wrap64 (now + U64_MAX) = now - 1"
  proof -
    have "now + U64_MAX = (now - 1) + 2 ^ 64" using assms(4) by (simp add: U64_MAX_def)
    then show ?thesis using assms(5) by (simp add: wrap64_def)
  qed
  then have "banned_until e' = now - 1"
    using assms(1-3) by (auto simp: tick_def Let_def split: if_splits)
  then show ?thesis using assms(4,6) by (intro tick_after_ban) auto
qed

lemma huge_ban_ineffective_witness:
  "fst (tick \<lparr>window_start = 5, entry_count = 2, banned_until = 5\<rparr>
     (sample_limit\<lparr>rl_ban_secs := U64_MAX\<rparr>) 6) = Allow"
proof -
  have "tick \<lparr>window_start = 5, entry_count = 1, banned_until = 0\<rparr> (sample_limit\<lparr>rl_ban_secs := U64_MAX\<rparr>) 6 =
      (Deny U64_MAX, \<lparr>window_start = 5, entry_count = 2, banned_until = 5\<rparr>)"
    by (simp add: tick_def sample_limit_def Let_def wrap64_def U64_MAX_def)
  then show ?thesis
    by (rule huge_ban_ineffective) (simp_all add: sample_limit_def)
qed

end
