(* ===== verification/Float64.thy ===== *)
theory Float64
  imports Numerals
begin

section \<open>Binary64 numbers, as far as JSON numbers need them\<close>

text \<open>
  A JSON number is an \<open>f64\<close> in the code, built by \<open>str::parse\<close> (the decimal value,
  correctly rounded, ties to even) and only read by \<open>as_u64\<close>. A finite number is its sign,
  its integer significand and the exponent of two; its value is significand times two to the
  exponent. The rounding is written out in integer arithmetic: the binary exponent is chosen
  so that the significand has 53 bits, but never below -1074, and a magnitude that needs an
  exponent above 971 is infinite.
\<close>

datatype f64 = Finite bool nat int | Infinite bool

fun ilog2 :: "nat \<Rightarrow> nat" where
  "ilog2 n = (if n < 2 then 0 else Suc (ilog2 (n div 2)))"

declare ilog2.simps [simp del]

text \<open>The floor of the binary logarithm of the fraction \<open>n / d\<close>.\<close>

definition flog2 :: "nat \<Rightarrow> nat \<Rightarrow> int" where
  "flog2 n d =
     (if d \<le> n then int (ilog2 (n div d))
      else - int (Suc (ilog2 ((d + n - 1) div n - 1))))"

definition round_half_even :: "nat \<Rightarrow> nat \<Rightarrow> nat" where
  "round_half_even n d =
     (let q = n div d; r = n mod d in
      if 2 * r < d then q else if 2 * r > d then q + 1 else if even q then q else q + 1)"

definition round_f64 :: "bool \<Rightarrow> nat \<Rightarrow> nat \<Rightarrow> f64" where
  "round_f64 neg n d =
     (if n = 0 then Finite neg 0 (-1074)
      else
        let e = max (-1074) (flog2 n d - 52);
            m = (if 0 \<le> e then round_half_even n (d * 2 ^ nat e)
                 else round_half_even (n * 2 ^ nat (- e)) d)
        in if m = 2 ^ 53 then (if e + 1 > 971 then Infinite neg else Finite neg (2 ^ 52) (e + 1))
           else if e > 971 then Infinite neg else Finite neg m e)"

text \<open>
  \<open>str::parse::<f64>\<close> on the texts the JSON parser passes to it: an optional sign,
  digits, an optional fraction and an optional exponent.
\<close>

definition f64_exponent :: "bytes \<Rightarrow> int option" where
  "f64_exponent t =
     (case t of
        [] \<Rightarrow> Some 0
      | c # r \<Rightarrow>
          if c = CHR ''e'' \<or> c = CHR ''E'' then
            (case r of
               [] \<Rightarrow> None
             | s # ds \<Rightarrow>
                 if s = CHR ''-'' then map_option (\<lambda>n. - int n) (parse_digits ds)
                 else if s = CHR ''+'' then map_option int (parse_digits ds)
                 else map_option int (parse_digits r))
          else None)"

definition parse_f64 :: "bytes \<Rightarrow> f64 option" where
  "parse_f64 text =
     (let (neg, t) = (case text of [] \<Rightarrow> (False, text)
                      | c # r \<Rightarrow> if c = CHR ''-'' then (True, r) else (False, text));
          ip = takeWhile is_ascii_digit t; r1 = dropWhile is_ascii_digit t;
          (fp, r2) = (case r1 of [] \<Rightarrow> ([], r1)
                      | c # r \<Rightarrow> if c = CHR ''.'' then (takeWhile is_ascii_digit r, dropWhile is_ascii_digit r)
                                 else ([], r1))
      in if ip = [] then None
         else (case f64_exponent r2 of
                 None \<Rightarrow> None
               | Some ex \<Rightarrow>
                   let digits = dec_value (ip @ fp); scale = ex - int (length fp) in
                   Some (if 0 \<le> scale then round_f64 neg (digits * 10 ^ nat scale) 1
                         else round_f64 neg digits (10 ^ nat (- scale)))))"

text \<open>
  \<open>n as u64\<close> (truncation, saturating) and \<open>u as f64\<close>, and the comparisons of the
  source, exact on values.
\<close>

definition f64_of_u64 :: "nat \<Rightarrow> f64" where
  "f64_of_u64 u = round_f64 False u 1"

definition scaled :: "nat \<Rightarrow> int \<Rightarrow> nat \<times> nat" where
  "scaled m e = (if 0 \<le> e then (m * 2 ^ nat e, 1) else (m, 2 ^ nat (- e)))"

text \<open>The value of a nonnegative finite number as a fraction; \<open>None\<close> for all others.\<close>

definition f64_fraction :: "f64 \<Rightarrow> (nat \<times> nat) option" where
  "f64_fraction x =
     (case x of
        Infinite _ \<Rightarrow> None
      | Finite neg m e \<Rightarrow> if neg \<and> m \<noteq> 0 then None else Some (scaled m e))"

definition f64_as_u64 :: "f64 \<Rightarrow> nat option" where
  "f64_as_u64 x =
     (case f64_fraction x of
        None \<Rightarrow> None
      | Some (n, d) \<Rightarrow>
          if n \<le> 2 ^ 64 * d then
            let truncated = min U64_MAX (n div d) in
            (case f64_fraction (f64_of_u64 truncated) of
               None \<Rightarrow> None
             | Some (n', d') \<Rightarrow> if n' * d = n * d' then Some truncated else None)
          else None)"

subsection \<open>Integers below two to the 53 are exact\<close>

lemma ilog2_less: "n < 2 ^ Suc k \<Longrightarrow> ilog2 n \<le> k"
proof (induction k arbitrary: n)
  case 0
  then show ?case by (simp add: ilog2.simps)
next
  case (Suc k)
  then have "n div 2 < 2 ^ Suc k" by simp
  from Suc.IH[OF this] show ?case by (subst ilog2.simps) simp
qed

lemma ilog2_bounds: "0 < n \<Longrightarrow> 2 ^ ilog2 n \<le> n \<and> n < 2 ^ Suc (ilog2 n)"
proof (induction n rule: ilog2.induct)
  case (1 n)
  show ?case
  proof (cases "n < 2")
    case True
    with 1 show ?thesis by (simp add: ilog2.simps)
  next
    case False
    with 1 have "2 ^ ilog2 (n div 2) \<le> n div 2 \<and> n div 2 < 2 ^ Suc (ilog2 (n div 2))" by simp
    then have "2 * 2 ^ ilog2 (n div 2) \<le> n" "n < 2 * 2 ^ Suc (ilog2 (n div 2))" by linarith+
    with False show ?thesis by (simp add: ilog2.simps[of n])
  qed
qed

lemma round_half_even_1 [simp]: "round_half_even n (Suc 0) = n"
  by (simp add: round_half_even_def)

lemma round_f64_int:
  assumes "n < 2 ^ 53"
  obtains m k where "round_f64 neg n 1 = Finite neg m (- int k)" "m = n * 2 ^ k"
proof (cases "n = 0")
  case True
  then show thesis by (intro that[of 0 1074]) (simp_all add: round_f64_def)
next
  case False
  define k where "k = 52 - ilog2 n"
  have l: "ilog2 n \<le> 52" using assms by (intro ilog2_less) simp
  have b: "n < 2 ^ Suc (ilog2 n)" using ilog2_bounds[of n] False by simp
  have "n * 2 ^ k < 2 ^ Suc (ilog2 n) * 2 ^ k" using b by simp
  also have "\<dots> = 2 ^ 53" unfolding k_def using l by (simp flip: power_add power_Suc)
  finally have lt: "n * 2 ^ k < 2 ^ 53" .
  have fl: "flog2 n 1 - 52 = - int k" using False l by (simp add: flog2_def k_def)
  have mx: "max (- 1074) (- int k) = - int k" using l by (simp add: k_def)
  have "round_f64 neg n 1 = Finite neg (n * 2 ^ k) (- int k)"
    unfolding round_f64_def fl Let_def mx
    using False lt by (cases "k = 0") simp_all
  then show thesis by (rule that) simp
qed

lemma f64_fraction_int:
  assumes "n < 2 ^ 53"
  obtains k where "f64_fraction (round_f64 False n 1) = Some (n * 2 ^ k, 2 ^ k)"
proof -
  from round_f64_int[OF assms] obtain m k where
    r: "round_f64 False n 1 = Finite False m (- int k)" "m = n * 2 ^ k" .
  show thesis
    by (rule that[of k], subst r(1)) (cases "k = 0"; simp add: r(2) f64_fraction_def scaled_def)
qed

lemma f64_as_u64_int:
  assumes "n < 2 ^ 53"
  shows "f64_as_u64 (round_f64 False n 1) = Some n"
proof -
  from f64_fraction_int[OF assms] obtain k
    where f: "f64_fraction (round_f64 False n 1) = Some (n * 2 ^ k, 2 ^ k)" .
  have le: "n * 2 ^ k \<le> 2 ^ 64 * 2 ^ k" using assms by simp
  have t: "min U64_MAX (n * 2 ^ k div 2 ^ k) = n" using assms by (simp add: U64_MAX_def)
  show ?thesis
    unfolding f64_as_u64_def f option.case prod.case if_P[OF le] Let_def t f64_of_u64_def by simp
qed

lemma parse_f64_show: "parse_f64 (show_nat n) = Some (round_f64 False n 1)"
proof -
  have d: "\<forall>c \<in> set (show_nat n). is_ascii_digit c" using show_nat_digits by blast
  have tw: "takeWhile is_ascii_digit (show_nat n) = show_nat n"
    "dropWhile is_ascii_digit (show_nat n) = []"
    using d by (simp_all add: takeWhile_eq_all_conv dropWhile_eq_Nil_conv)
  obtain c r where s: "show_nat n = c # r" "c \<noteq> CHR ''-''"
    using digits_hd[of "show_nat n"] d by (metis show_nat_not_Nil)
  then have sg: "(case show_nat n of [] \<Rightarrow> (False, show_nat n)
      | c # r \<Rightarrow> if c = CHR ''-'' then (True, r) else (False, show_nat n)) = (False, show_nat n)" by simp
  show ?thesis
    unfolding parse_f64_def sg Let_def prod.case tw
    by (simp add: f64_exponent_def)
qed

end
