(* ===== verification/Json.thy ===== *)
theory Json
  imports Float64
begin

section \<open>The JSON parser\<close>

text \<open>
  \<open>crates/core/src/json.rs\<close>. The parser of the code is a byte slice with a position;
  here its state is the rest of the input from that position, and the position of an error is
  kept as the number of bytes that are left, from which \<open>json_parse\<close> computes the offset.
  \<open>parse_value\<close>, the member loop and the element loop are mutually recursive as in the
  source; they terminate because every value takes at least one byte, which the
  termination proof shows first on the domain of the recursion.
\<close>

definition MAX_DEPTH :: nat where "MAX_DEPTH = 64"

datatype json_value =
  JNull
| JBool bool
| JNumber f64
| JString bytes
| JArray "json_value list"
| JObject "(bytes \<times> json_value) list"

fun json_get :: "json_value \<Rightarrow> bytes \<Rightarrow> json_value option" where
  "json_get (JObject members) key = map_option snd (find (\<lambda>(k, _). k = key) members)"
| "json_get _ key = None"

fun as_bool :: "json_value \<Rightarrow> bool option" where
  "as_bool (JBool b) = Some b"
| "as_bool _ = None"

fun as_str :: "json_value \<Rightarrow> bytes option" where
  "as_str (JString s) = Some s"
| "as_str _ = None"

fun as_array :: "json_value \<Rightarrow> json_value list option" where
  "as_array (JArray items) = Some items"
| "as_array _ = None"

fun as_u64 :: "json_value \<Rightarrow> nat option" where
  "as_u64 (JNumber n) = f64_as_u64 n"
| "as_u64 _ = None"

datatype json_error_kind =
  UnexpectedEnd | UnexpectedByte | InvalidNumber | InvalidString | InvalidEscape | InvalidUnicode
| DepthExceeded | TrailingData

record json_error =
  err_kind :: json_error_kind
  err_offset :: nat

type_synonym 'a jres = "(json_error_kind \<times> nat) + 'a"

abbreviation fail :: "json_error_kind \<Rightarrow> bytes \<Rightarrow> 'a jres" where
  "fail kind rest \<equiv> Inl (kind, length rest)"

subsection \<open>Tokens\<close>

definition is_ws :: "char \<Rightarrow> bool" where
  "is_ws b \<longleftrightarrow> b = CHR '' '' \<or> b = HTAB \<or> b = LF \<or> b = CR"

definition skip_ws :: "bytes \<Rightarrow> bytes" where
  "skip_ws rest = dropWhile is_ws rest"

definition peek_is :: "char \<Rightarrow> bytes \<Rightarrow> bool" where
  "peek_is b rest \<longleftrightarrow> (case rest of [] \<Rightarrow> False | c # _ \<Rightarrow> c = b)"

definition json_expect :: "char \<Rightarrow> bytes \<Rightarrow> bytes jres" where
  "json_expect b rest =
     (if peek_is b rest then Inr (tl rest)
      else if rest = [] then fail UnexpectedEnd rest
      else fail UnexpectedByte rest)"

fun read_hex :: "nat \<Rightarrow> nat \<Rightarrow> bytes \<Rightarrow> (nat \<times> bytes) jres" where
  "read_hex 0 value rest = Inr (value, rest)"
| "read_hex (Suc n) value [] = fail UnexpectedEnd []"
| "read_hex (Suc n) value (b # r) =
     (case hex_digit_val b of
        None \<Rightarrow> fail InvalidUnicode (b # r)
      | Some digit \<Rightarrow> read_hex n (value * 16 + digit) r)"

definition read_hex4 :: "bytes \<Rightarrow> (nat \<times> bytes) jres" where
  "read_hex4 rest = read_hex 4 0 rest"

text \<open>\<open>String::push\<close> of a scalar value: its UTF-8 encoding.\<close>

definition utf8_encode :: "nat \<Rightarrow> bytes" where
  "utf8_encode u =
     (if u < 128 then [char_of u]
      else if u < 2048 then [char_of (192 + u div 64), char_of (128 + u mod 64)]
      else if u < 65536 then
        [char_of (224 + u div 4096), char_of (128 + u div 64 mod 64), char_of (128 + u mod 64)]
      else
        [char_of (240 + u div 262144), char_of (128 + u div 4096 mod 64),
         char_of (128 + u div 64 mod 64), char_of (128 + u mod 64)])"

definition parse_unicode_escape :: "bytes \<Rightarrow> (bytes \<times> bytes) jres" where
  "parse_unicode_escape rest =
     (case read_hex4 rest of
        Inl e \<Rightarrow> Inl e
      | Inr (hex, r1) \<Rightarrow>
          if 0xD800 \<le> hex \<and> hex \<le> 0xDBFF then
            (if \<not> peek_is BACKSLASH r1 then fail InvalidUnicode r1
             else let r2 = tl r1 in
               if \<not> peek_is (CHR ''u'') r2 then fail InvalidUnicode r2
               else (case read_hex4 (tl r2) of
                       Inl e \<Rightarrow> Inl e
                     | Inr (low, r3) \<Rightarrow>
                         if \<not> (0xDC00 \<le> low \<and> low \<le> 0xDFFF) then fail InvalidUnicode r3
                         else Inr (utf8_encode (0x10000 + (hex - 0xD800) * 1024 + (low - 0xDC00)), r3)))
          else if 0xDC00 \<le> hex \<and> hex \<le> 0xDFFF then fail InvalidUnicode r1
          else Inr (utf8_encode hex, r1))"

definition parse_escape :: "bytes \<Rightarrow> (bytes \<times> bytes) jres" where
  "parse_escape rest =
     (case rest of
        [] \<Rightarrow> fail UnexpectedEnd rest
      | e # r \<Rightarrow>
          if e = DQUOTE then Inr ([DQUOTE], r)
          else if e = BACKSLASH then Inr ([BACKSLASH], r)
          else if e = CHR ''/'' then Inr (''/'', r)
          else if e = CHR ''b'' then Inr ([CHR 0x08], r)
          else if e = CHR ''f'' then Inr ([CHR 0x0C], r)
          else if e = CHR ''n'' then Inr ([LF], r)
          else if e = CHR ''r'' then Inr ([CR], r)
          else if e = CHR ''t'' then Inr ([HTAB], r)
          else if e = CHR ''u'' then parse_unicode_escape r
          else fail InvalidEscape r)"

definition utf8_len :: "char \<Rightarrow> nat" where
  "utf8_len lead =
     (if byte_in 0x00 0x7F lead then 1
      else if byte_in 0xC0 0xDF lead then 2
      else if byte_in 0xE0 0xEF lead then 3
      else if byte_in 0xF0 0xF7 lead then 4
      else 0)"

lemma read_hex_length: "read_hex n v r = Inr (w, r') \<Longrightarrow> length r' \<le> length r"
  by (induction n v r rule: read_hex.induct) (auto split: option.splits)

lemma parse_escape_length:
  assumes "parse_escape r = Inr (s, r')"
  shows "length r' < length r"
proof -
  obtain e r1 where r: "r = e # r1" using assms by (cases r) (auto simp: parse_escape_def)
  have tl: "length (tl x) \<le> length x" for x :: bytes by simp
  have u: "length r' \<le> length r1" if "parse_unicode_escape r1 = Inr (s, r')"
  proof -
    from that obtain h r2 where h: "read_hex4 r1 = Inr (h, r2)"
      by (auto simp: parse_unicode_escape_def split: sum.splits)
    then have "length r2 \<le> length r1" by (simp add: read_hex4_def read_hex_length)
    moreover have "length r' \<le> length r2"
    proof (cases "r' = r2")
      case False
      with that h obtain l where "read_hex4 (tl (tl r2)) = Inr (l, r')"
        by (auto simp: parse_unicode_escape_def Let_def split: sum.splits if_splits)
      then have "length r' \<le> length (tl (tl r2))" unfolding read_hex4_def by (rule read_hex_length)
      then show ?thesis by simp
    qed simp
    ultimately show ?thesis by simp
  qed
  show ?thesis using assms u by (auto simp: parse_escape_def r split: if_splits)
qed

function string_loop :: "bytes \<Rightarrow> bytes \<Rightarrow> (bytes \<times> bytes) jres" where
  "string_loop [] out = fail UnexpectedEnd []"
| "string_loop (b # r) out =
     (if b = DQUOTE then Inr (out, r)
      else if b = BACKSLASH then
        (case parse_escape r of Inl e \<Rightarrow> Inl e | Inr (s, r') \<Rightarrow> string_loop r' (out @ s))
      else if byte_val b \<le> 0x1F then fail InvalidString r
      else let len = utf8_len b in
        if len = 0 \<or> length (b # r) < len then fail InvalidString r
        else let chunk = take len (b # r) in
          if \<not> utf8_valid chunk then fail InvalidString r
          else string_loop (drop len (b # r)) (out @ chunk))"
  by pat_completeness auto
termination
  by (relation "measure (\<lambda>(r, out). length r)") (auto dest: parse_escape_length)

declare string_loop.simps(2) [simp del]

definition parse_string :: "bytes \<Rightarrow> (bytes \<times> bytes) jres" where
  "parse_string rest =
     (case json_expect DQUOTE rest of Inl e \<Rightarrow> Inl e | Inr r \<Rightarrow> string_loop r [])"

definition parse_bool :: "bytes \<Rightarrow> (json_value \<times> bytes) jres" where
  "parse_bool rest =
     (if starts_with ''true'' rest then Inr (JBool True, drop 4 rest)
      else if starts_with ''false'' rest then Inr (JBool False, drop 5 rest)
      else fail UnexpectedByte rest)"

definition parse_null :: "bytes \<Rightarrow> (json_value \<times> bytes) jres" where
  "parse_null rest =
     (if starts_with ''null'' rest then Inr (JNull, drop 4 rest) else fail UnexpectedByte rest)"

definition consume_digits :: "bytes \<Rightarrow> bytes jres" where
  "consume_digits rest =
     (let r = dropWhile is_ascii_digit rest in
      if length r = length rest then fail InvalidNumber rest else Inr r)"

definition parse_number :: "bytes \<Rightarrow> (json_value \<times> bytes) jres" where
  "parse_number rest =
     (let r0 = (if peek_is (CHR ''-'') rest then tl rest else rest) in
      case consume_digits r0 of
        Inl e \<Rightarrow> Inl e
      | Inr r1 \<Rightarrow>
          (case (if peek_is (CHR ''.'') r1 then consume_digits (tl r1) else Inr r1) of
             Inl e \<Rightarrow> Inl e
           | Inr r2 \<Rightarrow>
               (case (if peek_is (CHR ''e'') r2 \<or> peek_is (CHR ''E'') r2 then
                        (let r = tl r2 in
                         consume_digits (if peek_is (CHR ''+'') r \<or> peek_is (CHR ''-'') r then tl r else r))
                      else Inr r2) of
                  Inl e \<Rightarrow> Inl e
                | Inr r3 \<Rightarrow>
                    (case parse_f64 (take (length rest - length r3) rest) of
                       None \<Rightarrow> fail InvalidNumber rest
                     | Some n \<Rightarrow> Inr (JNumber n, r3)))))"

lemma skip_ws_length: "length (skip_ws r) \<le> length r"
  by (simp add: skip_ws_def length_dropWhile_le)

lemma string_loop_length: "string_loop r out = Inr (s, r') \<Longrightarrow> length r' < length r"
proof (induction r out rule: string_loop.induct)
  case (2 b r out)
  show ?case
  proof (cases "b = DQUOTE \<or> b = BACKSLASH")
    case True
    with "2.prems" "2.IH"(1) show ?thesis
      by (auto simp: string_loop.simps(2) dest!: parse_escape_length split: sum.splits if_splits) force
  next
    case False
    with "2.prems" have l: "\<not> byte_val b \<le> 31" "\<not> (utf8_len b = 0 \<or> length (b # r) < utf8_len b)"
      "utf8_valid (take (utf8_len b) (b # r))"
      "string_loop (drop (utf8_len b) (b # r)) (out @ take (utf8_len b) (b # r)) = Inr (s, r')"
      by (auto simp: string_loop.simps(2) Let_def split: if_splits)
    then have "length r' < length (drop (utf8_len b) (b # r))"
      using False by (intro "2.IH"(2)) auto
    then show ?thesis by simp
  qed
qed simp

lemma parse_string_length: "parse_string r = Inr (s, r') \<Longrightarrow> length r' < length r"
  using string_loop_length[of "tl r" "[]" s r']
  by (auto simp: parse_string_def json_expect_def split: if_splits)

lemma consume_digits_length: "consume_digits r = Inr r' \<Longrightarrow> length r' < length r"
  using length_dropWhile_le[of is_ascii_digit r]
  by (auto simp: consume_digits_def Let_def split: if_splits)


lemma parse_number_length: "parse_number r = Inr (v, r') \<Longrightarrow> length r' < length r"
proof -
  assume "parse_number r = Inr (v, r')"
  then obtain r1 r2 where
    1: "consume_digits (if peek_is (CHR ''-'') r then tl r else r) = Inr r1" and
    2: "(if peek_is (CHR ''.'') r1 then consume_digits (tl r1) else Inr r1) = Inr r2" and
    3: "(if peek_is (CHR ''e'') r2 \<or> peek_is (CHR ''E'') r2 then
           (let q = tl r2 in consume_digits (if peek_is (CHR ''+'') q \<or> peek_is (CHR ''-'') q then tl q else q))
         else Inr r2) = Inr r'"
    by (auto simp: parse_number_def Let_def split: sum.splits option.splits)
  have tl: "length (tl x) \<le> length x" for x :: bytes by simp
  have "length r1 < length r"
    using consume_digits_length[OF 1] tl[of r] by (auto split: if_splits)
  moreover have "length r2 \<le> length r1"
    using 2 tl[of r1] consume_digits_length[of "tl r1" r2] by (auto split: if_splits)
  moreover have "length r' \<le> length r2"
    using 3 tl[of r2] tl[of "tl r2"] consume_digits_length[of "tl r2" r'] consume_digits_length[of "tl (tl r2)" r']
    by (auto simp: Let_def split: if_splits)
  ultimately show ?thesis by simp
qed

subsection \<open>Values\<close>

lemma drop_length_less: "rest \<noteq> [] \<Longrightarrow> 0 < n \<Longrightarrow> length (drop n rest) < length rest"
  by simp

lemma parse_bool_length: "parse_bool r = Inr (v, r') \<Longrightarrow> length r' < length r"
  by (cases r) (auto simp: parse_bool_def starts_with_def split: if_splits)

lemma parse_null_length: "parse_null r = Inr (v, r') \<Longrightarrow> length r' < length r"
  by (cases r) (auto simp: parse_null_def starts_with_def split: if_splits)

lemma skip_ws_Cons_length: "skip_ws r = c # r' \<Longrightarrow> length r' < length r"
  using skip_ws_length[of r] by simp

lemma json_expect_length: "json_expect b r = Inr r' \<Longrightarrow> length r' < length r"
  by (cases r) (auto simp: json_expect_def peek_is_def split: if_splits)

text \<open>
  The members of an object and the elements of an array, from the first one on, with those
  read so far; \<open>depth\<close> is the depth of the enclosing value. For the termination, that a value
  takes at least one byte is proved first on the domain of the recursion.
\<close>

function (domintros) parse_value :: "nat \<Rightarrow> bytes \<Rightarrow> (json_value \<times> bytes) jres"
  and parse_members :: "nat \<Rightarrow> bytes \<Rightarrow> (bytes \<times> json_value) list \<Rightarrow> (json_value \<times> bytes) jres"
  and parse_elements :: "nat \<Rightarrow> bytes \<Rightarrow> json_value list \<Rightarrow> (json_value \<times> bytes) jres" where
  "parse_value depth rest =
     (case rest of
        [] \<Rightarrow> fail UnexpectedEnd rest
      | b # r \<Rightarrow>
          if b = CHR ''{'' then
            (if depth + 1 > MAX_DEPTH then fail DepthExceeded rest
             else let r1 = skip_ws r in
               if peek_is (CHR ''}'') r1 then Inr (JObject [], tl r1)
               else parse_members depth r1 [])
          else if b = CHR ''['' then
            (if depth + 1 > MAX_DEPTH then fail DepthExceeded rest
             else let r1 = skip_ws r in
               if peek_is (CHR '']'') r1 then Inr (JArray [], tl r1)
               else parse_elements depth r1 [])
          else if b = DQUOTE then
            (case parse_string rest of Inl e \<Rightarrow> Inl e | Inr (s, r') \<Rightarrow> Inr (JString s, r'))
          else if b = CHR ''t'' \<or> b = CHR ''f'' then parse_bool rest
          else if b = CHR ''n'' then parse_null rest
          else if b = CHR ''-'' \<or> is_ascii_digit b then parse_number rest
          else fail UnexpectedByte rest)"
| "parse_members depth rest members =
     (let r0 = skip_ws rest in
      if \<not> peek_is DQUOTE r0 then fail UnexpectedByte r0
      else (case parse_string r0 of
        Inl e \<Rightarrow> Inl e
      | Inr (key, r1) \<Rightarrow>
          (case json_expect (CHR '':'') (skip_ws r1) of
             Inl e \<Rightarrow> Inl e
           | Inr r2 \<Rightarrow>
               (case parse_value (depth + 1) (skip_ws r2) of
                  Inl e \<Rightarrow> Inl e
                | Inr (value, r3) \<Rightarrow>
                    (case skip_ws r3 of
                       [] \<Rightarrow> fail UnexpectedEnd []
                     | c # r4 \<Rightarrow>
                         if c = CHR '','' then parse_members depth r4 (members @ [(key, value)])
                         else if c = CHR ''}'' then Inr (JObject (members @ [(key, value)]), r4)
                         else fail UnexpectedByte (c # r4))))))"
| "parse_elements depth rest items =
     (case parse_value (depth + 1) (skip_ws rest) of
        Inl e \<Rightarrow> Inl e
      | Inr (value, r3) \<Rightarrow>
          (case skip_ws r3 of
             [] \<Rightarrow> fail UnexpectedEnd []
           | c # r4 \<Rightarrow>
               if c = CHR '','' then parse_elements depth r4 (items @ [value])
               else if c = CHR '']'' then Inr (JArray (items @ [value]), r4)
               else fail UnexpectedByte (c # r4)))"
  by pat_completeness auto

termination
proof -
  have progress:
    "parse_value_parse_members_parse_elements_dom (Inl (d, r)) \<Longrightarrow> parse_value d r = Inr (v, r') \<Longrightarrow> length r' < length r"
    and "parse_value_parse_members_parse_elements_dom (Inr (Inl (d, r, ms))) \<Longrightarrow> parse_members d r ms = Inr (v, r') \<Longrightarrow> length r' < length r"
    and "parse_value_parse_members_parse_elements_dom (Inr (Inr (d, r, es))) \<Longrightarrow> parse_elements d r es = Inr (v, r') \<Longrightarrow> length r' < length r"
    for d :: nat and r r' :: bytes and v :: json_value and ms es
  proof (induction d r and d r ms and d r es arbitrary: v r' and v r' and v r' rule: parse_value_parse_members_parse_elements.pinduct)
    case (1 depth rest)
    show ?case
    proof (cases rest)
      case Nil
      with 1 show ?thesis by (simp add: parse_value.psimps)
    next
      case (Cons b r)
      have le: "length (skip_ws r) < length rest" "length (tl (skip_ws r)) < length rest"
        using skip_ws_length[of r] Cons by auto
      note eq = "1.prems"[unfolded parse_value.psimps[OF "1.hyps"] Let_def, unfolded Cons list.case, folded Cons]
      consider (object) "b = CHR ''{''" | (array) "b = CHR ''[''" | (string) "b = DQUOTE"
        | (bool) "b = CHR ''t'' \<or> b = CHR ''f''" | (null) "b = CHR ''n''"
        | (other) "b \<notin> {CHR ''{'', CHR ''['', DQUOTE, CHR ''t'', CHR ''f'', CHR ''n''}" by blast
      then show ?thesis
      proof cases
        case object
        show ?thesis
        proof (cases "peek_is (CHR ''}'') (skip_ws r)")
          case True
          with eq object le show ?thesis by (auto split: if_splits)
        next
          case False
          with eq object have d: "\<not> depth + 1 > MAX_DEPTH" "parse_members depth (skip_ws r) [] = Inr (v, r')"
            by (simp_all split: if_splits)
          from "1.IH"(1)[OF Cons object d(1) refl False d(2)] le show ?thesis by simp
        qed
      next
        case array
        then have nb: "b \<noteq> CHR ''{''" by simp
        show ?thesis
        proof (cases "peek_is (CHR '']'') (skip_ws r)")
          case True
          with eq array le show ?thesis by (auto split: if_splits)
        next
          case False
          with eq array have d: "\<not> depth + 1 > MAX_DEPTH" "parse_elements depth (skip_ws r) [] = Inr (v, r')"
            by (simp_all split: if_splits)
          from "1.IH"(2)[OF Cons nb array d(1) refl False d(2)] le show ?thesis by simp
        qed
      next
        case string
        with eq parse_string_length[of rest] show ?thesis by (auto split: sum.splits)
      next
        case bool
        with eq parse_bool_length[of rest] show ?thesis by auto
      next
        case null
        with eq parse_null_length[of rest] show ?thesis by simp
      next
        case other
        with eq parse_number_length[of rest] show ?thesis by (simp split: if_splits)
      qed
    qed
  next
    case (2 depth rest members)
    note eq = "2.prems"[unfolded parse_members.psimps[OF "2.hyps"] Let_def]
    from eq have q: "peek_is DQUOTE (skip_ws rest)" by (simp split: if_splits)
    with eq obtain key r1 r2 val r3 c r4 where
      s: "parse_string (skip_ws rest) = Inr (key, r1)" and
      x: "json_expect (CHR '':'') (skip_ws r1) = Inr r2" and
      vl: "parse_value (depth + 1) (skip_ws r2) = Inr (val, r3)" and
      c: "skip_ws r3 = c # r4"
      by (auto split: sum.splits list.splits)
    have "length r3 < length (skip_ws r2)"
      by (rule "2.IH"(1)[OF refl _ s refl x vl]) (use q in simp)
    with skip_ws_length[of rest] parse_string_length[OF s] skip_ws_length[of r1] json_expect_length[OF x]
      skip_ws_length[of r2] skip_ws_Cons_length[OF c]
    have le: "length r4 < length rest" by linarith
    show ?case
    proof (cases "c = CHR '',''")
      case True
      with eq q s x vl c have m: "parse_members depth r4 (members @ [(key, val)]) = Inr (v, r')" by simp
      have "length r' < length r4"
        by (rule "2.IH"(2)[OF refl _ s refl x vl refl c True m]) (use q in simp)
      with le show ?thesis by simp
    next
      case False
      with eq q s x vl c le show ?thesis by (auto split: if_splits)
    qed
  next
    case (3 depth rest items)
    note eq = "3.prems"[unfolded parse_elements.psimps[OF "3.hyps"]]
    then obtain val r3 c r4 where
      vl: "parse_value (depth + 1) (skip_ws rest) = Inr (val, r3)" and c: "skip_ws r3 = c # r4"
      by (auto split: sum.splits list.splits)
    have "length r3 < length (skip_ws rest)" by (rule "3.IH"(1)[OF vl])
    with skip_ws_length[of rest] skip_ws_Cons_length[OF c] have le: "length r4 < length rest" by linarith
    show ?case
    proof (cases "c = CHR '',''")
      case True
      with eq vl c have m: "parse_elements depth r4 (items @ [val]) = Inr (v, r')" by simp
      have "length r' < length r4" by (rule "3.IH"(2)[OF vl refl c True m])
      with le show ?thesis by simp
    next
      case False
      with eq vl c le show ?thesis by (auto split: if_splits)
    qed
  qed
  show "All parse_value_parse_members_parse_elements_dom"
  proof (relation "measure (\<lambda>x. case x of Inl (d, r) \<Rightarrow> 2 * length r
      | Inr (Inl (d, r, ms)) \<Rightarrow> 2 * length r + 1 | Inr (Inr (d, r, es)) \<Rightarrow> 2 * length r + 1)", goal_cases)
    case 1
    show ?case by simp
  next
    case (2 depth rest b r r1)
    then show ?case using skip_ws_length[of r] by simp
  next
    case (3 depth rest b r r1)
    then show ?case using skip_ws_length[of r] by simp
  next
    case (4 depth rest members r0 x key r1 r2)
    then show ?case
      using skip_ws_length[of rest] parse_string_length[of r0 key r1] skip_ws_length[of r1]
        json_expect_length[of "CHR '':''" "skip_ws r1" r2] skip_ws_length[of r2] by simp
  next
    case (5 depth rest members r0 x key r1 r2 y val r3 c r4)
    then show ?case
      using skip_ws_length[of rest] parse_string_length[of r0 key r1] skip_ws_length[of r1]
        json_expect_length[of "CHR '':''" "skip_ws r1" r2] skip_ws_length[of r2]
        progress(1)[of "depth + 1" "skip_ws r2" val r3] skip_ws_Cons_length[of r3 c r4] by simp
  next
    case (6 depth rest items)
    then show ?case using skip_ws_length[of rest] by simp
  next
    case (7 depth rest items x val r3 c r4)
    then show ?case
      using skip_ws_length[of rest] progress(1)[of "depth + 1" "skip_ws rest" val r3]
        skip_ws_Cons_length[of r3 c r4] by simp
  qed
qed

declare parse_value.simps [simp del] parse_members.simps [simp del] parse_elements.simps [simp del]

definition json_parse :: "bytes \<Rightarrow> json_error + json_value" where
  "json_parse input =
     (case (case parse_value 0 (skip_ws input) of
              Inl e \<Rightarrow> Inl e
            | Inr (value, r) \<Rightarrow>
                if skip_ws r \<noteq> [] then fail TrailingData (skip_ws r) else Inr value) of
        Inl (kind, left) \<Rightarrow> Inl \<lparr>err_kind = kind, err_offset = length input - left\<rparr>
      | Inr value \<Rightarrow> Inr value)"

end
