(* ===== verification/Json_Laws.thy ===== *)
theory Json_Laws
  imports Json
begin

section \<open>JSON text and what the parser makes of it\<close>

text \<open>
  The escaping of strings (\<open>escape_json\<close> of \<open>config.rs\<close>) and the texts the code
  writes: strings, booleans, numbers, and objects and arrays with white space between their
  parts. \<open>reads\<close> says that a text stands for a value wherever it occurs; each form of
  text has a lemma that establishes it from its parts.
\<close>

subsection \<open>Strings\<close>

definition escape_byte :: "char \<Rightarrow> bytes" where
  "escape_byte c =
     (if c = DQUOTE then [BACKSLASH, DQUOTE]
      else if c = BACKSLASH then [BACKSLASH, BACKSLASH]
      else if c = LF then BACKSLASH # ''n''
      else if c = CR then BACKSLASH # ''r''
      else if c = HTAB then BACKSLASH # ''t''
      else if byte_val c < 0x20 then BACKSLASH # ''u'' @ pad_zero 4 (show_hex (byte_val c))
      else [c])"

text \<open>
  The source walks over characters; a character above ASCII is copied, so walking over the
  bytes of the UTF-8 text gives the same.
\<close>

definition escape_json :: "bytes \<Rightarrow> bytes" where
  "escape_json s = concat (map escape_byte s)"

lemma escape_json_simps [simp]:
  "escape_json [] = []"
  "escape_json (c # s) = escape_byte c @ escape_json s"
  by (simp_all add: escape_json_def)

lemma escape_json_append: "escape_json (s @ t) = escape_json s @ escape_json t"
  by (simp add: escape_json_def)

lemma read_hex_control:
  assumes "n < 32"
  shows "read_hex 4 0 (pad_zero 4 (show_hex n) @ rest) = Inr (n, rest)"
proof -
  have num4: "(4::nat) = Suc (Suc (Suc (Suc 0)))" by simp
  have zero: "hex_digit_val (CHR ''0'') = Some 0" by (simp add: hex_digit_val_def byte_in_def)
  have four: "read_hex 4 0 (a # b # c # d # rest) = Inr (((hex a * 16 + hex b) * 16 + hex c) * 16 + hex d, rest)"
    if "hex_digit_val a = Some (hex a)" "hex_digit_val b = Some (hex b)"
      "hex_digit_val c = Some (hex c)" "hex_digit_val d = Some (hex d)" for a b c d hex
    using that by (simp add: num4)
  show ?thesis
  proof (cases "n < 16")
    case True
    then have "pad_zero 4 (show_hex n) = ''000'' @ [hex_digit_char n]"
      by (simp add: pad_zero_def show_hex.simps[of n] num4 numeral_3_eq_3)
    with True show ?thesis
      using four[of "CHR ''0''" "\<lambda>c. the (hex_digit_val c)" "CHR ''0''" "CHR ''0''" "hex_digit_char n"] zero
      by simp
  next
    case False
    then have "n div 16 = 1" "n mod 16 < 16" using assms by auto
    then have "show_hex n = [hex_digit_char 1, hex_digit_char (n mod 16)]"
      using False by (simp add: show_hex.simps[of n] show_hex.simps[of "Suc 0"])
    then have "pad_zero 4 (show_hex n) = ''00'' @ [hex_digit_char 1, hex_digit_char (n mod 16)]"
      by (simp add: pad_zero_def num4)
    moreover have "16 + n mod 16 = n" using \<open>n div 16 = 1\<close> div_mult_mod_eq[of n 16] by simp
    ultimately show ?thesis
      using four[of "CHR ''0''" "\<lambda>c. the (hex_digit_val c)" "CHR ''0''" "hex_digit_char 1" "hex_digit_char (n mod 16)"]
        zero by simp
  qed
qed

text \<open>An escaped ASCII byte is read back.\<close>

lemma string_loop_escape_ascii:
  assumes "byte_val b < 128"
  shows "string_loop (escape_byte b @ rest) out = string_loop rest (out @ [b])"
proof -
  have esc: "string_loop (BACKSLASH # r) out = (case parse_escape r of Inl e \<Rightarrow> Inl e | Inr (s, r') \<Rightarrow> string_loop r' (out @ s))"
    for r by (simp add: string_loop.simps(2))
  consider (named) "b \<in> {DQUOTE, BACKSLASH, LF, CR, HTAB}"
    | (control) "b \<notin> {DQUOTE, BACKSLASH, LF, CR, HTAB}" "byte_val b < 32"
    | (plain) "b \<notin> {DQUOTE, BACKSLASH, LF, CR, HTAB}" "32 \<le> byte_val b" by linarith
  then show ?thesis
  proof cases
    case named
    then show ?thesis
      by (elim insertE emptyE) (simp_all add: escape_byte_def esc parse_escape_def)
  next
    case control
    have "parse_escape (''u'' @ pad_zero 4 (show_hex (byte_val b)) @ rest) = Inr ([b], rest)"
      using control(2)
      by (simp add: parse_escape_def parse_unicode_escape_def read_hex4_def read_hex_control utf8_encode_def)
    with control show ?thesis by (simp add: escape_byte_def esc)
  next
    case plain
    then have "utf8_len b = 1" "\<not> byte_val b \<le> 31" using assms by (simp_all add: utf8_len_def byte_in_def)
    with plain assms show ?thesis
      by (simp add: escape_byte_def string_loop.simps(2) Let_def)
  qed
qed

text \<open>The sequence at the front of a valid UTF-8 text, when it is longer than a byte.\<close>

lemma utf8_first_multi_cases:
  assumes "utf8_first (b # r) \<noteq> 0" and "\<not> byte_val b < 128"
  obtains (two) c s where "r = c # s" "byte_in 194 223 b" "is_cont c" "utf8_first (b # r) = 2"
  | (three) c d s where "r = c # d # s" "byte_in 224 239 b" "is_cont d" "utf8_first (b # r) = 3"
      "if byte_val b = 224 then byte_in 160 191 c else if byte_val b = 237 then byte_in 128 159 c else is_cont c"
  | (four) c d e s where "r = c # d # e # s" "byte_in 240 244 b" "is_cont d" "is_cont e" "utf8_first (b # r) = 4"
      "if byte_val b = 240 then byte_in 144 191 c else if byte_val b = 244 then byte_in 128 143 c else is_cont c"
proof -
  note nz = assms(1)
  have a: "\<not> byte_in 0 127 b" using assms(2) by (simp add: byte_in_def)
  consider (2) "byte_in 194 223 b" | (3) "byte_in 224 239 b" "\<not> byte_in 194 223 b"
    | (4) "byte_in 240 244 b" "\<not> byte_in 194 223 b" "\<not> byte_in 224 239 b"
    using a nz by (fastforce simp: utf8_first_def)
  then show thesis
  proof cases
    case 2
    with a nz show ?thesis by (cases r) (simp_all add: utf8_first_def two split: if_split_asm)
  next
    case 3
    with nz a obtain c d s where r: "r = c # d # s"
      by (cases r; cases "tl r") (simp_all add: utf8_first_def)
    with 3 a nz show ?thesis by (intro three[OF r]) (simp_all add: utf8_first_def split: if_split_asm)
  next
    case 4
    with nz a obtain c d e s where r: "r = c # d # e # s"
      by (cases r; cases "tl r"; cases "tl (tl r)") (simp_all add: utf8_first_def)
    with 4 a nz show ?thesis by (intro four[OF r]) (simp_all add: utf8_first_def split: if_split_asm)
  qed
qed

lemma utf8_first_multi:
  assumes "utf8_first (b # r) \<noteq> 0" and "\<not> byte_val b < 128"
  shows "utf8_len b = utf8_first (b # r)"
    and "\<forall>c \<in> set (take (utf8_first (b # r)) (b # r)). 128 \<le> byte_val c"
    and "utf8_valid (take (utf8_first (b # r)) (b # r))"
proof -
  have ge: "128 \<le> byte_val c" if "byte_in lo hi c" "128 \<le> lo" for lo hi c
    using that by (simp add: byte_in_def)
  have cont: "128 \<le> byte_val c" if "is_cont c" for c using that by (simp add: is_cont_def)
  have n: "\<not> byte_in 0 127 b" using assms(2) by (simp add: byte_in_def)
  have excl: "byte_in 224 239 b \<Longrightarrow> \<not> byte_in 194 223 b" "byte_in 240 244 b \<Longrightarrow> \<not> byte_in 194 223 b"
    "byte_in 240 244 b \<Longrightarrow> \<not> byte_in 224 239 b"
    by (simp_all add: byte_in_def)
  show "utf8_len b = utf8_first (b # r)"
    using assms by (rule utf8_first_multi_cases) (auto simp: utf8_len_def byte_in_def)
  show "\<forall>c \<in> set (take (utf8_first (b # r)) (b # r)). 128 \<le> byte_val c"
    using assms
    by (rule utf8_first_multi_cases)
       (auto simp: cont intro: ge split: if_split_asm)
  have "utf8_first (take (utf8_first (b # r)) (b # r)) = utf8_first (b # r)"
    using assms
    by (rule utf8_first_multi_cases)
       (simp_all, simp_all add: utf8_first_def n excl)
  then show "utf8_valid (take (utf8_first (b # r)) (b # r))"
    using assms(1) utf8_first_le[of "b # r"]
    by (simp add: utf8_valid.simps[of "take (utf8_first (b # r)) (b # r)"])
qed

lemma escape_high: "\<forall>c \<in> set s. 128 \<le> byte_val c \<Longrightarrow> escape_json s = s"
  by (induction s) (auto simp: escape_byte_def)

lemma string_loop_escape:
  "utf8_valid s \<Longrightarrow> string_loop (escape_json s @ DQUOTE # rest) out = Inr (out @ s, rest)"
proof (induction s arbitrary: out rule: utf8_valid.induct)
  case (1 s)
  show ?case
  proof (cases s)
    case Nil
    then show ?thesis by (simp add: string_loop.simps(2))
  next
    case (Cons b r)
    have nz: "utf8_first s \<noteq> 0" and v: "utf8_valid (drop (utf8_first s) s)"
      using "1.prems" utf8_valid.simps[of s] Cons by (simp_all del: utf8_valid_ascii_Cons split: if_splits)
    note IH = "1.IH"[OF _ nz v]
    show ?thesis
    proof (cases "byte_val b < 128")
      case True
      with Cons IH show ?thesis
        by (simp add: string_loop_escape_ascii utf8_first_ascii)
    next
      case False
      let ?k = "utf8_first s"
      note m = utf8_first_multi[OF nz[unfolded Cons] False, folded Cons]
      have le: "?k \<le> length s" by (rule utf8_first_le)
      have s: "escape_json s = take ?k s @ escape_json (drop ?k s)"
        using escape_high[OF m(2)] escape_json_append[of "take ?k s" "drop ?k s"] by simp
      define tl where "tl = escape_json (drop ?k s) @ DQUOTE # rest"
      obtain r' where r': "take ?k s @ tl = b # r'" using nz Cons by (cases ?k) auto
      have ge: "128 \<le> byte_val b" using False by simp
      then have nb: "b \<noteq> DQUOTE" "b \<noteq> BACKSLASH" "\<not> byte_val b \<le> 31" by auto
      have len: "\<not> (?k = 0 \<or> length (b # r') < ?k)" using nz le unfolding r'[symmetric] by simp
      have tk: "take ?k (b # r') = take ?k s" "drop ?k (b # r') = tl"
        unfolding r'[symmetric] using le by simp_all
      have "string_loop (b # r') out = string_loop tl (out @ take ?k s)"
        using nb len m(1,3) by (simp only: string_loop.simps(2) if_False Let_def tk simp_thms)
      also have "\<dots> = Inr ((out @ take ?k s) @ drop ?k s, rest)"
        unfolding tl_def using Cons by (intro IH) simp
      finally show ?thesis by (simp add: s tl_def[symmetric] r')
    qed
  qed
qed

definition quote :: "bytes \<Rightarrow> bytes" where
  "quote s = DQUOTE # escape_json s @ [DQUOTE]"

lemma parse_string_quote: "utf8_valid s \<Longrightarrow> parse_string (quote s @ rest) = Inr (s, rest)"
  using string_loop_escape[of s rest "[]"]
  by (simp add: parse_string_def quote_def json_expect_def peek_is_def)

subsection \<open>Texts that stand for a value\<close>

text \<open>
  A byte that ends a number: what the writer puts after a value. \<open>reads d t v\<close> says that
  the text \<open>t\<close> starts with a byte that is not white space, and that before such a byte
  (or at the end of the input) the parser at depth \<open>d\<close> takes exactly \<open>t\<close> and returns
  \<open>v\<close>.
\<close>

definition stops :: "bytes \<Rightarrow> bool" where
  "stops rest \<longleftrightarrow> (case rest of [] \<Rightarrow> True | c # _ \<Rightarrow> c \<in> {CHR '','', CHR ''}'', CHR '']'', LF})"

definition reads :: "nat \<Rightarrow> bytes \<Rightarrow> json_value \<Rightarrow> bool" where
  "reads d t v \<longleftrightarrow>
     t \<noteq> [] \<and> \<not> is_ws (hd t) \<and> (\<forall>rest. stops rest \<longrightarrow> parse_value d (t @ rest) = Inr (v, rest))"

lemma readsD: "reads d t v \<Longrightarrow> stops rest \<Longrightarrow> parse_value d (t @ rest) = Inr (v, rest)"
  by (simp add: reads_def)

lemma stops_simps [simp]:
  "stops []" "stops (CHR '','' # r)" "stops (CHR ''}'' # r)" "stops (CHR '']'' # r)" "stops (LF # r)"
  by (simp_all add: stops_def)

definition blank :: "bytes \<Rightarrow> bool" where
  "blank s \<longleftrightarrow> (\<forall>c \<in> set s. is_ws c)"

lemma blank_simps [simp]:
  "blank []" "blank (c # s) \<longleftrightarrow> is_ws c \<and> blank s" "blank (s @ t) \<longleftrightarrow> blank s \<and> blank t"
  by (auto simp: blank_def)

lemma is_ws_simps [simp]:
  "is_ws (CHR '' '')" "is_ws LF" "\<not> is_ws DQUOTE" "\<not> is_ws (CHR ''}'')" "\<not> is_ws (CHR ''{'')"
  "\<not> is_ws (CHR ''['')" "\<not> is_ws (CHR '']'')" "\<not> is_ws (CHR '','')" "\<not> is_ws (CHR '':'')"
  "\<not> is_ws (CHR ''t'')" "\<not> is_ws (CHR ''f'')"
  by (simp_all add: is_ws_def)

lemma skip_ws_blank [simp]: "blank s \<Longrightarrow> skip_ws (s @ t) = skip_ws t"
  by (induction s) (auto simp: skip_ws_def)

lemma skip_ws_Cons [simp]: "skip_ws (c # s) = (if is_ws c then skip_ws s else c # s)"
  by (simp add: skip_ws_def)

lemma skip_ws_Nil [simp]: "skip_ws [] = []"
  by (simp add: skip_ws_def)

lemma skip_ws_idem [simp]: "skip_ws (skip_ws s) = skip_ws s"
  by (simp add: skip_ws_def)

lemma reads_skip_ws: "reads d t v \<Longrightarrow> skip_ws (t @ rest) = t @ rest"
  by (cases t) (auto simp: reads_def)

lemma peek_is_simps [simp]: "\<not> peek_is b []" "peek_is b (c # r) \<longleftrightarrow> c = b"
  by (auto simp: peek_is_def)

lemma json_expect_simps [simp]: "json_expect b (b # r) = Inr r"
  by (simp add: json_expect_def)

lemma reads_quote:
  assumes "utf8_valid s"
  shows "reads d (quote s) (JString s)"
proof -
  have "parse_value d (quote s @ rest) = Inr (JString s, rest)" for rest
    using parse_string_quote[OF assms, of rest]
    by (simp add: parse_value.simps quote_def)
  then show ?thesis by (simp add: reads_def quote_def)
qed

definition show_bool :: "bool \<Rightarrow> bytes" where
  "show_bool b = (if b then ''true'' else ''false'')"

lemma reads_bool: "reads d (show_bool b) (JBool b)"
  by (simp add: reads_def show_bool_def parse_value.simps parse_bool_def starts_with_def)

lemma consume_digits_app:
  assumes "ds \<noteq> []" and "\<forall>c \<in> set ds. is_ascii_digit c" and "stops rest"
  shows "consume_digits (ds @ rest) = Inr rest"
proof -
  have "\<not> is_ascii_digit c" if "c \<in> {CHR '','', CHR ''}'', CHR '']'', LF}" for c
    using that by (elim insertE emptyE) (simp_all add: is_ascii_digit_def)
  then have "dropWhile is_ascii_digit (ds @ rest) = rest"
    using assms(2,3) by (cases rest) (auto simp: stops_def dropWhile_append2)
  with assms(1) show ?thesis by (simp add: consume_digits_def Let_def)
qed

lemma reads_nat: "reads d (show_nat n) (JNumber (round_f64 False n 1))"
proof -
  have dg: "\<forall>c \<in> set (show_nat n). is_ascii_digit c" using show_nat_digits by blast
  obtain c r where s: "show_nat n = c # r" "is_ascii_digit c"
    using dg by (metis show_nat_not_Nil list.exhaust list.set_intros(1))
  have ne: "c \<notin> {CHR ''{'', CHR ''['', DQUOTE, CHR ''t'', CHR ''f'', CHR ''n'', CHR ''-''}" "\<not> is_ws c"
    using s(2) by (auto simp: is_ascii_digit_def is_ws_def)
  have "parse_value d (show_nat n @ rest) = Inr (JNumber (round_f64 False n 1), rest)" if "stops rest" for rest
  proof -
    have st: "\<not> peek_is (CHR ''.'') rest" "\<not> peek_is (CHR ''e'') rest" "\<not> peek_is (CHR ''E'') rest"
      using that by (auto simp: stops_def split: list.splits)
    have "\<not> peek_is (CHR ''-'') (show_nat n @ rest)" using s ne by simp
    then have "parse_number (show_nat n @ rest) = Inr (JNumber (round_f64 False n 1), rest)"
      using consume_digits_app[OF show_nat_not_Nil dg that] parse_f64_show[of n] st
      by (simp add: parse_number_def)
    with s ne show ?thesis by (simp add: parse_value.simps)
  qed
  with s ne show ?thesis by (simp add: reads_def)
qed

subsection \<open>Arrays of strings and objects\<close>

lemma parse_members_skip_ws: "parse_members d (skip_ws r) ms = parse_members d r ms"
  by (simp add: parse_members.simps)

lemma parse_elements_skip_ws: "parse_elements d (skip_ws r) es = parse_elements d r es"
  by (simp add: parse_elements.simps)

lemma parse_elements_step:
  assumes "reads (d + 1) t v" and "blank w" and "stops rest"
  shows "parse_elements d (w @ t @ rest) es =
     (case skip_ws rest of
        [] \<Rightarrow> fail UnexpectedEnd []
      | c # r \<Rightarrow> if c = CHR '','' then parse_elements d r (es @ [v])
                 else if c = CHR '']'' then Inr (JArray (es @ [v]), r) else fail UnexpectedByte (c # r))"
  using assms readsD[OF assms(1,3)]
  by (simp add: parse_elements.simps[of d "w @ t @ rest"] reads_skip_ws)

lemma parse_elements_join:
  "ts \<noteq> [] \<Longrightarrow> list_all2 (reads (d + 1)) ts vs \<Longrightarrow> blank w \<Longrightarrow>
     parse_elements d (w @ join '', '' ts @ CHR '']'' # rest) es = Inr (JArray (es @ vs), rest)"
proof (induction ts arbitrary: w es vs)
  case (Cons t ts)
  then obtain v vs' where vs: "vs = v # vs'" "reads (d + 1) t v" "list_all2 (reads (d + 1)) ts vs'"
    by (auto simp: list_all2_Cons1)
  show ?case
  proof (cases "ts = []")
    case True
    with vs Cons.prems show ?thesis by (simp add: parse_elements_step)
  next
    case False
    have "parse_elements d ('' '' @ join '', '' ts @ CHR '']'' # rest) (es @ [v]) = Inr (JArray ((es @ [v]) @ vs'), rest)"
      using vs(3) False by (intro Cons.IH) simp_all
    with vs Cons.prems False show ?thesis by (simp add: parse_elements_step join_Cons)
  qed
qed simp

definition array_text :: "bytes list \<Rightarrow> bytes" where
  "array_text ts = ''['' @ join '', '' ts @ '']''"

lemma reads_array:
  assumes "list_all2 (reads (d + 1)) ts vs" and "d + 1 \<le> MAX_DEPTH"
  shows "reads d (array_text ts) (JArray vs)"
proof -
  have "parse_value d (array_text ts @ rest) = Inr (JArray vs, rest)" for rest
  proof (cases ts)
    case Nil
    with assms show ?thesis by (simp add: array_text_def parse_value.simps Let_def)
  next
    case (Cons t ts')
    with assms(1) obtain v where "reads (d + 1) t v" by (auto simp: list_all2_Cons1)
    moreover have j: "join '', '' ts @ CHR '']'' # rest = t @ (if ts' = [] then [] else '', '' @ join '', '' ts') @ CHR '']'' # rest"
      using Cons by (simp add: join_Cons)
    ultimately have sk: "skip_ws (join '', '' ts @ CHR '']'' # rest) = join '', '' ts @ CHR '']'' # rest"
      and v: "parse_value (d + 1) (join '', '' ts @ CHR '']'' # rest)
        = Inr (v, (if ts' = [] then [] else '', '' @ join '', '' ts') @ CHR '']'' # rest)"
      unfolding j by (auto simp: reads_skip_ws intro!: readsD)
    have "\<not> peek_is (CHR '']'') (join '', '' ts @ CHR '']'' # rest)"
    proof
      assume "peek_is (CHR '']'') (join '', '' ts @ CHR '']'' # rest)"
      then obtain r where "join '', '' ts @ CHR '']'' # rest = CHR '']'' # r"
        by (cases "join '', '' ts @ CHR '']'' # rest") auto
      with v show False by (simp add: parse_value.simps is_ascii_digit_def)
    qed
    moreover have "parse_elements d ([] @ join '', '' ts @ CHR '']'' # rest) [] = Inr (JArray ([] @ vs), rest)"
      using assms(1) Cons by (intro parse_elements_join) simp_all
    ultimately show ?thesis
      using assms(2) sk by (simp add: array_text_def parse_value.simps[of d "CHR ''['' # u" for u] Let_def)
  qed
  then show ?thesis by (simp add: reads_def array_text_def)
qed

text \<open>Members one per line, indented by \<open>ind\<close>; the closing brace is indented by \<open>out\<close>.\<close>

definition member_text :: "bytes \<Rightarrow> bytes \<times> bytes \<Rightarrow> bytes" where
  "member_text ind f = LF # ind @ quote (fst f) @ '': '' @ snd f"

definition object_text :: "bytes \<Rightarrow> bytes \<Rightarrow> (bytes \<times> bytes) list \<Rightarrow> bytes" where
  "object_text ind out fs = ''{'' @ join '','' (map (member_text ind) fs) @ LF # out @ ''}''"

definition member_reads :: "nat \<Rightarrow> bytes \<times> bytes \<Rightarrow> bytes \<times> json_value \<Rightarrow> bool" where
  "member_reads d f m \<longleftrightarrow> fst f = fst m \<and> utf8_valid (fst m) \<and> reads d (snd f) (snd m)"

lemma parse_members_step:
  assumes "member_reads (d + 1) f m" and "blank ind" and "stops rest"
  shows "parse_members d (member_text ind f @ rest) ms =
     (case skip_ws rest of
        [] \<Rightarrow> fail UnexpectedEnd []
      | c # r \<Rightarrow> if c = CHR '','' then parse_members d r (ms @ [m])
                 else if c = CHR ''}'' then Inr (JObject (ms @ [m]), r) else fail UnexpectedByte (c # r))"
proof -
  obtain k v where mp: "m = (k, v)" by (cases m)
  from assms(1) have m: "utf8_valid (fst m)" "fst f = fst m" "reads (d + 1) (snd f) (snd m)"
    by (simp_all add: member_reads_def)
  have sk: "skip_ws (member_text ind f @ rest) = quote (fst m) @ '': '' @ snd f @ rest"
    using assms(2) m(2) by (simp add: member_text_def) (simp add: quote_def)
  have pk: "peek_is DQUOTE (quote (fst m) @ u)" for u by (simp add: quote_def)
  show ?thesis
    using readsD[OF m(3) assms(3)] reads_skip_ws[OF m(3)] m(1) sk pk
    by (simp add: parse_members.simps[of d "member_text ind f @ rest"] parse_string_quote mp split: list.split)
qed

lemma parse_members_join:
  "fs \<noteq> [] \<Longrightarrow> list_all2 (member_reads (d + 1)) fs vs \<Longrightarrow> blank ind \<Longrightarrow> blank out \<Longrightarrow>
     parse_members d (join '','' (map (member_text ind) fs) @ LF # out @ CHR ''}'' # rest) ms
       = Inr (JObject (ms @ vs), rest)"
proof (induction fs arbitrary: ms vs)
  case (Cons f fs)
  then obtain v vs' where vs: "vs = v # vs'" "member_reads (d + 1) f v" "list_all2 (member_reads (d + 1)) fs vs'"
    by (auto simp: list_all2_Cons1)
  show ?case
  proof (cases "fs = []")
    case True
    with vs Cons.prems show ?thesis by (simp add: parse_members_step)
  next
    case False
    have "parse_members d (join '','' (map (member_text ind) fs) @ LF # out @ CHR ''}'' # rest) (ms @ [v])
        = Inr (JObject ((ms @ [v]) @ vs'), rest)"
      using vs(3) False Cons.prems by (intro Cons.IH) simp_all
    with vs Cons.prems False show ?thesis by (simp add: parse_members_step join_Cons)
  qed
qed simp

lemma skip_ws_member: "blank ind \<Longrightarrow> skip_ws (member_text ind f @ u) = quote (fst f) @ '': '' @ snd f @ u"
  by (simp add: member_text_def) (simp add: quote_def)

lemma reads_object:
  assumes "list_all2 (member_reads (d + 1)) fs vs" and "d + 1 \<le> MAX_DEPTH" and "blank ind" "blank out"
  shows "reads d (object_text ind out fs) (JObject vs)"
proof -
  have "parse_value d (object_text ind out fs @ rest) = Inr (JObject vs, rest)" for rest
  proof (cases fs)
    case Nil
    with assms show ?thesis by (simp add: object_text_def parse_value.simps Let_def)
  next
    case (Cons f fs')
    let ?t = "join '','' (map (member_text ind) fs) @ LF # out @ CHR ''}'' # rest"
    have "\<exists>u. ?t = member_text ind f @ u"
      using Cons by (cases fs') (auto simp: join_Cons)
    then have "\<not> peek_is (CHR ''}'') (skip_ws ?t)"
      using assms(3) by (auto simp: skip_ws_member quote_def)
    moreover have "parse_members d (skip_ws ?t) [] = Inr (JObject ([] @ vs), rest)"
      unfolding parse_members_skip_ws using assms Cons by (intro parse_members_join) simp_all
    ultimately show ?thesis
      using assms(2) by (simp add: object_text_def parse_value.simps[of d "CHR ''{'' # u" for u] Let_def)
  qed
  then show ?thesis by (simp add: reads_def object_text_def)
qed

lemma reads_empty_object: "d + 1 \<le> MAX_DEPTH \<Longrightarrow> reads d ''{}'' (JObject [])"
  by (simp add: reads_def parse_value.simps Let_def)

lemma json_parse_reads:
  assumes "reads 0 t v"
  shows "json_parse (t @ [LF]) = Inr v"
  using readsD[OF assms, of "[LF]"] reads_skip_ws[OF assms, of "[LF]"]
  by (simp add: json_parse_def)

end
