(* ===== verification/Config.thy ===== *)
theory Config
  imports Json_Laws Security
begin

section \<open>The server configuration\<close>

text \<open>
  \<open>crates/core/src/config.rs\<close>: the sections with their defaults, reading a parsed JSON
  value into them, the validation, and the writer. A reader that assigns a field through a
  mutable reference returns the new value of the field; the first error ends the whole
  reading, as the \<open>?\<close> of the source does, which is \<open>and_then\<close>. Numbers are naturals
  in the range of their Rust type (64-bit platform).
\<close>

record server_config =
  srv_bind :: bytes
  srv_port :: nat
  srv_worker_threads :: nat
  srv_max_connections :: nat
  srv_keep_alive_secs :: nat
  srv_read_timeout_secs :: nat
  srv_request_max_bytes :: nat

record static_config =
  st_root :: bytes
  st_index_files :: "bytes list"
  st_follow_symlinks :: bool
  st_directory_listing :: bool

record compression_config =
  cp_gzip :: bool
  cp_min_bytes :: nat

record security_config =
  sc_enable_security_headers :: bool
  sc_rate_limit :: rate_limit_config
  sc_blocked_patterns :: "bytes list"

record logging_config =
  lg_level :: bytes
  lg_access_log :: bool

record tls_config =
  tls_enabled :: bool
  tls_cert_path :: bytes
  tls_key_path :: bytes

record admin_config =
  adm_username :: bytes
  adm_password_sha256 :: bytes

record config =
  cfg_server :: server_config
  cfg_static :: static_config
  cfg_compression :: compression_config
  cfg_security :: security_config
  cfg_tls :: tls_config
  cfg_admin :: admin_config
  cfg_logging :: logging_config
  cfg_mime_overrides :: "(bytes \<times> bytes) list"

subsection \<open>Defaults\<close>

definition server_default :: server_config where
  "server_default = \<lparr>srv_bind = ''0.0.0.0'', srv_port = 8080, srv_worker_threads = 0,
     srv_max_connections = 1024, srv_keep_alive_secs = 15, srv_read_timeout_secs = 30,
     srv_request_max_bytes = 1024 * 1024\<rparr>"

definition static_default :: static_config where
  "static_default = \<lparr>st_root = ''./public'', st_index_files = [''index.html'', ''index.htm''],
     st_follow_symlinks = False, st_directory_listing = False\<rparr>"

definition compression_default :: compression_config where
  "compression_default = \<lparr>cp_gzip = True, cp_min_bytes = 1024\<rparr>"

definition rate_limit_default :: rate_limit_config where
  "rate_limit_default = \<lparr>rl_enabled = True, rl_requests = 600, rl_window_secs = 600, rl_ban_secs = 300\<rparr>"

definition security_default :: security_config where
  "security_default = \<lparr>sc_enable_security_headers = False, sc_rate_limit = rate_limit_default,
     sc_blocked_patterns = []\<rparr>"

definition logging_default :: logging_config where
  "logging_default = \<lparr>lg_level = ''info'', lg_access_log = True\<rparr>"

definition tls_default :: tls_config where
  "tls_default = \<lparr>tls_enabled = False, tls_cert_path = [], tls_key_path = []\<rparr>"

definition admin_default :: admin_config where
  "admin_default = \<lparr>adm_username = [], adm_password_sha256 = []\<rparr>"

definition config_default :: config where
  "config_default = \<lparr>cfg_server = server_default, cfg_static = static_default,
     cfg_compression = compression_default, cfg_security = security_default,
     cfg_tls = tls_default, cfg_admin = admin_default, cfg_logging = logging_default,
     cfg_mime_overrides = []\<rparr>"

subsection \<open>Errors\<close>

datatype config_error =
  JsonFailure json_error
| NotAnObject
| WrongType bytes
| InvalidValue bytes bytes
| SourceFailure bytes

type_synonym 'a cres = "config_error + 'a"

definition and_then :: "'a cres \<Rightarrow> ('a \<Rightarrow> 'b cres) \<Rightarrow> 'b cres" where
  "and_then r f = (case r of Inl e \<Rightarrow> Inl e | Inr x \<Rightarrow> f x)"

lemma and_then_simps [simp]:
  "and_then (Inl e) f = Inl e" "and_then (Inr x) f = f x"
  by (simp_all add: and_then_def)

definition path_key :: "bytes \<Rightarrow> bytes \<Rightarrow> bytes" where
  "path_key path key = path @ ''.'' @ key"

definition path_index :: "bytes \<Rightarrow> nat \<Rightarrow> bytes" where
  "path_index path i = path @ ''['' @ show_nat i @ '']''"

definition invalid_owned :: "bytes \<Rightarrow> bytes \<Rightarrow> bytes \<Rightarrow> config_error" where
  "invalid_owned path key reason = InvalidValue (path_key path key) reason"

text \<open>\<open>ok_or_else\<close>.\<close>

definition or_wrong_type :: "'a option \<Rightarrow> bytes \<Rightarrow> 'a cres" where
  "or_wrong_type x path = (case x of None \<Rightarrow> Inl (WrongType path) | Some v \<Rightarrow> Inr v)"

subsection \<open>Reading one field\<close>

definition read_bool :: "json_value \<Rightarrow> bytes \<Rightarrow> bool \<Rightarrow> bytes \<Rightarrow> bool cres" where
  "read_bool obj key slot path =
     (case json_get obj key of
        None \<Rightarrow> Inr slot
      | Some v \<Rightarrow> or_wrong_type (as_bool v) (path_key path key))"

definition read_string :: "json_value \<Rightarrow> bytes \<Rightarrow> bytes \<Rightarrow> bytes \<Rightarrow> bytes cres" where
  "read_string obj key slot path =
     (case json_get obj key of
        None \<Rightarrow> Inr slot
      | Some v \<Rightarrow> or_wrong_type (as_str v) (path_key path key))"

definition read_u64 :: "json_value \<Rightarrow> bytes \<Rightarrow> nat \<Rightarrow> bytes \<Rightarrow> nat cres" where
  "read_u64 obj key slot path =
     (case json_get obj key of
        None \<Rightarrow> Inr slot
      | Some v \<Rightarrow> or_wrong_type (as_u64 v) (path_key path key))"

definition read_usize :: "json_value \<Rightarrow> bytes \<Rightarrow> nat \<Rightarrow> bytes \<Rightarrow> nat cres" where
  "read_usize obj key slot path =
     (case json_get obj key of
        None \<Rightarrow> Inr slot
      | Some v \<Rightarrow> and_then (or_wrong_type (as_u64 v) (path_key path key))
          (\<lambda>n. if n > USIZE_MAX then Inl (invalid_owned path key ''value too large'') else Inr n))"

definition read_u16 :: "json_value \<Rightarrow> bytes \<Rightarrow> nat \<Rightarrow> bytes \<Rightarrow> nat cres" where
  "read_u16 obj key slot path =
     (case json_get obj key of
        None \<Rightarrow> Inr slot
      | Some v \<Rightarrow> and_then (or_wrong_type (as_u64 v) (path_key path key))
          (\<lambda>n. if n > U16_MAX then Inl (invalid_owned path key ''must be 1-65535'') else Inr n))"

fun read_strings :: "bytes \<Rightarrow> nat \<Rightarrow> json_value list \<Rightarrow> bytes list \<Rightarrow> bytes list cres" where
  "read_strings path i [] out = Inr out"
| "read_strings path i (item # items) out =
     and_then (or_wrong_type (as_str item) (path_index path i))
       (\<lambda>s. read_strings path (i + 1) items (out @ [s]))"

definition read_string_array :: "json_value \<Rightarrow> bytes \<Rightarrow> bytes list cres" where
  "read_string_array value path =
     and_then (or_wrong_type (as_array value) path) (\<lambda>items. read_strings path 0 items [])"

fun read_pairs :: "bytes \<Rightarrow> (bytes \<times> json_value) list \<Rightarrow> (bytes \<times> bytes) list \<Rightarrow> (bytes \<times> bytes) list cres" where
  "read_pairs path [] out = Inr out"
| "read_pairs path ((k, v) # members) out =
     and_then (or_wrong_type (as_str v) (path_key path k))
       (\<lambda>s. read_pairs path members (out @ [(k, s)]))"

fun read_string_map :: "json_value \<Rightarrow> bytes \<Rightarrow> (bytes \<times> bytes) list cres" where
  "read_string_map (JObject members) path = read_pairs path members []"
| "read_string_map _ path = Inl (WrongType path)"

subsection \<open>Reading the sections\<close>

definition read_server :: "json_value \<Rightarrow> server_config \<Rightarrow> server_config cres" where
  "read_server value server =
     and_then (read_string value ''bind'' (srv_bind server) ''server'') (\<lambda>bind.
     and_then (read_u16 value ''port'' (srv_port server) ''server'') (\<lambda>port.
     and_then (read_usize value ''worker_threads'' (srv_worker_threads server) ''server'') (\<lambda>workers.
     and_then (read_usize value ''max_connections'' (srv_max_connections server) ''server'') (\<lambda>conns.
     and_then (read_u64 value ''keep_alive_secs'' (srv_keep_alive_secs server) ''server'') (\<lambda>ka.
     and_then (read_u64 value ''read_timeout_secs'' (srv_read_timeout_secs server) ''server'') (\<lambda>rt.
     and_then (read_usize value ''request_max_bytes'' (srv_request_max_bytes server) ''server'') (\<lambda>mb.
     Inr \<lparr>srv_bind = bind, srv_port = port, srv_worker_threads = workers, srv_max_connections = conns,
          srv_keep_alive_secs = ka, srv_read_timeout_secs = rt, srv_request_max_bytes = mb\<rparr>)))))))"

definition read_static :: "json_value \<Rightarrow> static_config \<Rightarrow> static_config cres" where
  "read_static value cfg =
     and_then (read_string value ''root'' (st_root cfg) ''static'') (\<lambda>root.
     and_then (read_bool value ''follow_symlinks'' (st_follow_symlinks cfg) ''static'') (\<lambda>fs.
     and_then (read_bool value ''directory_listing'' (st_directory_listing cfg) ''static'') (\<lambda>dl.
     and_then (case json_get value ''index_files'' of
                 None \<Rightarrow> Inr (st_index_files cfg)
               | Some v \<Rightarrow> read_string_array v ''static.index_files'') (\<lambda>idx.
     Inr \<lparr>st_root = root, st_index_files = idx, st_follow_symlinks = fs, st_directory_listing = dl\<rparr>))))"

definition read_tls :: "json_value \<Rightarrow> tls_config \<Rightarrow> tls_config cres" where
  "read_tls value tls =
     and_then (read_bool value ''enabled'' (tls_enabled tls) ''tls'') (\<lambda>en.
     and_then (read_string value ''cert_path'' (tls_cert_path tls) ''tls'') (\<lambda>cert.
     and_then (read_string value ''key_path'' (tls_key_path tls) ''tls'') (\<lambda>key.
     Inr \<lparr>tls_enabled = en, tls_cert_path = cert, tls_key_path = key\<rparr>)))"

definition read_admin :: "json_value \<Rightarrow> admin_config \<Rightarrow> admin_config cres" where
  "read_admin value admin =
     and_then (read_string value ''username'' (adm_username admin) ''admin'') (\<lambda>user.
     and_then (read_string value ''password_sha256'' (adm_password_sha256 admin) ''admin'') (\<lambda>pw.
     Inr \<lparr>adm_username = user, adm_password_sha256 = pw\<rparr>))"

definition read_rate_limit :: "json_value \<Rightarrow> rate_limit_config \<Rightarrow> rate_limit_config cres" where
  "read_rate_limit rl cfg =
     and_then (read_bool rl ''enabled'' (rl_enabled cfg) ''security.rate_limit'') (\<lambda>en.
     and_then (read_u64 rl ''requests'' (rl_requests cfg) ''security.rate_limit'') (\<lambda>rq.
     and_then (read_u64 rl ''window_secs'' (rl_window_secs cfg) ''security.rate_limit'') (\<lambda>wd.
     and_then (read_u64 rl ''ban_secs'' (rl_ban_secs cfg) ''security.rate_limit'') (\<lambda>bn.
     Inr \<lparr>rl_enabled = en, rl_requests = rq, rl_window_secs = wd, rl_ban_secs = bn\<rparr>))))"

definition read_security :: "json_value \<Rightarrow> security_config \<Rightarrow> security_config cres" where
  "read_security value cfg =
     and_then (read_bool value ''enable_security_headers'' (sc_enable_security_headers cfg) ''security'') (\<lambda>eh.
     and_then (case json_get value ''rate_limit'' of
                 None \<Rightarrow> Inr (sc_rate_limit cfg)
               | Some rl \<Rightarrow> read_rate_limit rl (sc_rate_limit cfg)) (\<lambda>lim.
     and_then (case json_get value ''blocked_patterns'' of
                 None \<Rightarrow> Inr (sc_blocked_patterns cfg)
               | Some bp \<Rightarrow> read_string_array bp ''security.blocked_patterns'') (\<lambda>bps.
     Inr \<lparr>sc_enable_security_headers = eh, sc_rate_limit = lim, sc_blocked_patterns = bps\<rparr>)))"

definition read_compression :: "json_value \<Rightarrow> compression_config \<Rightarrow> compression_config cres" where
  "read_compression c cfg =
     and_then (read_bool c ''gzip'' (cp_gzip cfg) ''compression'') (\<lambda>gz.
     and_then (read_usize c ''min_bytes'' (cp_min_bytes cfg) ''compression'') (\<lambda>mb.
     Inr \<lparr>cp_gzip = gz, cp_min_bytes = mb\<rparr>))"

definition read_logging :: "json_value \<Rightarrow> logging_config \<Rightarrow> logging_config cres" where
  "read_logging l cfg =
     and_then (read_string l ''level'' (lg_level cfg) ''logging'') (\<lambda>lv.
     and_then (read_bool l ''access_log'' (lg_access_log cfg) ''logging'') (\<lambda>al.
     Inr \<lparr>lg_level = lv, lg_access_log = al\<rparr>))"

text \<open>\<open>if let Some(s) = root.get(key)\<close> around a section reader.\<close>

definition read_section :: "json_value \<Rightarrow> bytes \<Rightarrow> (json_value \<Rightarrow> 'a \<Rightarrow> 'a cres) \<Rightarrow> 'a \<Rightarrow> 'a cres" where
  "read_section root key reader slot = (case json_get root key of None \<Rightarrow> Inr slot | Some v \<Rightarrow> reader v slot)"

subsection \<open>Loading and validating\<close>

definition LOG_LEVELS :: "bytes list" where
  "LOG_LEVELS = [''error'', ''warn'', ''info'', ''debug'', ''trace'']"

definition validate :: "config \<Rightarrow> unit cres" where
  "validate c =
     (if srv_port (cfg_server c) = 0 then Inl (InvalidValue ''server.port'' ''must be 1-65535'')
      else if srv_bind (cfg_server c) = [] then Inl (InvalidValue ''server.bind'' ''must not be empty'')
      else if st_root (cfg_static c) = [] then Inl (InvalidValue ''static.root'' ''must not be empty'')
      else if tls_enabled (cfg_tls c) \<and> tls_cert_path (cfg_tls c) = [] then
        Inl (InvalidValue ''tls.cert_path'' ''required when tls.enabled is true'')
      else if tls_enabled (cfg_tls c) \<and> tls_key_path (cfg_tls c) = [] then
        Inl (InvalidValue ''tls.key_path'' ''required when tls.enabled is true'')
      else if lg_level (cfg_logging c) \<notin> set LOG_LEVELS then
        Inl (InvalidValue ''logging.level'' ''must be error|warn|info|debug|trace'')
      else Inr ())"

definition from_json :: "json_value \<Rightarrow> config cres" where
  "from_json root =
     (case root of JObject _ \<Rightarrow>
        and_then (read_section root ''server'' read_server server_default) (\<lambda>server.
        and_then (read_section root ''static'' read_static static_default) (\<lambda>static.
        and_then (read_section root ''compression'' read_compression compression_default) (\<lambda>compression.
        and_then (read_section root ''security'' read_security security_default) (\<lambda>security.
        and_then (read_section root ''tls'' read_tls tls_default) (\<lambda>tls.
        and_then (read_section root ''admin'' read_admin admin_default) (\<lambda>admin.
        and_then (read_section root ''logging'' read_logging logging_default) (\<lambda>logging.
        and_then (read_section root ''mime_overrides'' (\<lambda>m _. read_string_map m ''mime_overrides'') []) (\<lambda>mime.
        let cfg = \<lparr>cfg_server = server, cfg_static = static, cfg_compression = compression,
                   cfg_security = security, cfg_tls = tls, cfg_admin = admin, cfg_logging = logging,
                   cfg_mime_overrides = mime\<rparr>
        in and_then (validate cfg) (\<lambda>_. Inr cfg)))))))))
      | _ \<Rightarrow> Inl NotAnObject)"

definition from_json_str :: "bytes \<Rightarrow> config cres" where
  "from_json_str text =
     (case json_parse text of Inl e \<Rightarrow> Inl (JsonFailure e) | Inr root \<Rightarrow> from_json root)"

subsection \<open>Writing\<close>

fun json_string_items :: "nat \<Rightarrow> bytes list \<Rightarrow> bytes" where
  "json_string_items i [] = []"
| "json_string_items i (item # items) =
     (if i > 0 then '', '' else []) @ [DQUOTE] @ escape_json item @ [DQUOTE]
     @ json_string_items (i + 1) items"

definition json_string_array :: "bytes list \<Rightarrow> bytes" where
  "json_string_array items = ''['' @ json_string_items 0 items @ '']''"

fun json_string_members :: "nat \<Rightarrow> (bytes \<times> bytes) list \<Rightarrow> bytes" where
  "json_string_members i [] = []"
| \<open>json_string_members i ((k, v) # pairs) =
     (if i > 0 then '','' else []) @ [LF] @ ''    "'' @ escape_json k @ ''": "'' @ escape_json v
     @ [DQUOTE] @ json_string_members (i + 1) pairs\<close>

definition json_string_object :: "(bytes \<times> bytes) list \<Rightarrow> bytes" where
  "json_string_object pairs =
     (if pairs = [] then ''{}''
      else ''{'' @ json_string_members 0 pairs @ [LF] @ ''  }'')"

definition server_json :: "server_config \<Rightarrow> bytes" where
  \<open>server_json c =
     ''  "server": {'' @ [LF]
     @ ''    "bind": "'' @ escape_json (srv_bind c) @ ''",'' @ [LF]
     @ ''    "port": '' @ show_nat (srv_port c) @ '','' @ [LF]
     @ ''    "worker_threads": '' @ show_nat (srv_worker_threads c) @ '','' @ [LF]
     @ ''    "max_connections": '' @ show_nat (srv_max_connections c) @ '','' @ [LF]
     @ ''    "keep_alive_secs": '' @ show_nat (srv_keep_alive_secs c) @ '','' @ [LF]
     @ ''    "read_timeout_secs": '' @ show_nat (srv_read_timeout_secs c) @ '','' @ [LF]
     @ ''    "request_max_bytes": '' @ show_nat (srv_request_max_bytes c) @ [LF]
     @ ''  },'' @ [LF]\<close>

definition static_json :: "static_config \<Rightarrow> bytes" where
  \<open>static_json c =
     ''  "static": {'' @ [LF]
     @ ''    "root": "'' @ escape_json (st_root c) @ ''",'' @ [LF]
     @ ''    "index_files": '' @ json_string_array (st_index_files c) @ '','' @ [LF]
     @ ''    "follow_symlinks": '' @ show_bool (st_follow_symlinks c) @ '','' @ [LF]
     @ ''    "directory_listing": '' @ show_bool (st_directory_listing c) @ [LF]
     @ ''  },'' @ [LF]\<close>

definition compression_json :: "compression_config \<Rightarrow> bytes" where
  \<open>compression_json c =
     ''  "compression": {'' @ [LF]
     @ ''    "gzip": '' @ show_bool (cp_gzip c) @ '','' @ [LF]
     @ ''    "min_bytes": '' @ show_nat (cp_min_bytes c) @ [LF]
     @ ''  },'' @ [LF]\<close>

definition security_json :: "security_config \<Rightarrow> bytes" where
  \<open>security_json c =
     ''  "security": {'' @ [LF]
     @ ''    "enable_security_headers": '' @ show_bool (sc_enable_security_headers c) @ '','' @ [LF]
     @ ''    "rate_limit": {'' @ [LF]
     @ ''      "enabled": '' @ show_bool (rl_enabled (sc_rate_limit c)) @ '','' @ [LF]
     @ ''      "requests": '' @ show_nat (rl_requests (sc_rate_limit c)) @ '','' @ [LF]
     @ ''      "window_secs": '' @ show_nat (rl_window_secs (sc_rate_limit c)) @ '','' @ [LF]
     @ ''      "ban_secs": '' @ show_nat (rl_ban_secs (sc_rate_limit c)) @ [LF]
     @ ''    },'' @ [LF]
     @ ''    "blocked_patterns": '' @ json_string_array (sc_blocked_patterns c) @ [LF]
     @ ''  },'' @ [LF]\<close>

definition tls_json :: "tls_config \<Rightarrow> bytes" where
  \<open>tls_json c =
     ''  "tls": {'' @ [LF]
     @ ''    "enabled": '' @ show_bool (tls_enabled c) @ '','' @ [LF]
     @ ''    "cert_path": "'' @ escape_json (tls_cert_path c) @ ''",'' @ [LF]
     @ ''    "key_path": "'' @ escape_json (tls_key_path c) @ ''"'' @ [LF]
     @ ''  },'' @ [LF]\<close>

definition admin_json :: "admin_config \<Rightarrow> bytes" where
  \<open>admin_json c =
     ''  "admin": {'' @ [LF]
     @ ''    "username": "'' @ escape_json (adm_username c) @ ''",'' @ [LF]
     @ ''    "password_sha256": "'' @ escape_json (adm_password_sha256 c) @ ''"'' @ [LF]
     @ ''  },'' @ [LF]\<close>

definition logging_json :: "logging_config \<Rightarrow> bytes" where
  \<open>logging_json c =
     ''  "logging": {'' @ [LF]
     @ ''    "level": "'' @ escape_json (lg_level c) @ ''",'' @ [LF]
     @ ''    "access_log": '' @ show_bool (lg_access_log c) @ [LF]
     @ ''  },'' @ [LF]\<close>

definition to_json_string :: "config \<Rightarrow> bytes" where
  \<open>to_json_string c =
     ''{'' @ [LF]
     @ server_json (cfg_server c)
     @ static_json (cfg_static c)
     @ compression_json (cfg_compression c)
     @ security_json (cfg_security c)
     @ tls_json (cfg_tls c)
     @ admin_json (cfg_admin c)
     @ logging_json (cfg_logging c)
     @ ''  "mime_overrides": '' @ json_string_object (cfg_mime_overrides c) @ [LF]
     @ ''}'' @ [LF]\<close>

end
