(* ===== verification/Config_Laws.thy ===== *)
theory Config_Laws
  imports Config
begin

section \<open>What the writer of the configuration writes\<close>

text \<open>
  The text of every section is the text of an object whose members stand for the values of
  its fields, and reading those values gives the section back.
\<close>

definition num :: "nat \<Rightarrow> json_value" where
  "num n = JNumber (round_f64 False n 1)"

lemma escape_byte_plain:
  "c \<notin> {DQUOTE, BACKSLASH} \<Longrightarrow> 32 \<le> byte_val c \<Longrightarrow> escape_byte c = [c]"
  by (auto simp: escape_byte_def)

definition key_ok :: "bytes \<Rightarrow> bool" where
  "key_ok k \<longleftrightarrow> (\<forall>c \<in> set k. c \<noteq> DQUOTE \<and> c \<noteq> BACKSLASH \<and> 32 \<le> byte_val c \<and> byte_val c < 128)"

lemma key_ok_escape: "key_ok k \<Longrightarrow> escape_json k = k"
  by (induction k) (auto simp: key_ok_def escape_byte_plain)

lemma key_ok_utf8: "key_ok k \<Longrightarrow> utf8_valid k"
  by (rule utf8_valid_ascii) (auto simp: key_ok_def)

lemma quote_key: "key_ok k \<Longrightarrow> quote k = DQUOTE # k @ [DQUOTE]"
  by (simp add: quote_def key_ok_escape)

lemma key_ok_simps [simp]:
  "key_ok []" "key_ok (c # k) \<longleftrightarrow> c \<noteq> DQUOTE \<and> c \<noteq> BACKSLASH \<and> 32 \<le> byte_val c \<and> byte_val c < 128 \<and> key_ok k"
  by (auto simp: key_ok_def)

lemma member_reads_key:
  "key_ok k \<Longrightarrow> reads d t v \<Longrightarrow> member_reads d (k, t) (k, v)"
  by (simp add: member_reads_def key_ok_utf8)

lemma json_string_items_join:
  "json_string_items (Suc i) items = concat (map (\<lambda>s. '', '' @ quote s) items)"
  by (induction items arbitrary: i) (simp_all add: quote_def)

lemma join_concat: "join sep (t # ts) = t @ concat (map (\<lambda>u. sep @ u) ts)"
proof (induction ts arbitrary: t)
  case (Cons u ts)
  show ?case using Cons.IH[of u] by simp
qed simp

lemma json_string_array_text: "json_string_array items = array_text (map quote items)"
proof (cases items)
  case (Cons s items')
  show ?thesis
    unfolding Cons list.map array_text_def join_concat json_string_array_def
    by (simp add: json_string_items_join quote_def o_def)
qed (simp add: json_string_array_def array_text_def)

lemma json_string_members_concat:
  "json_string_members (Suc i) pairs =
     concat (map (\<lambda>(k, v). '','' @ member_text ''    '' (k, quote v)) pairs)"
  by (induction pairs arbitrary: i) (auto simp: member_text_def quote_def)

lemma json_string_object_text:
  "pairs \<noteq> [] \<Longrightarrow>
     json_string_object pairs = object_text ''    '' ''  '' (map (\<lambda>(k, v). (k, quote v)) pairs)"
proof (cases pairs)
  case (Cons p pairs')
  obtain k v where p: "p = (k, v)" by (cases p)
  have "join '','' (map (member_text ''    '') (map (\<lambda>(k, v). (k, quote v)) pairs))
      = json_string_members 0 pairs"
    unfolding Cons p list.map join_concat
    by (simp add: json_string_members_concat member_text_def quote_def o_def split_def)
  then show ?thesis by (simp add: Cons json_string_object_def object_text_def)
qed simp

lemma reads_string_array:
  assumes "d + 1 \<le> MAX_DEPTH" and "\<forall>s \<in> set items. utf8_valid s"
  shows "reads d (json_string_array items) (JArray (map JString items))"
  unfolding json_string_array_text
  using assms by (intro reads_array) (auto simp: list_all2_map1 list_all2_map2 list_all2_same intro: reads_quote)

lemma reads_string_object:
  assumes "d + 1 \<le> MAX_DEPTH" and "\<forall>m \<in> set pairs. utf8_valid (fst m) \<and> utf8_valid (snd m)"
  shows "reads d (json_string_object pairs) (JObject (map (\<lambda>(k, v). (k, JString v)) pairs))"
proof (cases "pairs = []")
  case True
  with assms(1) show ?thesis by (simp add: json_string_object_def reads_empty_object)
next
  case False
  have "list_all2 (member_reads (d + 1)) (map (\<lambda>(k, v). (k, quote v)) pairs) (map (\<lambda>(k, v). (k, JString v)) pairs)"
    using assms(2) by (auto simp: list_all2_map1 list_all2_map2 list_all2_same member_reads_def intro!: reads_quote)
  then show ?thesis
    unfolding json_string_object_text[OF False] using assms(1) by (intro reads_object) simp_all
qed

subsection \<open>Reading fields back\<close>

lemma read_strings_back: "read_strings path i (map JString items) out = Inr (out @ items)"
  by (induction items arbitrary: i out) (simp_all add: or_wrong_type_def)

lemma read_string_array_back [simp]: "read_string_array (JArray (map JString items)) path = Inr items"
  by (simp add: read_string_array_def or_wrong_type_def read_strings_back)

lemma read_pairs_back: "read_pairs path (map (\<lambda>(k, v). (k, JString v)) pairs) out = Inr (out @ pairs)"
  by (induction pairs arbitrary: out) (auto simp: or_wrong_type_def)

lemma ilog2_eqI: "2 ^ k \<le> n \<Longrightarrow> n < 2 ^ Suc k \<Longrightarrow> ilog2 n = k"
proof -
  assume "2 ^ k \<le> n" "n < 2 ^ Suc k"
  then have "ilog2 n \<le> k" and "n < 2 ^ Suc (ilog2 n)"
    using ilog2_less[of n k] ilog2_bounds[of n] by (auto intro: order_less_le_trans)
  with \<open>2 ^ k \<le> n\<close> have "(2::nat) ^ k < 2 ^ Suc (ilog2 n)" by linarith
  then have "k < Suc (ilog2 n)" by (rule power_less_imp_less_exp[rotated]) simp
  with \<open>ilog2 n \<le> k\<close> show ?thesis by simp
qed

lemma round_2_53: "round_f64 False (2 ^ 53) 1 = Finite False (2 ^ 52) 1"
  and round_2_53_1: "round_f64 False (2 ^ 53 + 1) 1 = Finite False (2 ^ 52) 1"
proof -
  have "ilog2 (2 ^ 53) = 53" "ilog2 (2 ^ 53 + 1) = 53" by (rule ilog2_eqI; simp)+
  then have "flog2 (2 ^ 53) 1 = 53" "flog2 (2 ^ 53 + 1) 1 = 53" by (simp_all add: flog2_def)
  then show "round_f64 False (2 ^ 53) 1 = Finite False (2 ^ 52) 1"
    "round_f64 False (2 ^ 53 + 1) 1 = Finite False (2 ^ 52) 1"
    by (simp_all add: round_f64_def round_half_even_def)
qed

lemma num_2_53: "num (2 ^ 53 + 1) = num (2 ^ 53)"
  unfolding num_def round_2_53 round_2_53_1 ..

lemma as_u64_2_53: "as_u64 (num (2 ^ 53)) = Some (2 ^ 53)"
proof -
  have "f64_fraction (round_f64 False (2 ^ 53) 1) = Some (2 ^ 53, 1)"
    unfolding round_2_53 by (simp add: f64_fraction_def scaled_def)
  moreover have "min U64_MAX (2 ^ 53 div 1) = 2 ^ 53" by (simp add: U64_MAX_def)
  ultimately show ?thesis
    by (simp add: num_def f64_as_u64_def f64_of_u64_def Let_def)
qed

lemma as_u64_num: "n \<le> 2 ^ 53 \<Longrightarrow> as_u64 (num n) = Some n"
  using f64_as_u64_int[of n] as_u64_2_53 by (cases "n = 2 ^ 53") (simp_all add: num_def)

lemmas read_defs = read_bool_def read_string_def read_u64_def read_usize_def read_u16_def
  or_wrong_type_def as_u64_num

subsection \<open>The sections\<close>

definition server_value :: "server_config \<Rightarrow> json_value" where
  "server_value c = JObject
     [(''bind'', JString (srv_bind c)), (''port'', num (srv_port c)),
      (''worker_threads'', num (srv_worker_threads c)), (''max_connections'', num (srv_max_connections c)),
      (''keep_alive_secs'', num (srv_keep_alive_secs c)), (''read_timeout_secs'', num (srv_read_timeout_secs c)),
      (''request_max_bytes'', num (srv_request_max_bytes c))]"

definition server_text :: "server_config \<Rightarrow> bytes" where
  "server_text c = object_text ''    '' ''  ''
     [(''bind'', quote (srv_bind c)), (''port'', show_nat (srv_port c)),
      (''worker_threads'', show_nat (srv_worker_threads c)), (''max_connections'', show_nat (srv_max_connections c)),
      (''keep_alive_secs'', show_nat (srv_keep_alive_secs c)), (''read_timeout_secs'', show_nat (srv_read_timeout_secs c)),
      (''request_max_bytes'', show_nat (srv_request_max_bytes c))]"

definition server_exact :: "server_config \<Rightarrow> bool" where
  "server_exact c \<longleftrightarrow> srv_port c \<le> U16_MAX \<and> srv_worker_threads c \<le> 2 ^ 53 \<and>
     srv_max_connections c \<le> 2 ^ 53 \<and> srv_keep_alive_secs c \<le> 2 ^ 53 \<and> srv_read_timeout_secs c \<le> 2 ^ 53 \<and>
     srv_request_max_bytes c \<le> 2 ^ 53"

lemmas text_defs = object_text_def member_text_def

lemma server_json_text: "server_json c = ''  '' @ quote ''server'' @ '': '' @ server_text c @ '','' @ [LF]"
  by (simp add: server_json_def server_text_def text_defs quote_key) (simp add: quote_def)

lemma reads_server: "utf8_valid (srv_bind c) \<Longrightarrow> reads (Suc 0) (server_text c) (server_value c)"
  unfolding server_text_def server_value_def
  by (intro reads_object list.rel_intros member_reads_key)
     (simp_all add: reads_quote reads_nat num_def MAX_DEPTH_def del: One_nat_def)

lemma read_server_back: "server_exact c \<Longrightarrow> read_server (server_value c) d = Inr c"
  by (simp add: read_server_def server_value_def read_defs server_exact_def USIZE_MAX_def U16_MAX_def)

definition static_value :: "static_config \<Rightarrow> json_value" where
  "static_value c = JObject
     [(''root'', JString (st_root c)), (''index_files'', JArray (map JString (st_index_files c))),
      (''follow_symlinks'', JBool (st_follow_symlinks c)), (''directory_listing'', JBool (st_directory_listing c))]"

definition static_text :: "static_config \<Rightarrow> bytes" where
  "static_text c = object_text ''    '' ''  ''
     [(''root'', quote (st_root c)), (''index_files'', json_string_array (st_index_files c)),
      (''follow_symlinks'', show_bool (st_follow_symlinks c)), (''directory_listing'', show_bool (st_directory_listing c))]"

lemma static_json_text: "static_json c = ''  '' @ quote ''static'' @ '': '' @ static_text c @ '','' @ [LF]"
  by (simp add: static_json_def static_text_def text_defs quote_key) (simp add: quote_def)

lemma reads_static:
  "utf8_valid (st_root c) \<Longrightarrow> \<forall>s \<in> set (st_index_files c). utf8_valid s \<Longrightarrow> reads (Suc 0) (static_text c) (static_value c)"
  unfolding static_text_def static_value_def
  by (intro reads_object list.rel_intros member_reads_key)
     (simp_all add: reads_quote reads_bool reads_string_array MAX_DEPTH_def del: One_nat_def)

lemma read_static_back: "read_static (static_value c) d = Inr c"
  by (simp add: read_static_def static_value_def read_defs)

definition compression_value :: "compression_config \<Rightarrow> json_value" where
  "compression_value c = JObject [(''gzip'', JBool (cp_gzip c)), (''min_bytes'', num (cp_min_bytes c))]"

definition compression_text :: "compression_config \<Rightarrow> bytes" where
  "compression_text c = object_text ''    '' ''  ''
     [(''gzip'', show_bool (cp_gzip c)), (''min_bytes'', show_nat (cp_min_bytes c))]"

lemma compression_json_text:
  "compression_json c = ''  '' @ quote ''compression'' @ '': '' @ compression_text c @ '','' @ [LF]"
  by (simp add: compression_json_def compression_text_def text_defs quote_key)

lemma reads_compression: "reads (Suc 0) (compression_text c) (compression_value c)"
  unfolding compression_text_def compression_value_def
  by (intro reads_object list.rel_intros member_reads_key)
     (simp_all add: reads_bool reads_nat num_def MAX_DEPTH_def del: One_nat_def)

lemma read_compression_back: "cp_min_bytes c \<le> 2 ^ 53 \<Longrightarrow> read_compression (compression_value c) d = Inr c"
  by (simp add: read_compression_def compression_value_def read_defs USIZE_MAX_def)

definition rate_limit_value :: "rate_limit_config \<Rightarrow> json_value" where
  "rate_limit_value c = JObject
     [(''enabled'', JBool (rl_enabled c)), (''requests'', num (rl_requests c)),
      (''window_secs'', num (rl_window_secs c)), (''ban_secs'', num (rl_ban_secs c))]"

definition rate_limit_text :: "rate_limit_config \<Rightarrow> bytes" where
  "rate_limit_text c = object_text ''      '' ''    ''
     [(''enabled'', show_bool (rl_enabled c)), (''requests'', show_nat (rl_requests c)),
      (''window_secs'', show_nat (rl_window_secs c)), (''ban_secs'', show_nat (rl_ban_secs c))]"

definition rate_limit_exact :: "rate_limit_config \<Rightarrow> bool" where
  "rate_limit_exact c \<longleftrightarrow> rl_requests c \<le> 2 ^ 53 \<and> rl_window_secs c \<le> 2 ^ 53 \<and> rl_ban_secs c \<le> 2 ^ 53"

lemma reads_rate_limit: "reads 2 (rate_limit_text c) (rate_limit_value c)"
  unfolding rate_limit_text_def rate_limit_value_def
  by (intro reads_object list.rel_intros member_reads_key)
     (simp_all add: reads_bool reads_nat[unfolded One_nat_def] num_def MAX_DEPTH_def)

lemma read_rate_limit_back: "rate_limit_exact c \<Longrightarrow> read_rate_limit (rate_limit_value c) d = Inr c"
  by (simp add: read_rate_limit_def rate_limit_value_def read_defs rate_limit_exact_def)

definition security_value :: "security_config \<Rightarrow> json_value" where
  "security_value c = JObject
     [(''enable_security_headers'', JBool (sc_enable_security_headers c)),
      (''rate_limit'', rate_limit_value (sc_rate_limit c)),
      (''blocked_patterns'', JArray (map JString (sc_blocked_patterns c)))]"

definition security_text :: "security_config \<Rightarrow> bytes" where
  "security_text c = object_text ''    '' ''  ''
     [(''enable_security_headers'', show_bool (sc_enable_security_headers c)),
      (''rate_limit'', rate_limit_text (sc_rate_limit c)),
      (''blocked_patterns'', json_string_array (sc_blocked_patterns c))]"

lemma security_json_text: "security_json c = ''  '' @ quote ''security'' @ '': '' @ security_text c @ '','' @ [LF]"
  by (simp add: security_json_def security_text_def rate_limit_text_def text_defs quote_key)

lemma reads_security:
  "\<forall>s \<in> set (sc_blocked_patterns c). utf8_valid s \<Longrightarrow> reads (Suc 0) (security_text c) (security_value c)"
  unfolding security_text_def security_value_def
  by (intro reads_object list.rel_intros member_reads_key)
     (simp_all add: reads_bool reads_string_array reads_rate_limit MAX_DEPTH_def numeral_2_eq_2[symmetric])

lemma read_security_back: "rate_limit_exact (sc_rate_limit c) \<Longrightarrow> read_security (security_value c) d = Inr c"
  by (simp add: read_security_def security_value_def read_defs read_rate_limit_back)

definition tls_value :: "tls_config \<Rightarrow> json_value" where
  "tls_value c = JObject [(''enabled'', JBool (tls_enabled c)), (''cert_path'', JString (tls_cert_path c)),
     (''key_path'', JString (tls_key_path c))]"

definition tls_text :: "tls_config \<Rightarrow> bytes" where
  "tls_text c = object_text ''    '' ''  ''
     [(''enabled'', show_bool (tls_enabled c)), (''cert_path'', quote (tls_cert_path c)),
      (''key_path'', quote (tls_key_path c))]"

lemma tls_json_text: "tls_json c = ''  '' @ quote ''tls'' @ '': '' @ tls_text c @ '','' @ [LF]"
  by (simp add: tls_json_def tls_text_def text_defs quote_key) (simp add: quote_def)

lemma reads_tls:
  "utf8_valid (tls_cert_path c) \<Longrightarrow> utf8_valid (tls_key_path c) \<Longrightarrow> reads (Suc 0) (tls_text c) (tls_value c)"
  unfolding tls_text_def tls_value_def
  by (intro reads_object list.rel_intros member_reads_key)
     (simp_all add: reads_bool reads_quote MAX_DEPTH_def del: One_nat_def)

lemma read_tls_back: "read_tls (tls_value c) d = Inr c"
  by (simp add: read_tls_def tls_value_def read_defs)

definition admin_value :: "admin_config \<Rightarrow> json_value" where
  "admin_value c = JObject [(''username'', JString (adm_username c)),
     (''password_sha256'', JString (adm_password_sha256 c))]"

definition admin_text :: "admin_config \<Rightarrow> bytes" where
  "admin_text c = object_text ''    '' ''  ''
     [(''username'', quote (adm_username c)), (''password_sha256'', quote (adm_password_sha256 c))]"

lemma admin_json_text: "admin_json c = ''  '' @ quote ''admin'' @ '': '' @ admin_text c @ '','' @ [LF]"
  by (simp add: admin_json_def admin_text_def text_defs quote_key) (simp add: quote_def)

lemma reads_admin:
  "utf8_valid (adm_username c) \<Longrightarrow> utf8_valid (adm_password_sha256 c) \<Longrightarrow>
     reads (Suc 0) (admin_text c) (admin_value c)"
  unfolding admin_text_def admin_value_def
  by (intro reads_object list.rel_intros member_reads_key)
     (simp_all add: reads_quote MAX_DEPTH_def del: One_nat_def)

lemma read_admin_back: "read_admin (admin_value c) d = Inr c"
  by (simp add: read_admin_def admin_value_def read_defs)

definition logging_value :: "logging_config \<Rightarrow> json_value" where
  "logging_value c = JObject [(''level'', JString (lg_level c)), (''access_log'', JBool (lg_access_log c))]"

definition logging_text :: "logging_config \<Rightarrow> bytes" where
  "logging_text c = object_text ''    '' ''  ''
     [(''level'', quote (lg_level c)), (''access_log'', show_bool (lg_access_log c))]"

lemma logging_json_text: "logging_json c = ''  '' @ quote ''logging'' @ '': '' @ logging_text c @ '','' @ [LF]"
  by (simp add: logging_json_def logging_text_def text_defs quote_key) (simp add: quote_def)

lemma reads_logging: "utf8_valid (lg_level c) \<Longrightarrow> reads (Suc 0) (logging_text c) (logging_value c)"
  unfolding logging_text_def logging_value_def
  by (intro reads_object list.rel_intros member_reads_key)
     (simp_all add: reads_quote reads_bool MAX_DEPTH_def del: One_nat_def)

lemma read_logging_back: "read_logging (logging_value c) d = Inr c"
  by (simp add: read_logging_def logging_value_def read_defs)

subsection \<open>The whole configuration\<close>

definition config_value :: "config \<Rightarrow> json_value" where
  "config_value c = JObject
     [(''server'', server_value (cfg_server c)), (''static'', static_value (cfg_static c)),
      (''compression'', compression_value (cfg_compression c)), (''security'', security_value (cfg_security c)),
      (''tls'', tls_value (cfg_tls c)), (''admin'', admin_value (cfg_admin c)),
      (''logging'', logging_value (cfg_logging c)),
      (''mime_overrides'', JObject (map (\<lambda>(k, v). (k, JString v)) (cfg_mime_overrides c)))]"

definition config_text :: "config \<Rightarrow> bytes" where
  "config_text c = object_text ''  '' []
     [(''server'', server_text (cfg_server c)), (''static'', static_text (cfg_static c)),
      (''compression'', compression_text (cfg_compression c)), (''security'', security_text (cfg_security c)),
      (''tls'', tls_text (cfg_tls c)), (''admin'', admin_text (cfg_admin c)),
      (''logging'', logging_text (cfg_logging c)),
      (''mime_overrides'', json_string_object (cfg_mime_overrides c))]"

text \<open>The strings of a configuration are Rust strings; its numbers are small enough for a JSON
  number to hold them exactly.\<close>

definition config_utf8 :: "config \<Rightarrow> bool" where
  "config_utf8 c \<longleftrightarrow> utf8_valid (srv_bind (cfg_server c)) \<and> utf8_valid (st_root (cfg_static c)) \<and>
     (\<forall>s \<in> set (st_index_files (cfg_static c)). utf8_valid s) \<and>
     (\<forall>s \<in> set (sc_blocked_patterns (cfg_security c)). utf8_valid s) \<and>
     utf8_valid (tls_cert_path (cfg_tls c)) \<and> utf8_valid (tls_key_path (cfg_tls c)) \<and>
     utf8_valid (adm_username (cfg_admin c)) \<and> utf8_valid (adm_password_sha256 (cfg_admin c)) \<and>
     utf8_valid (lg_level (cfg_logging c)) \<and>
     (\<forall>m \<in> set (cfg_mime_overrides c). utf8_valid (fst m) \<and> utf8_valid (snd m))"

definition config_exact :: "config \<Rightarrow> bool" where
  "config_exact c \<longleftrightarrow> server_exact (cfg_server c) \<and> cp_min_bytes (cfg_compression c) \<le> 2 ^ 53 \<and>
     rate_limit_exact (sc_rate_limit (cfg_security c))"

lemma to_json_string_text: "to_json_string c = config_text c @ [LF]"
  unfolding to_json_string_def config_text_def server_json_text static_json_text compression_json_text
    security_json_text tls_json_text admin_json_text logging_json_text
  by (simp add: text_defs quote_key)

lemma reads_config: "config_utf8 c \<Longrightarrow> reads 0 (config_text c) (config_value c)"
  unfolding config_text_def config_value_def
  by (intro reads_object list.rel_intros member_reads_key)
     (auto simp: config_utf8_def reads_server reads_static reads_compression reads_security reads_tls
       reads_admin reads_logging MAX_DEPTH_def intro!: reads_string_object)

lemma json_parse_config: "config_utf8 c \<Longrightarrow> json_parse (to_json_string c) = Inr (config_value c)"
  unfolding to_json_string_text by (intro json_parse_reads reads_config)

lemma from_json_config:
  assumes "config_exact c"
  shows "from_json (config_value c) = and_then (validate c) (\<lambda>_. Inr c)"
proof -
  have get: "json_get (config_value c) ''server'' = Some (server_value (cfg_server c))"
    "json_get (config_value c) ''static'' = Some (static_value (cfg_static c))"
    "json_get (config_value c) ''compression'' = Some (compression_value (cfg_compression c))"
    "json_get (config_value c) ''security'' = Some (security_value (cfg_security c))"
    "json_get (config_value c) ''tls'' = Some (tls_value (cfg_tls c))"
    "json_get (config_value c) ''admin'' = Some (admin_value (cfg_admin c))"
    "json_get (config_value c) ''logging'' = Some (logging_value (cfg_logging c))"
    "json_get (config_value c) ''mime_overrides''
       = Some (JObject (map (\<lambda>(k, v). (k, JString v)) (cfg_mime_overrides c)))"
    by (simp_all add: config_value_def)
  have ok: "server_exact (cfg_server c)" "rate_limit_exact (sc_rate_limit (cfg_security c))" "cp_min_bytes (cfg_compression c) \<le> 2 ^ 53"
    using assms by (simp_all add: config_exact_def)
  obtain ms where ms: "config_value c = JObject ms" by (simp add: config_value_def)
  have c: "\<lparr>cfg_server = cfg_server c, cfg_static = cfg_static c, cfg_compression = cfg_compression c,
      cfg_security = cfg_security c, cfg_tls = cfg_tls c, cfg_admin = cfg_admin c,
      cfg_logging = cfg_logging c, cfg_mime_overrides = cfg_mime_overrides c\<rparr> = c" by simp
  show ?thesis
    unfolding from_json_def ms json_value.case
    unfolding ms[symmetric]
    by (simp only: read_section_def get option.case read_server_back[OF ok(1)] read_static_back
        read_compression_back[OF ok(3)] read_security_back[OF ok(2)] read_tls_back read_admin_back
        read_logging_back and_then_simps read_string_map.simps read_pairs_back append_Nil Let_def c)
qed

end
