(* ===== verification/Json_Theorems.thy ===== *)
theory Json_Theorems
  imports Json_Laws
begin

section \<open>What the JSON parser guarantees\<close>

text \<open>
  Every value the parser returns is nested at most \<open>MAX_DEPTH\<close> deep and all its strings
  and keys are UTF-8, also those written with escapes; a nesting that is too deep is an error
  at the bracket that exceeds the bound.
\<close>

subsection \<open>Escapes give UTF-8\<close>

lemma utf8_valid_seq: "utf8_first s = length s \<Longrightarrow> utf8_valid s"
  by (cases "s = []") (simp_all add: utf8_valid.simps[of s])

lemma utf8_seq_2:
  assumes "byte_val x = 192 + a" "2 \<le> a" "a < 32" "byte_val y = 128 + b" "b < 64"
  shows "utf8_valid [x, y]"
  using assms by (intro utf8_valid_seq) (simp add: utf8_first_def byte_in_def is_cont_def)

lemma utf8_seq_3:
  assumes "byte_val x = 224 + a" "a < 16" "byte_val y = 128 + b" "b < 64" "byte_val z = 128 + c" "c < 64"
    and "a = 0 \<Longrightarrow> 32 \<le> b" "a = 13 \<Longrightarrow> b < 32"
  shows "utf8_valid [x, y, z]"
proof (rule utf8_valid_seq)
  consider "a = 0" | "a = 13" | "a \<noteq> 0" "a \<noteq> 13" by blast
  then show "utf8_first [x, y, z] = length [x, y, z]"
    using assms by cases (simp_all add: utf8_first_def byte_in_def is_cont_def)
qed

lemma utf8_seq_4:
  assumes "byte_val x = 240 + a" "a < 5" "byte_val y = 128 + b" "b < 64" "byte_val z = 128 + c" "c < 64"
    "byte_val w = 128 + d" "d < 64"
    and "a = 0 \<Longrightarrow> 16 \<le> b" "a = 4 \<Longrightarrow> b < 16"
  shows "utf8_valid [x, y, z, w]"
proof (rule utf8_valid_seq)
  consider "a = 0" | "a = 4" | "a \<noteq> 0" "a \<noteq> 4" by blast
  then show "utf8_first [x, y, z, w] = length [x, y, z, w]"
    using assms by cases (simp_all add: utf8_first_def byte_in_def is_cont_def)
qed

lemma byte_val_char: "n < 256 \<Longrightarrow> byte_val (char_of n) = n"
  by simp

lemma utf8_encode_valid:
  assumes "u < 0x110000" and "\<not> (0xD800 \<le> u \<and> u \<le> 0xDFFF)"
  shows "utf8_valid (utf8_encode u)"
proof -
  have m: "x mod 64 < 64" for x :: nat by simp
  then have cont: "byte_val (char_of (128 + x mod 64)) = 128 + x mod 64" for x
    by (intro byte_val_char) (simp add: less_trans[of _ 64])
  consider (1) "u < 128" | (2) "128 \<le> u" "u < 2048" | (3) "2048 \<le> u" "u < 65536" | (4) "65536 \<le> u"
    by linarith
  then show ?thesis
  proof cases
    case 1
    then show ?thesis by (simp add: utf8_encode_def)
  next
    case 2
    then have "2 \<le> u div 64" "u div 64 < 32" by linarith+
    then have "utf8_valid [char_of (192 + u div 64), char_of (128 + u mod 64)]"
      by (intro utf8_seq_2[where a = "u div 64" and b = "u mod 64"] byte_val_char cont m) simp_all
    with 2 show ?thesis by (simp add: utf8_encode_def)
  next
    case 3
    have a: "u div 4096 < 16" using 3 by (simp add: less_mult_imp_div_less)
    define q where "q = u div 64"
    have q: "u div 4096 = q div 64" unfolding q_def by (simp flip: div_mult2_eq)
    note dm = div_mult_mod_eq[of q 64]
    have "32 \<le> q" "\<not> (864 \<le> q \<and> q < 896)"
      using 3 assms(2) unfolding q_def by linarith+
    then have e: "u div 4096 = 0 \<Longrightarrow> 32 \<le> u div 64 mod 64" "u div 4096 = 13 \<Longrightarrow> u div 64 mod 64 < 32"
      unfolding q q_def[symmetric] using dm by auto
    have "utf8_valid [char_of (224 + u div 4096), char_of (128 + u div 64 mod 64), char_of (128 + u mod 64)]"
      by (rule utf8_seq_3[OF byte_val_char a cont m cont m e]) (use a in simp_all)
    with 3 show ?thesis by (simp add: utf8_encode_def)
  next
    case 4
    have a: "u div 262144 < 5" using assms(1) by (simp add: less_mult_imp_div_less)
    define q where "q = u div 4096"
    have q: "u div 262144 = q div 64" unfolding q_def by (simp flip: div_mult2_eq)
    note dm = div_mult_mod_eq[of q 64]
    have "16 \<le> q" "q < 272"
      using 4 assms(1) unfolding q_def by linarith+
    then have e: "u div 262144 = 0 \<Longrightarrow> 16 \<le> u div 4096 mod 64" "u div 262144 = 4 \<Longrightarrow> u div 4096 mod 64 < 16"
      unfolding q q_def[symmetric] using dm by auto
    have "utf8_valid [char_of (240 + u div 262144), char_of (128 + u div 4096 mod 64),
        char_of (128 + u div 64 mod 64), char_of (128 + u mod 64)]"
      by (rule utf8_seq_4[OF byte_val_char a cont m cont m cont m e]) (use a in simp_all)
    with 4 show ?thesis by (simp add: utf8_encode_def)
  qed
qed

lemma read_hex_less: "read_hex n v r = Inr (w, r') \<Longrightarrow> w < (v + 1) * 16 ^ n"
proof (induction n v r rule: read_hex.induct)
  case (3 n v b r)
  then obtain d where d: "hex_digit_val b = Some d" "read_hex n (v * 16 + d) r = Inr (w, r')"
    by (auto split: option.splits)
  from d(1) have "d < 16" by (rule hex_digit_val_less)
  then have "(v * 16 + d + 1) * 16 ^ n \<le> ((v + 1) * 16) * 16 ^ n" by (intro mult_right_mono) simp_all
  with "3.IH"[OF d] have "w < ((v + 1) * 16) * 16 ^ n" by (rule less_le_trans)
  then show ?case by (simp only: power_Suc mult.assoc)
qed simp_all

lemma parse_unicode_escape_utf8:
  assumes "parse_unicode_escape r = Inr (s, r')"
  shows "utf8_valid s"
proof -
  obtain h r1 where h: "read_hex4 r = Inr (h, r1)"
    using assms by (auto simp: parse_unicode_escape_def split: sum.splits)
  then have less: "h < 65536" using read_hex_less[of 4 0 r h r1] by (simp add: read_hex4_def)
  show ?thesis
  proof (cases "0xD800 \<le> h \<and> h \<le> 0xDBFF")
    case True
    with assms h obtain l where "0xDC00 \<le> l \<and> l \<le> 0xDFFF"
      and s: "s = utf8_encode (0x10000 + (h - 0xD800) * 1024 + (l - 0xDC00))"
      by (auto simp: parse_unicode_escape_def Let_def split: sum.splits if_splits)
    then show ?thesis unfolding s using True by (intro utf8_encode_valid) auto
  next
    case False
    with assms h have "\<not> (0xDC00 \<le> h \<and> h \<le> 0xDFFF)" and s: "s = utf8_encode h"
      by (auto simp: parse_unicode_escape_def split: sum.splits if_splits)
    then show ?thesis unfolding s using False less by (intro utf8_encode_valid) auto
  qed
qed

lemma parse_escape_utf8: "parse_escape r = Inr (s, r') \<Longrightarrow> utf8_valid s"
  by (auto simp: parse_escape_def parse_unicode_escape_utf8 split: list.splits if_splits)

lemma string_loop_utf8: "string_loop r out = Inr (s, r') \<Longrightarrow> utf8_valid out \<Longrightarrow> utf8_valid s"
proof (induction r out rule: string_loop.induct)
  case (2 b r out)
  show ?case
  proof (cases "b = DQUOTE \<or> b = BACKSLASH")
    case True
    with "2.prems" "2.IH"(1) show ?thesis
      by (auto simp: string_loop.simps(2) dest!: parse_escape_utf8 split: sum.splits if_splits)
  next
    case False
    with "2.prems" have l: "\<not> byte_val b \<le> 31" "\<not> (utf8_len b = 0 \<or> length (b # r) < utf8_len b)"
      "utf8_valid (take (utf8_len b) (b # r))"
      "string_loop (drop (utf8_len b) (b # r)) (out @ take (utf8_len b) (b # r)) = Inr (s, r')"
      by (auto simp: string_loop.simps(2) Let_def split: if_splits)
    then show ?thesis using False "2.prems"(2) by (intro "2.IH"(2)) auto
  qed
qed simp

lemma parse_string_utf8: "parse_string r = Inr (s, r') \<Longrightarrow> utf8_valid s"
  by (auto simp: parse_string_def dest: string_loop_utf8 split: sum.splits)

subsection \<open>Depth and strings of the values\<close>

fun json_wf :: "nat \<Rightarrow> json_value \<Rightarrow> bool" where
  "json_wf d (JString s) \<longleftrightarrow> utf8_valid s"
| "json_wf d (JArray vs) \<longleftrightarrow> 0 < d \<and> (\<forall>v \<in> set vs. json_wf (d - 1) v)"
| "json_wf d (JObject ms) \<longleftrightarrow> 0 < d \<and> (\<forall>m \<in> set ms. utf8_valid (fst m) \<and> json_wf (d - 1) (snd m))"
| "json_wf d v \<longleftrightarrow> True"

abbreviation left_depth :: "nat \<Rightarrow> nat" where
  "left_depth depth \<equiv> MAX_DEPTH - depth"

lemma scalar_wf:
  "parse_bool r = Inr (v, r') \<Longrightarrow> json_wf d v"
  "parse_null r = Inr (v, r') \<Longrightarrow> json_wf d v"
  "parse_number r = Inr (v, r') \<Longrightarrow> json_wf d v"
  by (auto simp: parse_bool_def parse_null_def parse_number_def Let_def split: if_splits sum.splits option.splits)

text \<open>The ways in which the parser succeeds.\<close>

lemma parse_valueE:
  assumes "parse_value d rest = Inr (v, r')"
  obtains
    (empty) "d < MAX_DEPTH" "v = JObject [] \<or> v = JArray []"
  | (object) b r where "rest = b # r" "b = CHR ''{''" "\<not> d + 1 > MAX_DEPTH" "\<not> peek_is (CHR ''}'') (skip_ws r)"
      "parse_members d (skip_ws r) [] = Inr (v, r')"
  | (array) b r where "rest = b # r" "b \<noteq> CHR ''{''" "b = CHR ''[''" "\<not> d + 1 > MAX_DEPTH"
      "\<not> peek_is (CHR '']'') (skip_ws r)" "parse_elements d (skip_ws r) [] = Inr (v, r')"
  | (string) s where "parse_string rest = Inr (s, r')" "v = JString s"
  | (scalar) "parse_bool rest = Inr (v, r') \<or> parse_null rest = Inr (v, r') \<or> parse_number rest = Inr (v, r')"
proof (cases rest)
  case Nil
  with assms show thesis by (simp add: parse_value.simps)
next
  case (Cons b r)
  note eq = assms[unfolded parse_value.simps[of d rest] Let_def, unfolded Cons list.case, folded Cons]
  consider (o) "b = CHR ''{''" | (a) "b = CHR ''[''" | (s) "b = DQUOTE"
    | (other) "b \<notin> {CHR ''{'', CHR ''['', DQUOTE}" by blast
  then show thesis
  proof cases
    case o
    show thesis
    proof (cases "peek_is (CHR ''}'') (skip_ws r)")
      case True
      with eq o show thesis by (intro empty) (auto split: if_splits)
    next
      case False
      with eq o Cons show thesis by (intro object[of b r]) (simp_all split: if_splits)
    qed
  next
    case a
    show thesis
    proof (cases "peek_is (CHR '']'') (skip_ws r)")
      case True
      with eq a show thesis by (intro empty) (auto split: if_splits)
    next
      case False
      with eq a Cons show thesis by (intro array[of b r]) (simp_all split: if_splits)
    qed
  next
    case s
    with eq string show thesis by (auto split: sum.splits)
  next
    case other
    with eq show thesis by (intro scalar) (auto split: if_splits)
  qed
qed

lemma parse_membersE:
  assumes "parse_members d rest members = Inr (v, r')"
  obtains key r1 r2 val r3 c r4 where
    "\<not> \<not> peek_is DQUOTE (skip_ws rest)" "parse_string (skip_ws rest) = Inr (key, r1)"
    "json_expect (CHR '':'') (skip_ws r1) = Inr r2" "parse_value (d + 1) (skip_ws r2) = Inr (val, r3)" "skip_ws r3 = c # r4"
    "c = CHR '','' \<and> parse_members d r4 (members @ [(key, val)]) = Inr (v, r') \<or> v = JObject (members @ [(key, val)])"
proof -
  note eq = assms[unfolded parse_members.simps[of d rest members] Let_def]
  from eq have q: "peek_is DQUOTE (skip_ws rest)" by (simp split: if_splits)
  with eq obtain key r1 r2 val r3 c r4 where
    x: "parse_string (skip_ws rest) = Inr (key, r1)" "json_expect (CHR '':'') (skip_ws r1) = Inr r2"
      "parse_value (d + 1) (skip_ws r2) = Inr (val, r3)" "skip_ws r3 = c # r4"
    by (auto split: sum.splits list.splits)
  with eq q show thesis by (intro that[OF _ x]) (simp_all split: if_splits)
qed

lemma parse_elementsE:
  assumes "parse_elements d rest items = Inr (v, r')"
  obtains val r3 c r4 where
    "parse_value (d + 1) (skip_ws rest) = Inr (val, r3)" "skip_ws r3 = c # r4"
    "c = CHR '','' \<and> parse_elements d r4 (items @ [val]) = Inr (v, r') \<or> v = JArray (items @ [val])"
proof -
  note eq = assms[unfolded parse_elements.simps[of d rest items]]
  then obtain val r3 c r4 where x: "parse_value (d + 1) (skip_ws rest) = Inr (val, r3)" "skip_ws r3 = c # r4"
    by (auto split: sum.splits list.splits)
  with eq show thesis by (intro that[OF x]) (simp split: if_splits)
qed

lemma parse_value_wf:
  "parse_value d r = Inr (v, r') \<Longrightarrow> json_wf (left_depth d) v"
  "parse_members d r ms = Inr (v, r') \<Longrightarrow> d < MAX_DEPTH \<Longrightarrow>
     \<forall>m \<in> set ms. utf8_valid (fst m) \<and> json_wf (left_depth d - 1) (snd m) \<Longrightarrow> json_wf (left_depth d) v"
  "parse_elements d r es = Inr (v, r') \<Longrightarrow> d < MAX_DEPTH \<Longrightarrow>
     \<forall>e \<in> set es. json_wf (left_depth d - 1) e \<Longrightarrow> json_wf (left_depth d) v"
proof (induction d r and d r ms and d r es arbitrary: v r' and v r' and v r'
    rule: parse_value_parse_members_parse_elements.induct)
  case (1 depth rest)
  from "1.prems" show ?case
  proof (cases rule: parse_valueE)
    case (object b r)
    with "1.IH"(1)[OF object(1-3) refl object(4,5)] show ?thesis by simp
  next
    case (array b r)
    with "1.IH"(2)[OF array(1-4) refl array(5,6)] show ?thesis by simp
  qed (auto simp: parse_string_utf8 scalar_wf)
next
  case (2 depth rest members)
  from "2.prems"(1) show ?case
  proof (cases rule: parse_membersE)
    case m: (1 key r1 r2 val r3 c r4)
    have "json_wf (left_depth (depth + 1)) val"
      by (rule "2.IH"(1)[OF refl m(1,2) refl m(3,4)])
    with "2.prems"(3) parse_string_utf8[OF m(2)]
    have all: "\<forall>x \<in> set (members @ [(key, val)]). utf8_valid (fst x) \<and> json_wf (left_depth depth - 1) (snd x)"
      by auto
    from m(6) show ?thesis
    proof
      assume "c = CHR '','' \<and> parse_members depth r4 (members @ [(key, val)]) = Inr (v, r')"
      with "2.IH"(2)[OF refl m(1,2) refl m(3,4) refl m(5) _ _ "2.prems"(2) all] show ?thesis by blast
    next
      assume "v = JObject (members @ [(key, val)])"
      then show ?thesis using all "2.prems"(2) by (simp only: json_wf.simps) simp
    qed
  qed
next
  case (3 depth rest items)
  from "3.prems"(1) show ?case
  proof (cases rule: parse_elementsE)
    case e: (1 val r3 c r4)
    have "json_wf (left_depth (depth + 1)) val" by (rule "3.IH"(1)[OF e(1)])
    with "3.prems"(3) have all: "\<forall>x \<in> set (items @ [val]). json_wf (left_depth depth - 1) x" by auto
    from e(3) show ?thesis
    proof
      assume "c = CHR '','' \<and> parse_elements depth r4 (items @ [val]) = Inr (v, r')"
      with "3.IH"(2)[OF e(1) refl e(2) _ _ "3.prems"(2) all] show ?thesis by blast
    next
      assume "v = JArray (items @ [val])"
      then show ?thesis using all "3.prems"(2) by (simp only: json_wf.simps) simp
    qed
  qed
qed

lemma json_parse_wellformed_aux: "json_parse input = Inr v \<Longrightarrow> json_wf MAX_DEPTH v"
  by (auto simp: json_parse_def dest: parse_value_wf(1) split: sum.splits if_splits)

text \<open>C25: whatever bytes are parsed, a value that \<open>json::parse\<close> returns is nested at most
  64 objects and arrays deep, and every string and every key in it is well-formed UTF-8,
  including those built from \<open>\u\<close> escapes and surrogate pairs.\<close>

theorem json_parse_wellformed: "json_parse input = Inr v \<Longrightarrow> json_wf MAX_DEPTH v"
  by (rule json_parse_wellformed_aux)

theorem json_parse_wellformed_witness:
  "json_wf MAX_DEPTH (JArray [JString ''a'', JObject [(''k'', JBool True)]])"
proof (rule json_parse_wellformed)
  have "reads 0 (array_text [quote ''a'', object_text [] [] [(''k'', show_bool True)]])
    (JArray [JString ''a'', JObject [(''k'', JBool True)]])"
    by (intro reads_array reads_object list.rel_intros)
       (simp_all add: reads_quote reads_bool member_reads_def MAX_DEPTH_def)
  then show "json_parse (array_text [quote ''a'', object_text [] [] [(''k'', show_bool True)]] @ [LF])
      = Inr (JArray [JString ''a'', JObject [(''k'', JBool True)]])"
    by (rule json_parse_reads)
qed

lemma skip_ws_brackets [simp]: "skip_ws (replicate k (CHR ''['')) = replicate k (CHR ''['')"
  by (cases k) simp_all

lemma parse_nested:
  "d \<le> MAX_DEPTH \<Longrightarrow>
     parse_value d (replicate k (CHR ''['')) =
       (if d + k \<le> MAX_DEPTH then Inl (UnexpectedEnd, 0) else Inl (DepthExceeded, k - (MAX_DEPTH - d)))"
proof (induction k arbitrary: d)
  case (Suc k)
  have np: "\<not> peek_is (CHR '']'') (replicate k (CHR ''[''))" by (cases k) simp_all
  show ?case
  proof (cases "d = MAX_DEPTH")
    case True
    then show ?thesis by (simp add: parse_value.simps)
  next
    case False
    with Suc.prems have "parse_value (Suc d) (replicate k (CHR ''['')) =
       (if Suc d + k \<le> MAX_DEPTH then Inl (UnexpectedEnd, 0) else Inl (DepthExceeded, k - (MAX_DEPTH - Suc d)))"
      by (intro Suc.IH) simp
    with False Suc.prems np show ?thesis
      by (simp add: parse_value.simps[of d "CHR ''['' # u" for u] parse_elements.simps Let_def)
  qed
qed (simp add: parse_value.simps)

text \<open>C26: opening \<open>n\<close> arrays and nothing else is an error for every \<open>n\<close>: up to 64 the
  error is the end of the input at offset \<open>n\<close>, beyond it is the depth, reported at offset
  64, however much deeper the input goes on: the recursion of the parser is bounded.\<close>

theorem deep_nesting_rejected:
  "json_parse (replicate n (CHR ''['')) =
     Inl (if n \<le> 64 then \<lparr>err_kind = UnexpectedEnd, err_offset = n\<rparr>
          else \<lparr>err_kind = DepthExceeded, err_offset = 64\<rparr>)"
  using parse_nested[of 0 n] by (simp add: json_parse_def MAX_DEPTH_def)

end
