(* ===== verification/Config_Theorems.thy ===== *)
theory Config_Theorems
  imports Config_Laws Json_Theorems
begin

section \<open>Properties of the configuration\<close>

text \<open>
  What is written loads again as it was, as far as the numbers are exact in an \<open>f64\<close>; the
  text is UTF-8; what loads is in the range of its types and has passed the validation; a
  section that is no object is passed over.
\<close>

subsection \<open>Writing and reading back\<close>


lemmas default_defs = config_default_def server_default_def static_default_def compression_default_def
  security_default_def rate_limit_default_def tls_default_def admin_default_def logging_default_def

lemma config_default_ok: "config_utf8 config_default" "config_exact config_default"
  by (simp_all add: default_defs config_utf8_def config_exact_def server_exact_def rate_limit_exact_def U16_MAX_def)

lemma validate_default: "validate config_default = Inr ()"
  by (simp add: validate_def default_defs LOG_LEVELS_def)


text \<open>The bound is sharp. A keep-alive time of two to the 53 plus one (a legal \<open>u64\<close>
  for the server) is written as that integer, and loading it gives two to the 53: the file
  on disk and the configuration loaded from it disagree, without an error.\<close>

theorem large_number_drifts:
  assumes "config_utf8 c" and "config_exact c" and "srv_keep_alive_secs (cfg_server c) = 2 ^ 53"
  shows "from_json_str (to_json_string
      (c\<lparr>cfg_server := (cfg_server c)\<lparr>srv_keep_alive_secs := 2 ^ 53 + 1\<rparr>\<rparr>))
    = and_then (validate c) (\<lambda>_. Inr c)"
proof -
  let ?c = "c\<lparr>cfg_server := (cfg_server c)\<lparr>srv_keep_alive_secs := 2 ^ 53 + 1\<rparr>\<rparr>"
  have "config_utf8 ?c" using assms(1) by (simp add: config_utf8_def)
  then have "json_parse (to_json_string ?c) = Inr (config_value ?c)" by (rule json_parse_config)
  moreover have "server_value (cfg_server ?c) = server_value (cfg_server c)"
    using assms(3) num_2_53 by (simp add: server_value_def)
  then have "config_value ?c = config_value c" by (simp add: config_value_def)
  ultimately show ?thesis using from_json_config[OF assms(2)] by (simp add: from_json_str_def)
qed

definition drift_config :: config where
  "drift_config = config_default\<lparr>cfg_server := server_default\<lparr>srv_keep_alive_secs := 2 ^ 53\<rparr>\<rparr>"

theorem large_number_drifts_witness:
  "from_json_str (to_json_string
      (drift_config\<lparr>cfg_server := (cfg_server drift_config)\<lparr>srv_keep_alive_secs := 2 ^ 53 + 1\<rparr>\<rparr>))
    = Inr drift_config"
proof -
  have ok: "config_utf8 drift_config" "config_exact drift_config" "srv_keep_alive_secs (cfg_server drift_config) = 2 ^ 53"
    using config_default_ok
    by (simp_all add: drift_config_def config_utf8_def config_exact_def server_exact_def default_defs)
  have "validate drift_config = Inr ()"
    by (simp add: drift_config_def validate_def default_defs LOG_LEVELS_def)
  then show ?thesis using large_number_drifts[OF ok] by simp
qed

subsection \<open>The text of a configuration is UTF-8\<close>

lemma utf8_escape_byte: "byte_val c < 128 \<Longrightarrow> utf8_valid (escape_byte c @ s) = utf8_valid s"
proof -
  assume c: "byte_val c < 128"
  have "byte_val d < 128" if "d \<in> set (escape_byte c)" for d
    using that c by (auto simp: escape_byte_def pad_zero_def ascii_class_defs dest!: show_hex_graphic split: if_split_asm)
  then have "utf8_valid (escape_byte c)" by (intro utf8_valid_ascii) blast
  then show ?thesis by simp
qed

lemma utf8_escape_json: "utf8_valid s \<Longrightarrow> utf8_valid (escape_json s)"
proof (induction s rule: utf8_valid.induct)
  case (1 s)
  show ?case
  proof (cases s)
    case (Cons b r)
    have nz: "utf8_first s \<noteq> 0" and v: "utf8_valid (drop (utf8_first s) s)"
      using "1.prems" utf8_valid.simps[of s] Cons by (simp_all del: utf8_valid_ascii_Cons split: if_splits)
    have ih: "utf8_valid (escape_json (drop (utf8_first s) s))"
      using "1.IH"[OF _ nz v] Cons by simp
    show ?thesis
    proof (cases "byte_val b < 128")
      case True
      with ih Cons show ?thesis by (simp add: utf8_first_ascii utf8_escape_byte)
    next
      case False
      note m = utf8_first_multi[OF nz[unfolded Cons] False, folded Cons]
      have "escape_json s = take (utf8_first s) s @ escape_json (drop (utf8_first s) s)"
        using escape_json_append[of "take (utf8_first s) s" "drop (utf8_first s) s"] escape_high[OF m(2)] by simp
      with m(3) ih show ?thesis by simp
    qed
  qed simp
qed

lemma utf8_quote [simp]: "utf8_valid s \<Longrightarrow> utf8_valid (quote s)"
  using utf8_escape_json[of s] by (simp add: quote_def)

lemma utf8_join: "utf8_valid sep \<Longrightarrow> \<forall>t \<in> set ts. utf8_valid t \<Longrightarrow> utf8_valid (join sep ts)"
  by (induction sep ts rule: join.induct) auto

lemma utf8_array_text: "\<forall>t \<in> set ts. utf8_valid t \<Longrightarrow> utf8_valid (array_text ts)"
  using utf8_join[of "'', ''" ts] by (simp add: array_text_def)

lemma utf8_object_text:
  "utf8_valid ind \<Longrightarrow> utf8_valid out \<Longrightarrow> \<forall>f \<in> set fs. utf8_valid (fst f) \<and> utf8_valid (snd f) \<Longrightarrow>
     utf8_valid (object_text ind out fs)"
proof -
  assume a: "utf8_valid ind" "utf8_valid out" "\<forall>f \<in> set fs. utf8_valid (fst f) \<and> utf8_valid (snd f)"
  then have "utf8_valid (join '','' (map (member_text ind) fs))"
    by (intro utf8_join) (auto simp: member_text_def)
  with a(2) show ?thesis by (simp add: object_text_def)
qed

lemma utf8_scalars [simp]: "utf8_valid (show_nat n)" "utf8_valid (show_bool b)"
  by (auto intro!: utf8_valid_ascii simp: is_ascii_digit_def byte_in_def dest!: show_nat_digits) (cases b; auto simp: show_bool_def)

lemma utf8_string_array: "\<forall>s \<in> set items. utf8_valid s \<Longrightarrow> utf8_valid (json_string_array items)"
  unfolding json_string_array_text by (rule utf8_array_text) auto

lemma utf8_string_object:
  "\<forall>m \<in> set pairs. utf8_valid (fst m) \<and> utf8_valid (snd m) \<Longrightarrow> utf8_valid (json_string_object pairs)"
proof (cases "pairs = []")
  case False
  moreover assume "\<forall>m \<in> set pairs. utf8_valid (fst m) \<and> utf8_valid (snd m)"
  ultimately show ?thesis
    by (subst json_string_object_text) (auto simp: split_beta intro!: utf8_object_text utf8_quote)
qed (simp add: json_string_object_def)

lemma to_json_string_utf8: "config_utf8 c \<Longrightarrow> utf8_valid (to_json_string c)"
proof -
  assume c: "config_utf8 c"
  note texts = server_text_def static_text_def compression_text_def security_text_def rate_limit_text_def
    tls_text_def admin_text_def logging_text_def
  have "utf8_valid (config_text c)"
    using c unfolding config_text_def texts config_utf8_def
    by (auto intro!: utf8_object_text utf8_string_array utf8_string_object)
  then show ?thesis by (simp add: to_json_string_text)
qed

subsection \<open>What a loaded configuration satisfies\<close>

definition json_utf8 :: "json_value \<Rightarrow> bool" where
  "json_utf8 v \<longleftrightarrow> (\<exists>d. json_wf d v)"

lemma json_utf8_str: "json_utf8 v \<Longrightarrow> as_str v = Some s \<Longrightarrow> utf8_valid s"
  by (cases v) (auto simp: json_utf8_def)

lemma json_utf8_item: "json_utf8 v \<Longrightarrow> as_array v = Some items \<Longrightarrow> i \<in> set items \<Longrightarrow> json_utf8 i"
  by (cases v) (auto simp: json_utf8_def)

lemma json_utf8_member: "json_utf8 (JObject ms) \<Longrightarrow> m \<in> set ms \<Longrightarrow> utf8_valid (fst m) \<and> json_utf8 (snd m)"
  by (auto simp: json_utf8_def)

lemma json_utf8_get:
  assumes "json_utf8 v" and "json_get v k = Some u"
  shows "json_utf8 u"
proof -
  obtain ms where v: "v = JObject ms" using assms(2) by (cases v) auto
  with assms(2) obtain m where "m \<in> set ms" "snd m = u"
    by (auto simp: find_Some_iff dest!: nth_mem)
  with assms(1) v show ?thesis by (auto dest: json_utf8_member)
qed

lemma and_then_Inr: "and_then r f = Inr y \<longleftrightarrow> (\<exists>x. r = Inr x \<and> f x = Inr y)"
  by (cases r) auto

lemma or_wrong_type_Inr: "or_wrong_type x path = Inr y \<longleftrightarrow> x = Some y"
  by (cases x) (auto simp: or_wrong_type_def)

lemmas result_simps = and_then_Inr or_wrong_type_Inr

lemma read_string_utf8:
  "read_string obj key slot path = Inr s \<Longrightarrow> json_utf8 obj \<Longrightarrow> utf8_valid slot \<Longrightarrow> utf8_valid s"
  by (auto simp: read_string_def result_simps dest: json_utf8_get json_utf8_str split: option.splits)

lemma as_u64_le: "as_u64 v = Some n \<Longrightarrow> n \<le> U64_MAX"
  by (cases v) (auto simp: f64_as_u64_def Let_def split: option.splits if_splits)

lemma read_u64_le: "read_u64 obj key slot path = Inr n \<Longrightarrow> slot \<le> U64_MAX \<Longrightarrow> n \<le> U64_MAX"
  by (auto simp: read_u64_def result_simps dest: as_u64_le split: option.splits)

lemma read_usize_le: "read_usize obj key slot path = Inr n \<Longrightarrow> slot \<le> USIZE_MAX \<Longrightarrow> n \<le> USIZE_MAX"
  by (auto simp: read_usize_def result_simps split: option.splits if_splits)

lemma read_u16_le: "read_u16 obj key slot path = Inr n \<Longrightarrow> slot \<le> U16_MAX \<Longrightarrow> n \<le> U16_MAX"
  by (auto simp: read_u16_def result_simps split: option.splits if_splits)

lemma read_strings_utf8:
  "read_strings path i items out = Inr ss \<Longrightarrow> \<forall>v \<in> set items. json_utf8 v \<Longrightarrow>
     \<forall>s \<in> set out. utf8_valid s \<Longrightarrow> \<forall>s \<in> set ss. utf8_valid s"
  by (induction path i items out rule: read_strings.induct) (auto simp: result_simps dest: json_utf8_str)

lemma read_string_array_utf8:
  "read_string_array v path = Inr ss \<Longrightarrow> json_utf8 v \<Longrightarrow> \<forall>s \<in> set ss. utf8_valid s"
  unfolding read_string_array_def result_simps
  by (elim exE conjE, rule read_strings_utf8) (auto dest: json_utf8_item)

lemma read_pairs_utf8:
  "read_pairs path ms out = Inr ps \<Longrightarrow> \<forall>m \<in> set ms. utf8_valid (fst m) \<and> json_utf8 (snd m) \<Longrightarrow>
     \<forall>m \<in> set out. utf8_valid (fst m) \<and> utf8_valid (snd m) \<Longrightarrow>
     \<forall>m \<in> set ps. utf8_valid (fst m) \<and> utf8_valid (snd m)"
  by (induction path ms out rule: read_pairs.induct) (auto simp: result_simps dest: json_utf8_str)

lemma read_string_map_utf8:
  "read_string_map v path = Inr ps \<Longrightarrow> json_utf8 v \<Longrightarrow> \<forall>m \<in> set ps. utf8_valid (fst m) \<and> utf8_valid (snd m)"
  by (cases v) (auto dest: json_utf8_member read_pairs_utf8)

definition server_typed :: "server_config \<Rightarrow> bool" where
  "server_typed c \<longleftrightarrow> utf8_valid (srv_bind c) \<and> srv_port c \<le> U16_MAX \<and> srv_worker_threads c \<le> USIZE_MAX \<and>
     srv_max_connections c \<le> USIZE_MAX \<and> srv_keep_alive_secs c \<le> U64_MAX \<and>
     srv_read_timeout_secs c \<le> U64_MAX \<and> srv_request_max_bytes c \<le> USIZE_MAX"

definition static_typed :: "static_config \<Rightarrow> bool" where
  "static_typed c \<longleftrightarrow> utf8_valid (st_root c) \<and> (\<forall>s \<in> set (st_index_files c). utf8_valid s)"

definition rate_limit_typed :: "rate_limit_config \<Rightarrow> bool" where
  "rate_limit_typed c \<longleftrightarrow> rl_requests c \<le> U64_MAX \<and> rl_window_secs c \<le> U64_MAX \<and> rl_ban_secs c \<le> U64_MAX"

definition security_typed :: "security_config \<Rightarrow> bool" where
  "security_typed c \<longleftrightarrow> rate_limit_typed (sc_rate_limit c) \<and> (\<forall>s \<in> set (sc_blocked_patterns c). utf8_valid s)"

definition tls_typed :: "tls_config \<Rightarrow> bool" where
  "tls_typed c \<longleftrightarrow> utf8_valid (tls_cert_path c) \<and> utf8_valid (tls_key_path c)"

definition admin_typed :: "admin_config \<Rightarrow> bool" where
  "admin_typed c \<longleftrightarrow> utf8_valid (adm_username c) \<and> utf8_valid (adm_password_sha256 c)"

lemma read_server_typed: "read_server v d = Inr c \<Longrightarrow> json_utf8 v \<Longrightarrow> server_typed d \<Longrightarrow> server_typed c"
  by (auto simp: read_server_def and_then_Inr server_typed_def
      dest: read_string_utf8 read_u16_le read_usize_le read_u64_le)

lemma read_static_typed: "read_static v d = Inr c \<Longrightarrow> json_utf8 v \<Longrightarrow> static_typed d \<Longrightarrow> static_typed c"
  by (auto simp: read_static_def and_then_Inr static_typed_def
      dest: read_string_utf8 read_string_array_utf8 json_utf8_get split: option.splits)

lemma read_rate_limit_typed: "read_rate_limit v d = Inr c \<Longrightarrow> rate_limit_typed d \<Longrightarrow> rate_limit_typed c"
  by (auto simp: read_rate_limit_def and_then_Inr rate_limit_typed_def dest: read_u64_le)

lemma read_security_typed: "read_security v d = Inr c \<Longrightarrow> json_utf8 v \<Longrightarrow> security_typed d \<Longrightarrow> security_typed c"
  by (auto simp: read_security_def and_then_Inr security_typed_def
      dest: read_rate_limit_typed read_string_array_utf8 json_utf8_get split: option.splits)

lemma read_tls_typed: "read_tls v d = Inr c \<Longrightarrow> json_utf8 v \<Longrightarrow> tls_typed d \<Longrightarrow> tls_typed c"
  by (auto simp: read_tls_def and_then_Inr tls_typed_def dest: read_string_utf8)

lemma read_admin_typed: "read_admin v d = Inr c \<Longrightarrow> json_utf8 v \<Longrightarrow> admin_typed d \<Longrightarrow> admin_typed c"
  by (auto simp: read_admin_def and_then_Inr admin_typed_def dest: read_string_utf8)

lemma read_compression_typed:
  "read_compression v d = Inr c \<Longrightarrow> cp_min_bytes d \<le> USIZE_MAX \<Longrightarrow> cp_min_bytes c \<le> USIZE_MAX"
  by (auto simp: read_compression_def and_then_Inr dest: read_usize_le)

lemma read_logging_typed:
  "read_logging v d = Inr c \<Longrightarrow> json_utf8 v \<Longrightarrow> utf8_valid (lg_level d) \<Longrightarrow> utf8_valid (lg_level c)"
  by (auto simp: read_logging_def and_then_Inr dest: read_string_utf8)

lemma read_section_typed:
  assumes "read_section root key reader d = Inr c" and "json_utf8 root" and "P d"
    and "\<And>v. reader v d = Inr c \<Longrightarrow> json_utf8 v \<Longrightarrow> P c"
  shows "P c"
  using assms by (auto simp: read_section_def dest: json_utf8_get split: option.splits)

definition config_typed :: "config \<Rightarrow> bool" where
  "config_typed c \<longleftrightarrow> config_utf8 c \<and> server_typed (cfg_server c) \<and>
     cp_min_bytes (cfg_compression c) \<le> USIZE_MAX \<and> rate_limit_typed (sc_rate_limit (cfg_security c)) \<and>
     0 < srv_port (cfg_server c) \<and> srv_bind (cfg_server c) \<noteq> [] \<and> st_root (cfg_static c) \<noteq> [] \<and>
     (tls_enabled (cfg_tls c) \<longrightarrow> tls_cert_path (cfg_tls c) \<noteq> [] \<and> tls_key_path (cfg_tls c) \<noteq> []) \<and>
     lg_level (cfg_logging c) \<in> set LOG_LEVELS"

lemma validate_Inr:
  "validate c = Inr () \<longleftrightarrow> 0 < srv_port (cfg_server c) \<and> srv_bind (cfg_server c) \<noteq> [] \<and>
     st_root (cfg_static c) \<noteq> [] \<and>
     (tls_enabled (cfg_tls c) \<longrightarrow> tls_cert_path (cfg_tls c) \<noteq> [] \<and> tls_key_path (cfg_tls c) \<noteq> []) \<and>
     lg_level (cfg_logging c) \<in> set LOG_LEVELS"
  by (auto simp: validate_def)

lemma defaults_typed:
  "server_typed server_default" "static_typed static_default" "security_typed security_default"
  "tls_typed tls_default" "admin_typed admin_default" "cp_min_bytes compression_default \<le> USIZE_MAX"
  "utf8_valid (lg_level logging_default)"
  by (simp_all add: default_defs server_typed_def static_typed_def security_typed_def rate_limit_typed_def
      tls_typed_def admin_typed_def U16_MAX_def USIZE_MAX_def U64_MAX_def)

lemma loaded_config_typed_aux:
  assumes "from_json_str text = Inr c"
  shows "config_typed c"
proof -
  from assms obtain root where p: "json_parse text = Inr root" and l: "from_json root = Inr c"
    by (auto simp: from_json_str_def split: sum.splits)
  have u: "json_utf8 root" unfolding json_utf8_def using json_parse_wellformed_aux[OF p] by blast
  from l obtain sv st cp sc tl ad lg mm where
    r: "read_section root ''server'' read_server server_default = Inr sv"
      "read_section root ''static'' read_static static_default = Inr st"
      "read_section root ''compression'' read_compression compression_default = Inr cp"
      "read_section root ''security'' read_security security_default = Inr sc"
      "read_section root ''tls'' read_tls tls_default = Inr tl"
      "read_section root ''admin'' read_admin admin_default = Inr ad"
      "read_section root ''logging'' read_logging logging_default = Inr lg"
      "read_section root ''mime_overrides'' (\<lambda>m _. read_string_map m ''mime_overrides'') [] = Inr mm"
    and c: "c = \<lparr>cfg_server = sv, cfg_static = st, cfg_compression = cp, cfg_security = sc, cfg_tls = tl,
        cfg_admin = ad, cfg_logging = lg, cfg_mime_overrides = mm\<rparr>"
    and v: "validate c = Inr ()"
    by (auto simp: from_json_def and_then_Inr Let_def split: json_value.splits)
  have "server_typed sv"
    by (rule read_section_typed[OF r(1) u]) (auto intro: defaults_typed read_server_typed)
  moreover have "static_typed st"
    by (rule read_section_typed[OF r(2) u]) (auto intro: defaults_typed read_static_typed)
  moreover have "cp_min_bytes cp \<le> USIZE_MAX"
    by (rule read_section_typed[OF r(3) u]) (auto intro: defaults_typed read_compression_typed)
  moreover have "security_typed sc"
    by (rule read_section_typed[OF r(4) u]) (auto intro: defaults_typed read_security_typed)
  moreover have "tls_typed tl"
    by (rule read_section_typed[OF r(5) u]) (auto intro: defaults_typed read_tls_typed)
  moreover have "admin_typed ad"
    by (rule read_section_typed[OF r(6) u]) (auto intro: defaults_typed read_admin_typed)
  moreover have "utf8_valid (lg_level lg)"
    by (rule read_section_typed[OF r(7) u]) (auto intro: defaults_typed read_logging_typed)
  moreover have "\<forall>m \<in> set mm. utf8_valid (fst m) \<and> utf8_valid (snd m)"
    by (rule read_section_typed[OF r(8) u, where P = "\<lambda>mm. \<forall>m \<in> set mm. utf8_valid (fst m) \<and> utf8_valid (snd m)"])
       (simp, rule read_string_map_utf8)
  ultimately show ?thesis
    using v unfolding validate_Inr config_typed_def config_utf8_def
    by (simp add: c server_typed_def static_typed_def security_typed_def tls_typed_def admin_typed_def)
qed

text \<open>C24: a configuration that loads has values of the types its Rust fields have: every
  string is UTF-8, the port is from 1 to 65535, every other number fits its integer type; and
  it passed the validation: bind address and static root are not empty, TLS is only enabled
  with both paths, and the log level is one of the five.\<close>

theorem loaded_config_typed:
  assumes "from_json_str text = Inr c"
  shows "config_typed c"
  using assms by (rule loaded_config_typed_aux)

theorem loaded_config_typed_witness: "config_typed config_default"
proof (rule loaded_config_typed)
  show "from_json_str (to_json_string config_default) = Inr config_default"
    using json_parse_config[OF config_default_ok(1)] from_json_config[OF config_default_ok(2)]
    by (simp add: from_json_str_def validate_default)
qed

text \<open>A section that is present but is not an object is ignored: whatever value of another
  kind (a number, a string, an array, \<open>null\<close>) stands for \<open>server\<close>, \<open>static\<close>,
  \<open>compression\<close>, \<open>security\<close>, \<open>tls\<close>, \<open>admin\<close> or \<open>logging\<close>, the
  configuration loads with the defaults of that section and no error is reported.\<close>

theorem non_object_section_ignored:
  assumes "\<And>ms. v \<noteq> JObject ms"
    and "key \<in> {''server'', ''static'', ''compression'', ''security'', ''tls'', ''admin'', ''logging''}"
  shows "from_json (JObject [(key, v)]) = Inr config_default"
proof -
  have get: "json_get v k = None" for k using assms(1) by (cases v) auto
  note none = read_bool_def read_string_def read_u64_def read_usize_def read_u16_def
  have sv: "read_server v server_default = Inr server_default"
    and st: "read_static v static_default = Inr static_default"
    and cp: "read_compression v compression_default = Inr compression_default"
    and sc: "read_security v security_default = Inr security_default"
    and tl: "read_tls v tls_default = Inr tls_default"
    and ad: "read_admin v admin_default = Inr admin_default"
    and lg: "read_logging v logging_default = Inr logging_default"
    by (simp_all add: read_server_def read_static_def read_compression_def read_security_def
        read_tls_def read_admin_def read_logging_def none get)
  have fin: "\<lparr>cfg_server = server_default, cfg_static = static_default, cfg_compression = compression_default,
      cfg_security = security_default, cfg_tls = tls_default, cfg_admin = admin_default,
      cfg_logging = logging_default, cfg_mime_overrides = []\<rparr> = config_default"
    by (simp add: config_default_def)
  show ?thesis
    using assms(2)
    by (elim insertE emptyE)
       (simp_all add: from_json_def read_section_def sv st cp sc tl ad lg Let_def fin validate_default)
qed

theorem non_object_section_ignored_witness:
  "from_json (JObject [(''server'', JArray [])]) = Inr config_default"
  by (rule non_object_section_ignored) simp_all

end
