(* ===== verification/Transport.thy ===== *)
theory Transport
  imports Conn_Laws "HOL-Library.AList"
begin

section \<open>The event loop of the std transport\<close>

text \<open>
  \<open>crates/std-server/src/transport_mio.rs\<close>, for plaintext connections. The operating
  system is a parameter: what successive calls of \<open>read\<close>, \<open>write\<close> and
  \<open>accept\<close> return is a list of outcomes, and a list that has ended is a call that would
  block. A write accepts at most as many bytes as it is given; the bytes it accepted are
  returned as what has been sent. Instants and durations are naturals in one unit. The map
  from tokens to connections is an association list with distinct keys.
\<close>

datatype io_read = ReadOk bytes | ReadWouldBlock | ReadInterrupted | ReadFailed
datatype io_write = WriteOk nat | WriteWouldBlock | WriteInterrupted | WriteFailed
datatype io_accept = AcceptOk (accept_peer: bytes) (accept_registered: bool)
  | AcceptWouldBlock | AcceptInterrupted | AcceptFailed

record options =
  opt_idle_timeout :: nat
  opt_max_connections :: nat
  opt_security_headers :: bool
  opt_max_body :: nat
  opt_worker_threads :: nat

record tconn =
  tc_token :: nat
  tc_state :: connection
  tc_out :: bytes
  tc_wants_write :: bool
  tc_close_after_flush :: bool
  tc_last_activity :: nat

definition tconn_new :: "nat \<Rightarrow> bool \<Rightarrow> nat \<Rightarrow> bytes \<Rightarrow> nat \<Rightarrow> tconn" where
  "tconn_new token security_headers max_body peer instant =
     \<lparr>tc_token = token,
      tc_state = set_peer peer (set_max_body max_body
        (conn_with_policy (default_policy\<lparr>pol_security_headers := security_headers\<rparr>))),
      tc_out = [], tc_wants_write = False, tc_close_after_flush = False, tc_last_activity = instant\<rparr>"

subsection \<open>Reading and writing\<close>

text \<open>Whether the peer closed or the read failed, and the connection with what was read.\<close>

fun plain_read_in :: "io_read list \<Rightarrow> connection \<Rightarrow> bool \<times> connection" where
  "plain_read_in [] state = (False, state)"
| "plain_read_in (ReadOk data # reads) state =
     (if data = [] then (True, state) else plain_read_in reads (feed data state))"
| "plain_read_in (ReadWouldBlock # reads) state = (False, state)"
| "plain_read_in (ReadInterrupted # reads) state = plain_read_in reads state"
| "plain_read_in (ReadFailed # reads) state = (True, state)"

text \<open>Whether the write failed, what is left of the output, and what was sent.\<close>

fun plain_write_out :: "io_write list \<Rightarrow> bytes \<Rightarrow> bytes \<Rightarrow> bool \<times> bytes \<times> bytes" where
  "plain_write_out [] out sent = (False, out, sent)"
| "plain_write_out (w # writes) out sent =
     (if out = [] then (False, out, sent)
      else (case w of
              WriteOk n \<Rightarrow>
                let n = min n (length out) in
                if n = 0 then (True, out, sent)
                else plain_write_out writes (drop n out) (sent @ take n out)
            | WriteWouldBlock \<Rightarrow> (False, out, sent)
            | WriteInterrupted \<Rightarrow> plain_write_out writes out sent
            | WriteFailed \<Rightarrow> (True, out, sent)))"

definition pending_write :: "tconn \<Rightarrow> bool" where
  "pending_write conn \<longleftrightarrow> tc_out conn \<noteq> []"

text \<open>Reregistering the socket changes nothing but the flag: its result is ignored.\<close>

definition update_interest :: "tconn \<Rightarrow> bool \<times> tconn" where
  "update_interest conn =
     (if \<not> pending_write conn then
        (if tc_close_after_flush conn then (True, conn)
         else if tc_wants_write conn then (False, conn\<lparr>tc_wants_write := False\<rparr>)
         else (False, conn))
      else if \<not> tc_wants_write conn then (False, conn\<lparr>tc_wants_write := True\<rparr>)
      else (False, conn))"

subsection \<open>One readiness event\<close>

text \<open>
  Whether the connection is to be dropped, the connection, the state of the service and the
  bytes sent; \<open>None\<close> when the parser panics.
\<close>

definition read_and_drive ::
  "'s service \<Rightarrow> nat \<Rightarrow> io_read list \<Rightarrow> tconn \<Rightarrow> 's \<Rightarrow> (bool \<times> tconn \<times> 's) option" where
  "read_and_drive service now reads conn s =
     (case plain_read_in reads (tc_state conn) of (closed, state) \<Rightarrow>
        if closed then Some (True, conn\<lparr>tc_state := state\<rparr>, s)
        else (case drive service now state s (tc_out conn) of
                None \<Rightarrow> None
              | Some (out, close, state, s) \<Rightarrow>
                  Some (False, conn\<lparr>tc_state := state, tc_out := out, tc_close_after_flush := close\<rparr>, s)))"

definition handle_ready ::
  "'s service \<Rightarrow> nat \<Rightarrow> bool \<Rightarrow> io_read list \<Rightarrow> io_write list \<Rightarrow> tconn \<Rightarrow> 's \<Rightarrow>
     (bool \<times> tconn \<times> 's \<times> bytes) option" where
  "handle_ready service now readable reads writes conn s =
     (case (if readable \<and> \<not> tc_close_after_flush conn then read_and_drive service now reads conn s
            else Some (False, conn, s)) of
        None \<Rightarrow> None
      | Some (closed, conn, s) \<Rightarrow>
          if closed then Some (True, conn, s, [])
          else (case plain_write_out writes (tc_out conn) [] of
                  (fatal, out, sent) \<Rightarrow>
                    let conn = conn\<lparr>tc_out := out\<rparr> in
                    if fatal then Some (True, conn, s, sent)
                    else (case update_interest conn of (dropped, conn) \<Rightarrow> Some (dropped, conn, s, sent))))"

subsection \<open>The reactor\<close>

record reactor =
  rx_conns :: "(nat \<times> tconn) list"
  rx_next_token :: nat

definition reactor_new :: reactor where
  "reactor_new = \<lparr>rx_conns = [], rx_next_token = 1\<rparr>"

definition close_conn :: "nat \<Rightarrow> reactor \<Rightarrow> reactor" where
  "close_conn token rx = rx\<lparr>rx_conns := AList.delete token (rx_conns rx)\<rparr>"

text \<open>What a readiness event of a connection finds: readable or not, and the socket's answers.\<close>

record ready =
  rd_token :: nat
  rd_readable :: bool
  rd_reads :: "io_read list"
  rd_writes :: "io_write list"
  rd_instant :: nat
  rd_unix :: nat

definition handle_token :: "'s service \<Rightarrow> ready \<Rightarrow> reactor \<times> 's \<Rightarrow> (reactor \<times> 's) option" where
  "handle_token service rd x =
     (case x of (rx, s) \<Rightarrow>
        (case map_of (rx_conns rx) (rd_token rd) of
           None \<Rightarrow> Some (rx, s)
         | Some conn \<Rightarrow>
             let conn = conn\<lparr>tc_last_activity := rd_instant rd\<rparr> in
             (case handle_ready service (rd_unix rd) (rd_readable rd) (rd_reads rd) (rd_writes rd) conn s of
                None \<Rightarrow> None
              | Some (drop_conn, conn, s, sent) \<Rightarrow>
                  let rx = rx\<lparr>rx_conns := AList.update (rd_token rd) conn (rx_conns rx)\<rparr> in
                  Some (if drop_conn then close_conn (rd_token rd) rx else rx, s))))"

fun accept_all :: "options \<Rightarrow> nat \<Rightarrow> io_accept list \<Rightarrow> reactor \<Rightarrow> reactor" where
  "accept_all opts instant [] rx = rx"
| "accept_all opts instant (AcceptOk peer registered # accepts) rx =
     (if length (rx_conns rx) \<ge> opt_max_connections opts then accept_all opts instant accepts rx
      else
        let token = rx_next_token rx; rx = rx\<lparr>rx_next_token := rx_next_token rx + 1\<rparr> in
        if \<not> registered then accept_all opts instant accepts rx
        else accept_all opts instant accepts
          (rx\<lparr>rx_conns := AList.update token
                 (tconn_new token (opt_security_headers opts) (opt_max_body opts) peer instant)
                 (rx_conns rx)\<rparr>))"
| "accept_all opts instant (AcceptWouldBlock # accepts) rx = rx"
| "accept_all opts instant (AcceptInterrupted # accepts) rx = accept_all opts instant accepts rx"
| "accept_all opts instant (AcceptFailed # accepts) rx = rx"

definition sweep_idle :: "nat \<Rightarrow> nat \<Rightarrow> reactor \<Rightarrow> reactor" where
  "sweep_idle now idle_timeout rx =
     (let expired = map fst (filter (\<lambda>(_, c). now - tc_last_activity c > idle_timeout) (rx_conns rx))
      in fold close_conn expired rx)"

datatype poll_event = ListenerReady nat "io_accept list" | ConnReady ready

text \<open>
  One turn of the loop of \<open>run_reactor\<close>: the events of a poll, then the sweep. While the
  server drains after a shutdown signal, the events of the listener are passed over.
\<close>

fun poll_events :: "'s service \<Rightarrow> options \<Rightarrow> bool \<Rightarrow> poll_event list \<Rightarrow> reactor \<times> 's \<Rightarrow> (reactor \<times> 's) option" where
  "poll_events service opts accepting [] x = Some x"
| "poll_events service opts accepting (ListenerReady instant accepts # events) x =
     poll_events service opts accepting events
       (if accepting then (accept_all opts instant accepts (fst x), snd x) else x)"
| "poll_events service opts accepting (ConnReady rd # events) x =
     (case handle_token service rd x of
        None \<Rightarrow> None
      | Some x \<Rightarrow> poll_events service opts accepting events x)"

definition reactor_turn ::
  "'s service \<Rightarrow> options \<Rightarrow> bool \<Rightarrow> poll_event list \<Rightarrow> nat \<Rightarrow> reactor \<times> 's \<Rightarrow> (reactor \<times> 's) option" where
  "reactor_turn service opts accepting events now x =
     (case poll_events service opts accepting events x of
        None \<Rightarrow> None
      | Some (rx, s) \<Rightarrow> Some (sweep_idle now (opt_idle_timeout opts) rx, s))"

text \<open>
  The loop of \<open>run_reactor\<close> and the drain after it. A turn holds what the loop condition sees
  (the shutdown flag and the clock, in seconds), whether the poll succeeds, its events, and the
  instant of the sweep. When the turns given are used up the reactor is still running.
\<close>

record turn =
  tn_shutdown :: bool
  tn_start :: nat
  tn_poll_ok :: bool
  tn_events :: "poll_event list"
  tn_sweep :: nat

datatype reactor_status = Running | Finished | PollFailed

definition SHUTDOWN_GRACE :: nat where
  "SHUTDOWN_GRACE = 5"

fun drain_loop ::
  "'s service \<Rightarrow> options \<Rightarrow> nat \<Rightarrow> turn list \<Rightarrow> reactor \<times> 's \<Rightarrow> (reactor_status \<times> reactor \<times> 's) option" where
  "drain_loop service opts deadline [] x = Some (Running, x)"
| "drain_loop service opts deadline (tn # turns) x =
     (if rx_conns (fst x) = [] \<or> deadline \<le> tn_start tn then Some (Finished, x)
      else if \<not> tn_poll_ok tn then Some (PollFailed, x)
      else (case reactor_turn service opts False (tn_events tn) (tn_sweep tn) x of
              None \<Rightarrow> None
            | Some x \<Rightarrow> drain_loop service opts deadline turns x))"

fun run_reactor ::
  "'s service \<Rightarrow> options \<Rightarrow> turn list \<Rightarrow> reactor \<times> 's \<Rightarrow> (reactor_status \<times> reactor \<times> 's) option" where
  "run_reactor service opts [] x = Some (Running, x)"
| "run_reactor service opts (tn # turns) x =
     (if tn_shutdown tn then drain_loop service opts (tn_start tn + SHUTDOWN_GRACE) (tn # turns) x
      else if \<not> tn_poll_ok tn then Some (PollFailed, x)
      else (case reactor_turn service opts True (tn_events tn) (tn_sweep tn) x of
              None \<Rightarrow> None
            | Some x \<Rightarrow> run_reactor service opts turns x))"

text \<open>Every reactor enforces its share of the connection cap.\<close>

definition worker_count :: "nat \<Rightarrow> nat \<Rightarrow> nat" where
  "worker_count available_parallelism configured =
     (if configured > 0 then configured else available_parallelism)"

definition per_worker :: "nat \<Rightarrow> options \<Rightarrow> options" where
  "per_worker workers opts = opts\<lparr>opt_max_connections := max (opt_max_connections opts div workers) 1\<rparr>"

end
