(* ===== verification/Transport_Theorems.thy ===== *)
theory Transport_Theorems
  imports Transport
begin

section \<open>Properties of the event loop\<close>

text \<open>
  The transport refines the connection: what a socket carries is what the steps of the
  connection wrote, byte by byte and in order, however reads and writes are cut. The table of
  a reactor stays within its cap with distinct tokens, and the interest of every connection
  matches its pending output. A closing connection is flushed by writable events alone.
\<close>

subsection \<open>What a connection emits\<close>

text \<open>
  The abstract side: bytes arrive at the connection and steps write; the flag says whether the
  last step asked to close, after which nothing follows.
\<close>

inductive conn_emits ::
  "'s service \<Rightarrow> connection \<times> 's \<Rightarrow> bytes list \<Rightarrow> bool \<Rightarrow> connection \<times> 's \<Rightarrow> bool" for service where
  emits_nothing: "conn_emits service x [] False x"
| emits_fed: "conn_emits service (feed data c, s) bs closed y \<Longrightarrow> conn_emits service (c, s) bs closed y"
| emits_open: "conn_step service now c s = Some (Write b False, c', s') \<Longrightarrow>
    conn_emits service (c', s') bs closed y \<Longrightarrow> conn_emits service (c, s) (b # bs) closed y"
| emits_close: "conn_step service now c s = Some (Write b True, c', s') \<Longrightarrow>
    conn_emits service (c, s) [b] True (c', s')"

lemma conn_emits_trans:
  "conn_emits service x bs f y \<Longrightarrow> \<not> f \<Longrightarrow> conn_emits service y cs g z \<Longrightarrow>
     conn_emits service x (bs @ cs) g z"
  by (induction rule: conn_emits.induct) (auto intro: conn_emits.intros)

lemma drive_emits:
  "drive service now c s out = Some (out', closed, c', s') \<Longrightarrow>
     \<exists>bs. out' = out @ concat bs \<and> conn_emits service (c, s) bs closed (c', s')"
proof (induction service now c s out rule: drive.induct)
  case (1 service now c s out)
  show ?case
  proof (cases "conn_step service now c s")
    case None
    with "1.prems" show ?thesis by (simp add: drive.simps)
  next
    case (Some r)
    obtain st c1 s1 where r: "r = (st, c1, s1)" by (cases r)
    show ?thesis
    proof (cases st)
      case NeedMore
      from conn_step_needmore[OF Some[unfolded r NeedMore]] have "c1 = c" "s1 = s" by auto
      with "1.prems" Some r NeedMore show ?thesis
        by (intro exI[of _ "[]"]) (auto simp: drive.simps intro: emits_nothing)
    next
      case (Write b close)
      show ?thesis
      proof (cases close)
        case True
        with "1.prems" Some r Write show ?thesis
          by (intro exI[of _ "[b]"]) (auto simp: drive.simps intro: emits_close)
      next
        case False
        with Some r Write have st: "conn_step service now c s = Some (Write b False, c1, s1)" by simp
        with "1.prems" have dr: "drive service now c1 s1 (out @ b) = Some (out', closed, c', s')"
          by (simp add: drive_open)
        from "1.IH"[OF Some r[symmetric] Write refl False dr] obtain bs where
          "out' = (out @ b) @ concat bs" "conn_emits service (c1, s1) bs closed (c', s')" by auto
        with st show ?thesis
          by (intro exI[of _ "b # bs"]) (auto intro: emits_open)
      qed
    qed
  qed
qed

lemma read_in_emits:
  "plain_read_in reads c = (closed, c') \<Longrightarrow>
     \<exists>data. c' = feed data c \<or> c' = c"
proof (induction reads c rule: plain_read_in.induct)
  case (2 data reads state)
  show ?case
  proof (cases "data = []")
    case True
    with 2 show ?thesis by auto
  next
    case False
    with 2 obtain d where "c' = feed d (feed data state) \<or> c' = feed data state" by auto
    moreover have "feed d (feed data state) = feed (data @ d) state" by (simp add: feed_def)
    ultimately show ?thesis by metis
  qed
qed auto

lemma write_out_split:
  "plain_write_out ws out sent = (fatal, out', sent') \<Longrightarrow> sent' @ out' = sent @ out"
  by (induction ws out sent rule: plain_write_out.induct)
     (auto simp: Let_def split: if_splits io_write.splits)

lemma update_interest_keeps:
  "update_interest c = (d, c') \<Longrightarrow>
     tc_state c' = tc_state c \<and> tc_out c' = tc_out c \<and> tc_close_after_flush c' = tc_close_after_flush c \<and>
     tc_token c' = tc_token c \<and> tc_last_activity c' = tc_last_activity c \<and>
     (d \<longleftrightarrow> tc_out c = [] \<and> tc_close_after_flush c) \<and>
     (\<not> d \<longrightarrow> (tc_wants_write c' \<longleftrightarrow> tc_out c' \<noteq> []))"
  by (auto simp: update_interest_def pending_write_def split: if_splits)

lemma emits_feed: "c' = feed data c \<or> c' = c \<Longrightarrow> conn_emits service (c', s) bs f y \<Longrightarrow> conn_emits service (c, s) bs f y"
  by (auto intro: emits_fed)

lemma read_and_drive_emits:
  assumes "read_and_drive service now reads c s = Some (closed, c', s')" and "\<not> tc_close_after_flush c"
  shows "\<exists>bs. conn_emits service (tc_state c, s) bs (tc_close_after_flush c') (tc_state c', s') \<and>
    tc_out c' = tc_out c @ concat bs \<and> tc_token c' = tc_token c \<and> tc_last_activity c' = tc_last_activity c"
proof -
  obtain b st where r: "plain_read_in reads (tc_state c) = (b, st)" by (cases "plain_read_in reads (tc_state c)")
  from read_in_emits[OF r] obtain data where d: "st = feed data (tc_state c) \<or> st = tc_state c" by blast
  show ?thesis
  proof (cases b)
    case True
    with assms r show ?thesis
      by (intro exI[of _ "[]"]) (auto simp: read_and_drive_def intro!: emits_feed[OF d] emits_nothing)
  next
    case False
    with assms r obtain out close st' where
      dr: "drive service now st s (tc_out c) = Some (out, close, st', s')" and
      c': "c' = c\<lparr>tc_state := st', tc_out := out, tc_close_after_flush := close\<rparr>"
      by (auto simp: read_and_drive_def split: option.splits)
    from drive_emits[OF dr] obtain bs where "out = tc_out c @ concat bs" "conn_emits service (st, s) bs close (st', s')"
      by blast
    with c' show ?thesis by (auto intro: emits_feed[OF d])
  qed
qed

lemma handle_ready_emits:
  assumes "handle_ready service now readable reads writes c s = Some (dropped, c', s', sent)"
  shows "\<exists>bs. sent @ tc_out c' = tc_out c @ concat bs \<and> tc_token c' = tc_token c \<and>
     tc_last_activity c' = tc_last_activity c \<and>
     (if tc_close_after_flush c
      then bs = [] \<and> tc_close_after_flush c' \<and> tc_state c' = tc_state c \<and> s' = s
      else conn_emits service (tc_state c, s) bs (tc_close_after_flush c') (tc_state c', s'))"
proof -
  define first where "first = (if readable \<and> \<not> tc_close_after_flush c then read_and_drive service now reads c s
     else Some (False, c, s))"
  from assms obtain closed c1 s1 where f: "first = Some (closed, c1, s1)"
    by (auto simp: handle_ready_def first_def[symmetric] split: option.splits)
  have e: "\<exists>bs. tc_out c1 = tc_out c @ concat bs \<and> tc_token c1 = tc_token c \<and> tc_last_activity c1 = tc_last_activity c \<and>
     (if tc_close_after_flush c
      then bs = [] \<and> tc_close_after_flush c1 \<and> tc_state c1 = tc_state c \<and> s1 = s
      else conn_emits service (tc_state c, s) bs (tc_close_after_flush c1) (tc_state c1, s1))"
  proof (cases "readable \<and> \<not> tc_close_after_flush c")
    case True
    with f read_and_drive_emits[of service now reads c s closed c1 s1] show ?thesis
      by (auto simp: first_def)
  next
    case False
    with f show ?thesis by (intro exI[of _ "[]"]) (auto simp: first_def intro: emits_nothing)
  qed
  show ?thesis
  proof (cases closed)
    case True
    with assms f have "c' = c1" "s' = s1" "sent = []"
      by (auto simp: handle_ready_def first_def[symmetric])
    with e show ?thesis by (simp only: append_Nil)
  next
    case False
    obtain fatal out snt where w: "plain_write_out writes (tc_out c1) [] = (fatal, out, snt)"
      by (metis prod_cases3)
    from write_out_split[OF w] have sp: "snt @ out = tc_out c1" by simp
    have "tc_out c' = out \<and> sent = snt \<and> s' = s1 \<and> tc_state c' = tc_state c1 \<and> tc_token c' = tc_token c1 \<and>
       tc_last_activity c' = tc_last_activity c1 \<and> tc_close_after_flush c' = tc_close_after_flush c1"
      using assms f w False
      by (auto simp: handle_ready_def first_def[symmetric] Let_def split: if_splits prod.splits
          dest!: update_interest_keeps)
    with e sp show ?thesis by (simp only:)
  qed
qed

subsection \<open>A connection over many events\<close>

text \<open>The readiness events of one connection, until it is dropped, and all that was sent.\<close>

fun conn_events ::
  "'s service \<Rightarrow> ready list \<Rightarrow> tconn \<Rightarrow> 's \<Rightarrow> (bool \<times> tconn \<times> 's \<times> bytes) option" where
  "conn_events service [] c s = Some (False, c, s, [])"
| "conn_events service (rd # rds) c s =
     (case handle_ready service (rd_unix rd) (rd_readable rd) (rd_reads rd) (rd_writes rd)
             (c\<lparr>tc_last_activity := rd_instant rd\<rparr>) s of
        None \<Rightarrow> None
      | Some (dropped, c, s, sent) \<Rightarrow>
          if dropped then Some (True, c, s, sent)
          else (case conn_events service rds c s of
                  None \<Rightarrow> None
                | Some (dropped, c, s, later) \<Rightarrow> Some (dropped, c, s, sent @ later)))"

lemma conn_events_emits:
  "conn_events service rds c s = Some (dropped, c', s', sent) \<Longrightarrow>
     \<exists>bs. sent @ tc_out c' = tc_out c @ concat bs \<and>
       (if tc_close_after_flush c
        then bs = [] \<and> tc_close_after_flush c' \<and> tc_state c' = tc_state c \<and> s' = s
        else conn_emits service (tc_state c, s) bs (tc_close_after_flush c') (tc_state c', s'))"
proof (induction rds arbitrary: c s sent)
  case Nil
  then show ?case by (intro exI[of _ "[]"]) (auto intro: emits_nothing)
next
  case (Cons rd rds)
  obtain d1 c1 s1 sent1 where h: "handle_ready service (rd_unix rd) (rd_readable rd) (rd_reads rd) (rd_writes rd)
      (c\<lparr>tc_last_activity := rd_instant rd\<rparr>) s = Some (d1, c1, s1, sent1)"
    using Cons.prems by (auto split: option.splits)
  have eqs: "tc_out (c\<lparr>tc_last_activity := rd_instant rd\<rparr>) = tc_out c"
    "tc_state (c\<lparr>tc_last_activity := rd_instant rd\<rparr>) = tc_state c"
    "tc_close_after_flush (c\<lparr>tc_last_activity := rd_instant rd\<rparr>) = tc_close_after_flush c" by simp_all
  from handle_ready_emits[OF h, unfolded eqs] obtain bs where bs: "sent1 @ tc_out c1 = tc_out c @ concat bs"
     "if tc_close_after_flush c
      then bs = [] \<and> tc_close_after_flush c1 \<and> tc_state c1 = tc_state c \<and> s1 = s
      else conn_emits service (tc_state c, s) bs (tc_close_after_flush c1) (tc_state c1, s1)"
    by blast
  show ?case
  proof (cases d1)
    case True
    with Cons.prems h have "c' = c1" "s' = s1" "sent = sent1" by auto
    with bs show ?thesis by blast
  next
    case False
    with Cons.prems h obtain later where
      m: "conn_events service rds c1 s1 = Some (dropped, c', s', later)" "sent = sent1 @ later"
      by (auto split: option.splits)
    from Cons.IH[OF m(1)] obtain cs where cs: "later @ tc_out c' = tc_out c1 @ concat cs"
       "if tc_close_after_flush c1
        then cs = [] \<and> tc_close_after_flush c' \<and> tc_state c' = tc_state c1 \<and> s' = s1
        else conn_emits service (tc_state c1, s1) cs (tc_close_after_flush c') (tc_state c', s')"
      by blast
    have "sent @ tc_out c' = tc_out c @ concat (bs @ cs)"
      using m(2) cs(1) bs(1) by simp
    moreover have "if tc_close_after_flush c
        then bs @ cs = [] \<and> tc_close_after_flush c' \<and> tc_state c' = tc_state c \<and> s' = s
        else conn_emits service (tc_state c, s) (bs @ cs) (tc_close_after_flush c') (tc_state c', s')"
      using bs(2) cs(2) by (auto split: if_splits intro: conn_emits_trans)
    ultimately show ?thesis by blast
  qed
qed

text \<open>C2: the transport refines the connection. Over any sequence of readiness events, however
  the reads are cut and however few bytes a write accepts, what was sent followed by what is
  still pending is exactly what the connection emitted by steps on the bytes it was fed: no
  response byte is lost, repeated or reordered, nothing is emitted after the step that asks to
  close, and the state of the service is that of the abstract run.\<close>

theorem transport_refines_connection:
  assumes "conn_events service rds c s = Some (dropped, c', s', sent)" and "\<not> tc_close_after_flush c"
  shows "\<exists>bs. conn_emits service (tc_state c, s) bs (tc_close_after_flush c') (tc_state c', s') \<and>
    sent @ tc_out c' = tc_out c @ concat bs"
  using conn_events_emits[OF assms(1)] assms(2) by auto

text \<open>A connection that is fed two bytes that are no request, and whose socket takes one byte.\<close>

definition idle_conn :: tconn where
  "idle_conn = tconn_new 1 False 100 (replicate 16 (CHR 0x00)) 0"

definition echo_service :: "unit service" where
  "echo_service s request ctx = (resp_text OK (req_body request), s)"

definition two_bytes :: ready where
  "two_bytes = \<lparr>rd_token = 1, rd_readable = True, rd_reads = [ReadOk ''GE'', ReadWouldBlock],
     rd_writes = [], rd_instant = 5, rd_unix = 0\<rparr>"

lemma two_bytes_drive:
  "drive echo_service 0 (feed ''GE'' (tc_state idle_conn)) () [] = Some ([], False, feed ''GE'' (tc_state idle_conn), ())"
proof -
  let ?c = "feed ''GE'' (tc_state idle_conn)"
  have "conn_buf ?c = ''GE''" "conn_max_body ?c = 100"
    by (simp_all add: idle_conn_def tconn_new_def feed_def set_peer_def set_max_body_def conn_with_policy_def)
  moreover have "find_subslice ''GE'' crlf = None" "find_subslice ''GE'' (crlf @ crlf) = None"
    by (simp_all add: find_subslice_def)
  ultimately have "conn_step echo_service 0 ?c () = Some (NeedMore, ?c, ())"
    by (simp add: conn_step_partial parse_with_def MAX_HEAD_BYTES_def expect_action_def)
  then show ?thesis by (rule drive_needmore)
qed

lemma two_bytes_wait:
  "conn_events echo_service [two_bytes] idle_conn () =
     Some (False, idle_conn\<lparr>tc_state := feed ''GE'' (tc_state idle_conn), tc_last_activity := 5\<rparr>, (), [])"
proof -
  have "tc_out idle_conn = []" "\<not> tc_close_after_flush idle_conn" "\<not> tc_wants_write idle_conn"
    by (simp_all add: idle_conn_def tconn_new_def)
  then show ?thesis
    using two_bytes_drive
    by (simp add: two_bytes_def handle_ready_def read_and_drive_def update_interest_def pending_write_def)
qed

theorem transport_refines_connection_witness:
  "\<exists>bs. conn_emits echo_service (tc_state idle_conn, ()) bs False (feed ''GE'' (tc_state idle_conn), ()) \<and>
     [] = concat bs"
  using transport_refines_connection[OF two_bytes_wait]
  by (simp add: idle_conn_def tconn_new_def)

subsection \<open>Flushing\<close>

lemma handle_ready_flush:
  assumes "tc_close_after_flush c" and "tc_out c \<noteq> []"
  shows "handle_ready service now readable reads [WriteOk (Suc n)] c s =
    (let k = min (Suc n) (length (tc_out c)); c' = c\<lparr>tc_out := drop k (tc_out c)\<rparr>
     in Some (fst (update_interest c'), snd (update_interest c'), s, take k (tc_out c)))"
  using assms by (cases "tc_out c") (simp_all add: handle_ready_def Let_def split: prod.split)

text \<open>C28: a connection that is to be closed ends: when its socket is writable again and again
  and takes at least one byte each time, then after at most as many events as there are
  pending bytes everything pending has been sent, in order, and the connection is dropped;
  nothing more is read and the service is not called.\<close>

theorem closing_connection_flushes:
  assumes "tc_close_after_flush c" and "tc_out c \<noteq> []"
    and "\<forall>rd \<in> set rds. \<exists>n. rd_writes rd = [WriteOk (Suc n)]" and "length (tc_out c) \<le> length rds"
  shows "\<exists>c'. conn_events service rds c s = Some (True, c', s, tc_out c) \<and> tc_out c' = []"
  using assms
proof (induction rds arbitrary: c)
  case (Cons rd rds)
  let ?c = "c\<lparr>tc_last_activity := rd_instant rd\<rparr>"
  from Cons.prems(3) obtain n where n: "rd_writes rd = [WriteOk (Suc n)]" by auto
  define k where "k = min (Suc n) (length (tc_out c))"
  define c1 where "c1 = snd (update_interest (?c\<lparr>tc_out := drop k (tc_out c)\<rparr>))"
  have k: "0 < k" using Cons.prems(2) by (simp add: k_def)
  have c1: "tc_out c1 = drop k (tc_out c)" "tc_close_after_flush c1"
    using update_interest_keeps[OF prod.collapse[symmetric], of "?c\<lparr>tc_out := drop k (tc_out c)\<rparr>"] Cons.prems(1)
    by (simp_all add: c1_def)
  have h: "handle_ready service (rd_unix rd) (rd_readable rd) (rd_reads rd) (rd_writes rd) ?c s =
      Some (drop k (tc_out c) = [], c1, s, take k (tc_out c))"
    using handle_ready_flush[of ?c service "rd_unix rd" "rd_readable rd" "rd_reads rd" n s] Cons.prems(1,2) n
      update_interest_keeps[OF prod.collapse[symmetric], of "?c\<lparr>tc_out := drop k (tc_out c)\<rparr>"]
    by (simp add: Let_def k_def c1_def)
  show ?case
  proof (cases "drop k (tc_out c) = []")
    case True
    then have "take k (tc_out c) = tc_out c" by simp
    with h c1 True show ?thesis by simp
  next
    case False
    have "\<exists>c'. conn_events service rds c1 s = Some (True, c', s, tc_out c1) \<and> tc_out c' = []"
      using Cons.prems c1 False k by (intro Cons.IH) auto
    then obtain c' where "conn_events service rds c1 s = Some (True, c', s, tc_out c1)" "tc_out c' = []" by blast
    with h False c1 show ?thesis by simp
  qed
qed simp

definition closing_conn :: tconn where
  "closing_conn = idle_conn\<lparr>tc_out := ''bye'', tc_close_after_flush := True\<rparr>"

definition writable :: "nat \<Rightarrow> ready" where
  "writable n = \<lparr>rd_token = 1, rd_readable = False, rd_reads = [], rd_writes = [WriteOk n],
     rd_instant = 0, rd_unix = 0\<rparr>"

theorem closing_connection_flushes_witness:
  "\<exists>c'. conn_events echo_service [writable 1, writable 1, writable 9] closing_conn () =
     Some (True, c', (), ''bye'') \<and> tc_out c' = []"
proof -
  have "\<exists>c'. conn_events echo_service [writable 1, writable 1, writable 9] closing_conn () =
     Some (True, c', (), tc_out closing_conn) \<and> tc_out c' = []"
    by (rule closing_connection_flushes) (simp_all add: closing_conn_def writable_def)
  then show ?thesis by (simp add: closing_conn_def)
qed

subsection \<open>The table of a reactor\<close>

text \<open>
  A connection that stays in the table is registered for writing exactly when it has pending
  output, and one that is to be closed has pending output.
\<close>

definition tconn_ok :: "nat \<Rightarrow> tconn \<Rightarrow> bool" where
  "tconn_ok token c \<longleftrightarrow> tc_token c = token \<and> (tc_wants_write c \<longleftrightarrow> tc_out c \<noteq> []) \<and>
     (tc_close_after_flush c \<longrightarrow> tc_out c \<noteq> [])"

definition reactor_ok :: "options \<Rightarrow> reactor \<Rightarrow> bool" where
  "reactor_ok opts rx \<longleftrightarrow>
     distinct (map fst (rx_conns rx)) \<and> length (rx_conns rx) \<le> opt_max_connections opts \<and>
     0 < rx_next_token rx \<and>
     (\<forall>(token, c) \<in> set (rx_conns rx). 0 < token \<and> token < rx_next_token rx \<and> tconn_ok token c)"

text \<open>
  The reactors share the service, so that its state may change between the turns of one.
\<close>

inductive reactor_reach :: "'s service \<Rightarrow> options \<Rightarrow> reactor \<times> 's \<Rightarrow> bool" for service opts where
  reach_start: "reactor_reach service opts (reactor_new, s)"
| reach_turn: "reactor_reach service opts x \<Longrightarrow>
    reactor_turn service opts accepting events now x = Some y \<Longrightarrow> reactor_reach service opts y"
| reach_shared: "reactor_reach service opts (rx, s) \<Longrightarrow> reactor_reach service opts (rx, s')"

lemma handle_ready_kept:
  assumes "handle_ready service now readable reads writes c s = Some (False, c', s', sent)"
    and "tc_token c = token"
  shows "tconn_ok token c'"
  using assms handle_ready_emits[OF assms(1)]
  by (auto simp: handle_ready_def tconn_ok_def Let_def split: option.splits if_splits prod.splits
      dest!: update_interest_keeps)

lemma delete_fst_filter: "AList.delete k xs = filter (\<lambda>p. fst p \<noteq> k) xs"
  by (auto simp: AList.delete_eq intro!: filter_cong)

lemma close_conn_ok: "reactor_ok opts rx \<Longrightarrow> reactor_ok opts (close_conn token rx)"
proof -
  assume ok: "reactor_ok opts rx"
  have "length (AList.delete token (rx_conns rx)) \<le> length (rx_conns rx)"
    unfolding delete_fst_filter by (rule length_filter_le)
  with ok have "length (AList.delete token (rx_conns rx)) \<le> opt_max_connections opts"
    by (simp add: reactor_ok_def)
  with ok show ?thesis
    by (auto simp: reactor_ok_def close_conn_def distinct_delete delete_fst_filter distinct_map_filter)
qed

lemma update_present_length:
  "map_of xs k = Some v \<Longrightarrow> length (AList.update k w xs) = length xs"
  by (induction xs) auto

lemma update_absent_length: "map_of xs k = None \<Longrightarrow> length (AList.update k w xs) = Suc (length xs)"
  by (induction xs) auto

lemma set_update_subset: "distinct (map fst xs) \<Longrightarrow> set (AList.update k w xs) \<subseteq> insert (k, w) {p \<in> set xs. fst p \<noteq> k}"
  by (induction xs) (auto simp: image_iff split: if_splits)

lemma handle_token_ok:
  assumes "handle_token service rd (rx, s) = Some (rx', s')" and ok: "reactor_ok opts rx"
  shows "reactor_ok opts rx'"
proof (cases "map_of (rx_conns rx) (rd_token rd)")
  case None
  with assms show ?thesis by (simp add: handle_token_def)
next
  case (Some c)
  let ?c = "c\<lparr>tc_last_activity := rd_instant rd\<rparr>"
  from assms(1) Some obtain d c1 s1 sent where
    h: "handle_ready service (rd_unix rd) (rd_readable rd) (rd_reads rd) (rd_writes rd) ?c s = Some (d, c1, s1, sent)"
    by (auto simp: handle_token_def Let_def split: option.splits)
  define rx1 where "rx1 = rx\<lparr>rx_conns := AList.update (rd_token rd) c1 (rx_conns rx)\<rparr>"
  have rx': "rx' = (if d then close_conn (rd_token rd) rx1 else rx1)"
    using assms(1) Some h by (simp add: handle_token_def Let_def rx1_def split: if_splits)
  from Some have "(rd_token rd, c) \<in> set (rx_conns rx)" by (rule map_of_SomeD)
  with ok have tk: "0 < rd_token rd" "rd_token rd < rx_next_token rx" "tc_token c = rd_token rd"
    by (auto simp: reactor_ok_def tconn_ok_def)
  have dist: "distinct (map fst (rx_conns rx))" and len: "length (rx_conns rx) \<le> opt_max_connections opts"
    and others: "\<forall>(token, c) \<in> set (rx_conns rx). 0 < token \<and> token < rx_next_token rx \<and> tconn_ok token c"
    using ok by (simp_all add: reactor_ok_def)
  have dist1: "distinct (map fst (rx_conns rx1))" using dist by (simp add: rx1_def distinct_update)
  have len1: "length (rx_conns rx1) \<le> opt_max_connections opts"
    using len update_present_length[OF Some] by (simp add: rx1_def)
  have sub: "set (rx_conns rx1) \<subseteq> insert (rd_token rd, c1) {p \<in> set (rx_conns rx). fst p \<noteq> rd_token rd}"
    unfolding rx1_def using set_update_subset[OF dist] by simp
  show ?thesis
  proof (cases d)
    case False
    from h False have "handle_ready service (rd_unix rd) (rd_readable rd) (rd_reads rd) (rd_writes rd) ?c s
        = Some (False, c1, s1, sent)" by simp
    from handle_ready_kept[OF this, of "rd_token rd"] tk(3) have "tconn_ok (rd_token rd) c1" by simp
    with sub others tk dist1 len1 False ok rx' show ?thesis
      by (auto simp: reactor_ok_def rx1_def)
  next
    case True
    have "set (rx_conns rx') \<subseteq> set (rx_conns rx)" "distinct (map fst (rx_conns rx'))"
      "length (rx_conns rx') \<le> length (rx_conns rx1)" "rx_next_token rx' = rx_next_token rx"
      using True rx' sub dist1
      by (auto simp: close_conn_def delete_fst_filter distinct_map_filter rx1_def intro: le_trans[OF length_filter_le])
    with others len1 ok show ?thesis by (auto simp: reactor_ok_def)
  qed
qed

lemma accept_all_ok: "reactor_ok opts rx \<Longrightarrow> reactor_ok opts (accept_all opts instant accepts rx)"
proof (induction opts instant accepts rx rule: accept_all.induct)
  case (2 opts instant peer registered accepts rx)
  show ?case
  proof (cases "length (rx_conns rx) \<ge> opt_max_connections opts")
    case True
    with 2 show ?thesis by simp
  next
    case False
    let ?t = "rx_next_token rx" and ?rx = "rx\<lparr>rx_next_token := rx_next_token rx + 1\<rparr>"
    have ok: "reactor_ok opts ?rx" using "2.prems" by (auto simp: reactor_ok_def)
    show ?thesis
    proof (cases registered)
      case False
      with "2.IH"(2)[OF \<open>\<not> length (rx_conns rx) \<ge> opt_max_connections opts\<close> refl refl _ ok]
        \<open>\<not> length (rx_conns rx) \<ge> opt_max_connections opts\<close>
      show ?thesis by (simp add: Let_def)
    next
      case True
      let ?c = "tconn_new ?t (opt_security_headers opts) (opt_max_body opts) peer instant"
      let ?rx1 = "?rx\<lparr>rx_conns := AList.update ?t ?c (rx_conns ?rx)\<rparr>"
      have new: "map_of (rx_conns rx) ?t = None"
        using "2.prems" by (auto simp: reactor_ok_def map_of_eq_None_iff)
      have dist: "distinct (map fst (rx_conns rx))" using "2.prems" by (simp add: reactor_ok_def)
      have tok: "tconn_ok ?t ?c" by (simp add: tconn_ok_def tconn_new_def)
      have all: "0 < fst p \<and> fst p < Suc ?t \<and> tconn_ok (fst p) (snd p)" if "p \<in> set (rx_conns ?rx1)" for p
      proof -
        from that set_update_subset[OF dist, of ?t ?c] have "p = (?t, ?c) \<or> p \<in> set (rx_conns rx)" by auto
        then show ?thesis using "2.prems" tok by (auto simp: reactor_ok_def)
      qed
      then have "reactor_ok opts ?rx1"
        using "2.prems" update_absent_length[OF new, of ?c] False
        by (fastforce simp: reactor_ok_def distinct_update)
      with "2.IH"(3)[OF False refl refl] True False show ?thesis by (simp add: Let_def)
    qed
  qed
qed auto

lemma fold_close_ok: "reactor_ok opts rx \<Longrightarrow> reactor_ok opts (fold close_conn ts rx)"
  by (induction ts arbitrary: rx) (auto intro: close_conn_ok)

lemma poll_events_ok:
  "poll_events service opts accepting events x = Some y \<Longrightarrow> reactor_ok opts (fst x) \<Longrightarrow> reactor_ok opts (fst y)"
proof (induction service opts accepting events x rule: poll_events.induct)
  case (3 service opts accepting rd events x)
  then obtain z where z: "handle_token service rd x = Some z" "poll_events service opts accepting events z = Some y"
    by (auto split: option.splits)
  have "reactor_ok opts (fst z)"
    using handle_token_ok[of service rd "fst x" "snd x" "fst z" "snd z" opts] z(1) "3.prems"(2) by simp
  with "3.IH"[OF z] show ?case by simp
qed (auto simp: accept_all_ok split: if_splits)

lemma reactor_reach_ok: "reactor_reach service opts x \<Longrightarrow> reactor_ok opts (fst x)"
proof (induction rule: reactor_reach.induct)
  case (reach_start s)
  show ?case by (simp add: reactor_ok_def reactor_new_def)
next
  case (reach_turn x accepting events now y)
  then show ?case
    by (auto simp: reactor_turn_def sweep_idle_def Let_def fold_close_ok dest: poll_events_ok
        split: option.splits prod.splits)
qed simp

lemma sweep_filter:
  assumes "distinct (map fst (rx_conns rx))"
  shows "rx_conns (sweep_idle now idle rx) = filter (\<lambda>(_, c). now - tc_last_activity c \<le> idle) (rx_conns rx)"
proof -
  have "rx_conns (fold close_conn ts rx) = filter (\<lambda>p. fst p \<notin> set ts) (rx_conns rx)" for ts
    by (induction ts arbitrary: rx) (auto simp: close_conn_def delete_fst_filter intro!: filter_cong)
  then have "rx_conns (sweep_idle now idle rx) =
      filter (\<lambda>p. fst p \<notin> fst ` {q \<in> set (rx_conns rx). now - tc_last_activity (snd q) > idle}) (rx_conns rx)"
    by (simp add: sweep_idle_def Let_def split_def)
  also have "\<dots> = filter (\<lambda>(_, c). now - tc_last_activity c \<le> idle) (rx_conns rx)"
  proof (rule filter_cong[OF refl])
    fix p assume p: "p \<in> set (rx_conns rx)"
    have inj: "inj_on fst (set (rx_conns rx))" using assms by (simp add: distinct_map)
    have "fst p \<in> fst ` {q \<in> set (rx_conns rx). now - tc_last_activity (snd q) > idle}
        \<longleftrightarrow> now - tc_last_activity (snd p) > idle"
      using inj_onD[OF inj _ _ p] p by auto
    then show "(fst p \<notin> fst ` {q \<in> set (rx_conns rx). now - tc_last_activity (snd q) > idle})
        = (case p of (_, c) \<Rightarrow> now - tc_last_activity c \<le> idle)"
      by (simp add: split_def not_less)
  qed
  finally show ?thesis .
qed


definition sample_options :: options where
  "sample_options = \<lparr>opt_idle_timeout = 15, opt_max_connections = 5, opt_security_headers = False,
     opt_max_body = 100, opt_worker_threads = 2\<rparr>"

definition one_conn :: reactor where
  "one_conn = \<lparr>rx_conns = [(1, tconn_new 1 False 100 [] 0)], rx_next_token = 2\<rparr>"


subsection \<open>Shutting down\<close>

text \<open>No token is handed out and the table has no new one.\<close>

definition no_newcomer :: "reactor \<Rightarrow> reactor \<Rightarrow> bool" where
  "no_newcomer rx rx' \<longleftrightarrow> rx_next_token rx' = rx_next_token rx \<and> fst ` set (rx_conns rx') \<subseteq> fst ` set (rx_conns rx)"

lemma no_newcomer_refl [simp]: "no_newcomer rx rx"
  by (simp add: no_newcomer_def)

lemma no_newcomer_trans: "no_newcomer rx rx' \<Longrightarrow> no_newcomer rx' rx'' \<Longrightarrow> no_newcomer rx rx''"
  unfolding no_newcomer_def by (elim conjE, intro conjI) (simp, rule order_trans)

lemma no_newcomer_close: "no_newcomer rx (close_conn t rx)"
  unfolding no_newcomer_def close_conn_def delete_fst_filter
  by (simp add: image_mono)

lemma no_newcomer_fold_close: "no_newcomer rx (fold close_conn ts rx)"
proof (induction ts arbitrary: rx)
  case (Cons t ts)
  from no_newcomer_trans[OF no_newcomer_close Cons.IH] show ?case by simp
qed simp

lemma no_newcomer_update:
  "map_of (rx_conns rx) t = Some c \<Longrightarrow> no_newcomer rx (rx\<lparr>rx_conns := AList.update t c' (rx_conns rx)\<rparr>)"
proof -
  assume "map_of (rx_conns rx) t = Some c"
  then have "t \<in> fst ` set (rx_conns rx)" by (metis map_of_SomeD fst_conv image_eqI)
  then show ?thesis by (simp add: no_newcomer_def dom_update insert_absorb)
qed

lemma no_newcomer_token:
  assumes "handle_token service rd (rx, s) = Some (rx', s')"
  shows "no_newcomer rx rx'"
proof (cases "map_of (rx_conns rx) (rd_token rd)")
  case (Some c)
  let ?upd = "\<lambda>c1. rx\<lparr>rx_conns := AList.update (rd_token rd) c1 (rx_conns rx)\<rparr>"
  from assms Some obtain d c1 s1 sent where "handle_ready service (rd_unix rd) (rd_readable rd) (rd_reads rd)
      (rd_writes rd) (c\<lparr>tc_last_activity := rd_instant rd\<rparr>) s = Some (d, c1, s1, sent)"
    by (auto simp: handle_token_def Let_def split: option.splits)
  with assms Some have "rx' = close_conn (rd_token rd) (?upd c1) \<or> rx' = ?upd c1"
    by (simp add: handle_token_def Let_def split: if_splits)
  then show ?thesis
    using no_newcomer_trans[OF no_newcomer_update[OF Some] no_newcomer_close] no_newcomer_update[OF Some]
    by blast
qed (use assms in \<open>simp add: handle_token_def\<close>)

lemma no_newcomer_events:
  "poll_events service opts accepting events x = Some y \<Longrightarrow> \<not> accepting \<Longrightarrow> no_newcomer (fst x) (fst y)"
proof (induction service opts accepting events x rule: poll_events.induct)
  case (3 service opts accepting rd events x)
  then obtain z where z: "handle_token service rd x = Some z" "poll_events service opts accepting events z = Some y"
    by (auto split: option.splits)
  have "no_newcomer (fst x) (fst z)"
    using no_newcomer_token[of service rd "fst x" "snd x" "fst z" "snd z"] z(1) by simp
  with "3.IH"[OF z "3.prems"(2)] show ?case by (blast intro: no_newcomer_trans)
qed simp_all

lemma no_newcomer_drain_turn:
  assumes "reactor_turn service opts False events now x = Some y"
  shows "no_newcomer (fst x) (fst y)"
proof -
  from assms obtain z where z: "poll_events service opts False events x = Some z"
    "fst y = sweep_idle now (opt_idle_timeout opts) (fst z)"
    by (auto simp: reactor_turn_def split: option.splits)
  have "no_newcomer (fst z) (fst y)"
    unfolding z(2) sweep_idle_def Let_def by (rule no_newcomer_fold_close)
  with no_newcomer_events[OF z(1)] show ?thesis by (simp add: no_newcomer_trans)
qed

lemma drain_loop_ends:
  "drain_loop service opts deadline turns x = Some (status, y) \<Longrightarrow>
     no_newcomer (fst x) (fst y) \<and> ((\<exists>tn \<in> set turns. deadline \<le> tn_start tn) \<longrightarrow> status \<noteq> Running)"
proof (induction turns arbitrary: x)
  case (Cons tn turns)
  show ?case
  proof (cases "rx_conns (fst x) = [] \<or> deadline \<le> tn_start tn \<or> \<not> tn_poll_ok tn")
    case True
    with Cons.prems show ?thesis by (auto split: if_splits)
  next
    case False
    with Cons.prems obtain z where z: "reactor_turn service opts False (tn_events tn) (tn_sweep tn) x = Some z"
      "drain_loop service opts deadline turns z = Some (status, y)"
      by (auto split: option.splits)
    from Cons.IH[OF z(2)] no_newcomer_drain_turn[OF z(1)] False show ?thesis
      by (auto intro: no_newcomer_trans)
  qed
qed simp

text \<open>A shutdown ends. Once a turn sees the shutdown flag no connection is accepted any more
  (the tokens in the table are among those it had, and none is handed out), and at the latest
  with the first turn that begins five seconds later the reactor has finished, whatever the
  peers do.\<close>

theorem shutdown_ends:
  assumes "run_reactor service opts (tn # turns) x = Some (status, y)" and "tn_shutdown tn"
  shows "rx_next_token (fst y) = rx_next_token (fst x) \<and> fst ` set (rx_conns (fst y)) \<subseteq> fst ` set (rx_conns (fst x)) \<and>
    ((\<exists>tn' \<in> set turns. tn_start tn + 5 \<le> tn_start tn') \<longrightarrow> status \<noteq> Running)"
  using assms drain_loop_ends[of service opts "tn_start tn + SHUTDOWN_GRACE" "tn # turns" x status y]
  by (auto simp: SHUTDOWN_GRACE_def no_newcomer_def)

definition one_worker :: options where
  "one_worker = \<lparr>opt_idle_timeout = 60, opt_max_connections = 1, opt_security_headers = False,
     opt_max_body = 100, opt_worker_threads = 1\<rparr>"

definition stop_turn :: "nat \<Rightarrow> turn" where
  "stop_turn t = \<lparr>tn_shutdown = True, tn_start = t, tn_poll_ok = True,
     tn_events = [ListenerReady t [AcceptOk [] True]], tn_sweep = t\<rparr>"

lemma stop_turns:
  "run_reactor echo_service one_worker [stop_turn 7, stop_turn 12] (\<lparr>rx_conns = [(1, idle_conn)], rx_next_token = 2\<rparr>, ())
   = Some (Finished, \<lparr>rx_conns = [(1, idle_conn)], rx_next_token = 2\<rparr>, ())"
proof -
  have "tc_last_activity idle_conn = 0" by (simp add: idle_conn_def tconn_new_def)
  then show ?thesis
    by (simp add: stop_turn_def one_worker_def SHUTDOWN_GRACE_def reactor_turn_def sweep_idle_def)
qed

theorem shutdown_ends_witness:
  "Finished \<noteq> Running \<and> fst ` set [(1::nat, idle_conn)] \<subseteq> {1}"
  using shutdown_ends[OF stop_turns] by (simp add: stop_turn_def)

subsection \<open>A client that closes its side\<close>

text \<open>
  A client may send its last request and close its sending side at once. When both arrive with
  one readiness event the request has been read but the connection is dropped without an
  answer.
\<close>

theorem request_before_close_dropped:
  assumes "d \<noteq> []" and "\<not> tc_close_after_flush conn"
  shows "handle_ready service now True [ReadOk d, ReadOk []] writes conn s =
    Some (True, conn\<lparr>tc_state := feed d (tc_state conn)\<rparr>, s, [])"
  using assms by (simp add: handle_ready_def read_and_drive_def)

end
