(* ===== verification/Tls_Transport.thy ===== *)
theory Tls_Transport
  imports Transport_Theorems
begin

section \<open>The event loop over TLS\<close>

text \<open>
  The variants of \<open>transport_mio.rs\<close> for a connection with a TLS session. The session is an
  object of rustls and a parameter: a state with what the code calls on it. Reads and writes
  of the socket carry the bytes of the encrypted stream; \<open>tls_receive\<close> is \<open>read_tls\<close>
  with \<open>process_new_packets\<close> (\<open>None\<close> when that reports an error), \<open>tls_plaintext\<close> the
  loop over \<open>reader().read\<close> (the pieces it returns), \<open>tls_write\<close> is
  \<open>writer().write\<close> with the number of bytes it accepts, \<open>tls_pending\<close> what \<open>write_tls\<close> has to send.
\<close>

record 't tls_session =
  tls_receive :: "bytes \<Rightarrow> 't \<Rightarrow> 't option"
  tls_plaintext :: "'t \<Rightarrow> bytes list \<times> 't"
  tls_write :: "bytes \<Rightarrow> 't \<Rightarrow> nat \<times> 't"
  tls_close_notify :: "'t \<Rightarrow> 't"
  tls_pending :: "'t \<Rightarrow> bytes"
  tls_drained :: "nat \<Rightarrow> 't \<Rightarrow> 't"

record 't tls_conn = tconn +
  xc_session :: 't

fun tls_read_in ::
  "'t tls_session \<Rightarrow> io_read list \<Rightarrow> 't \<Rightarrow> connection \<Rightarrow> bool \<times> 't \<times> connection" where
  "tls_read_in tls [] t state = (False, t, state)"
| "tls_read_in tls (ReadOk wire # reads) t state =
     (if wire = [] then (True, t, state)
      else (case tls_receive tls wire t of
              None \<Rightarrow> (True, t, state)
            | Some t \<Rightarrow>
                (case tls_plaintext tls t of (pieces, t) \<Rightarrow> tls_read_in tls reads t (fold feed pieces state))))"
| "tls_read_in tls (ReadWouldBlock # reads) t state = (False, t, state)"
| "tls_read_in tls (ReadInterrupted # reads) t state = tls_read_in tls reads t state"
| "tls_read_in tls (ReadFailed # reads) t state = (True, t, state)"

text \<open>\<open>Write::write_all\<close>: it gives up when nothing is accepted; the error is ignored.\<close>

function tls_write_all :: "'t tls_session \<Rightarrow> bytes \<Rightarrow> 't \<Rightarrow> 't" where
  "tls_write_all tls d t =
     (if d = [] then t
      else (case tls_write tls d t of
              (n, t) \<Rightarrow> if n = 0 then t else tls_write_all tls (drop n d) t))"
  by pat_completeness auto
termination
  by (relation "measure (\<lambda>(tls, d, t). length d)") auto

declare tls_write_all.simps [simp del]

definition tls_queue_out :: "'t tls_session \<Rightarrow> 't \<Rightarrow> bytes \<Rightarrow> 't \<times> bytes" where
  "tls_queue_out tls t out = (if out \<noteq> [] then (tls_write_all tls out t, []) else (t, out))"

fun tls_write_out :: "'t tls_session \<Rightarrow> io_write list \<Rightarrow> 't \<Rightarrow> bytes \<Rightarrow> bool \<times> 't \<times> bytes" where
  "tls_write_out tls [] t sent = (False, t, sent)"
| "tls_write_out tls (w # writes) t sent =
     (if tls_pending tls t = [] then (False, t, sent)
      else (case w of
              WriteOk n \<Rightarrow>
                let n = min n (length (tls_pending tls t)) in
                if n = 0 then (True, t, sent)
                else tls_write_out tls writes (tls_drained tls n t) (sent @ take n (tls_pending tls t))
            | WriteWouldBlock \<Rightarrow> (False, t, sent)
            | WriteInterrupted \<Rightarrow> tls_write_out tls writes t sent
            | WriteFailed \<Rightarrow> (True, t, sent)))"

definition tls_update_interest :: "'t tls_session \<Rightarrow> 't tls_conn \<Rightarrow> bool \<times> 't tls_conn" where
  "tls_update_interest tls conn =
     (if tls_pending tls (xc_session conn) = [] then
        (if tc_close_after_flush conn then (True, conn)
         else if tc_wants_write conn then (False, conn\<lparr>tc_wants_write := False\<rparr>)
         else (False, conn))
      else if \<not> tc_wants_write conn then (False, conn\<lparr>tc_wants_write := True\<rparr>)
      else (False, conn))"

text \<open>The responses are encrypted before the \<open>close_notify\<close> is queued.\<close>

definition tls_read_and_drive ::
  "'t tls_session \<Rightarrow> 's service \<Rightarrow> nat \<Rightarrow> io_read list \<Rightarrow> 't tls_conn \<Rightarrow> 's \<Rightarrow> (bool \<times> 't tls_conn \<times> 's) option" where
  "tls_read_and_drive tls service now reads conn s =
     (case tls_read_in tls reads (xc_session conn) (tc_state conn) of (closed, t, state) \<Rightarrow>
        if closed then Some (True, conn\<lparr>tc_state := state, xc_session := t\<rparr>, s)
        else (case drive service now state s (tc_out conn) of
                None \<Rightarrow> None
              | Some (out, close, state, s) \<Rightarrow>
                  (case tls_queue_out tls t out of (t, out) \<Rightarrow>
                     let t = (if close then tls_close_notify tls t else t)
                     in Some (False, conn\<lparr>tc_state := state, tc_out := out, tc_close_after_flush := close,
                                         xc_session := t\<rparr>, s))))"

definition tls_handle_ready ::
  "'t tls_session \<Rightarrow> 's service \<Rightarrow> nat \<Rightarrow> bool \<Rightarrow> io_read list \<Rightarrow> io_write list \<Rightarrow> 't tls_conn \<Rightarrow> 's \<Rightarrow>
     (bool \<times> 't tls_conn \<times> 's \<times> bytes) option" where
  "tls_handle_ready tls service now readable reads writes conn s =
     (case (if readable \<and> \<not> tc_close_after_flush conn then tls_read_and_drive tls service now reads conn s
            else Some (False, conn, s)) of
        None \<Rightarrow> None
      | Some (closed, conn, s) \<Rightarrow>
          if closed then Some (True, conn, s, [])
          else (case tls_write_out tls writes (xc_session conn) [] of
                  (fatal, t, sent) \<Rightarrow>
                    let conn = conn\<lparr>xc_session := t\<rparr> in
                    if fatal then Some (True, conn, s, sent)
                    else (case tls_update_interest tls conn of (dropped, conn) \<Rightarrow> Some (dropped, conn, s, sent))))"

subsection \<open>What a session promises\<close>

text \<open>
  \<open>taken\<close> is the application data a session has accepted, which the peer will read, and
  \<open>closed\<close> whether \<open>close_notify\<close> has been queued; data written after that is discarded,
  as rustls documents. What is queued for the socket only grows at its end and is taken from
  its front.
\<close>

definition tls_laws :: "'t tls_session \<Rightarrow> ('t \<Rightarrow> bytes) \<Rightarrow> ('t \<Rightarrow> bool) \<Rightarrow> bool" where
  "tls_laws tls taken closed \<longleftrightarrow>
     (\<forall>w t t'. tls_receive tls w t = Some t' \<longrightarrow>
        taken t' = taken t \<and> closed t' = closed t \<and> prefix (tls_pending tls t) (tls_pending tls t')) \<and>
     (\<forall>t. taken (snd (tls_plaintext tls t)) = taken t \<and> closed (snd (tls_plaintext tls t)) = closed t \<and>
        prefix (tls_pending tls t) (tls_pending tls (snd (tls_plaintext tls t)))) \<and>
     (\<forall>d t n t'. tls_write tls d t = (n, t') \<longrightarrow>
        n \<le> length d \<and> taken t' = (if closed t then taken t else taken t @ take n d) \<and>
        closed t' = closed t \<and> prefix (tls_pending tls t) (tls_pending tls t')) \<and>
     (\<forall>t. taken (tls_close_notify tls t) = taken t \<and> closed (tls_close_notify tls t) \<and>
        prefix (tls_pending tls t) (tls_pending tls (tls_close_notify tls t))) \<and>
     (\<forall>n t. taken (tls_drained tls n t) = taken t \<and> closed (tls_drained tls n t) = closed t \<and>
        tls_pending tls (tls_drained tls n t) = drop n (tls_pending tls t))"

lemma tls_lawsD:
  assumes "tls_laws tls taken closed"
  shows "tls_receive tls w t = Some t' \<Longrightarrow>
      taken t' = taken t \<and> closed t' = closed t \<and> prefix (tls_pending tls t) (tls_pending tls t')"
    and "tls_plaintext tls t = (ps, t') \<Longrightarrow>
      taken t' = taken t \<and> closed t' = closed t \<and> prefix (tls_pending tls t) (tls_pending tls t')"
    and "tls_write tls d t = (n, t') \<Longrightarrow>
      n \<le> length d \<and> taken t' = (if closed t then taken t else taken t @ take n d) \<and>
        closed t' = closed t \<and> prefix (tls_pending tls t) (tls_pending tls t')"
    and "taken (tls_close_notify tls t) = taken t" and "closed (tls_close_notify tls t)"
    and "prefix (tls_pending tls t) (tls_pending tls (tls_close_notify tls t))"
    and "taken (tls_drained tls n t) = taken t" and "closed (tls_drained tls n t) = closed t"
    and "tls_pending tls (tls_drained tls n t) = drop n (tls_pending tls t)"
  using assms unfolding tls_laws_def by (blast, metis snd_conv, blast+)

text \<open>
  A session without a buffer limit accepts everything. rustls has a limit of 64 kilobytes unless
  \<open>set_buffer_limit(None)\<close> is called.
\<close>

definition tls_unlimited :: "'t tls_session \<Rightarrow> bool" where
  "tls_unlimited tls \<longleftrightarrow> (\<forall>d t. fst (tls_write tls d t) = length d)"

lemma tls_write_all_keeps:
  "tls_laws tls taken closed \<Longrightarrow>
     closed (tls_write_all tls d t) = closed t \<and> prefix (tls_pending tls t) (tls_pending tls (tls_write_all tls d t)) \<and>
     (\<not> closed t \<longrightarrow> (\<exists>k \<le> length d. taken (tls_write_all tls d t) = taken t @ take k d \<and>
        (tls_unlimited tls \<longrightarrow> k = length d)))"
proof (induction tls d t rule: tls_write_all.induct)
  case (1 tls d t)
  obtain n t1 where w: "tls_write tls d t = (n, t1)" by fastforce
  note k = tls_lawsD(3)[OF "1.prems" w]
  have u: "tls_unlimited tls \<Longrightarrow> n = length d" using w unfolding tls_unlimited_def by (metis fst_conv)
  show ?case
  proof (cases "d = [] \<or> n = 0")
    case True
    then have e: "tls_write_all tls d t = (if d = [] then t else t1)" using w by (auto simp: tls_write_all.simps[of tls d])
    show ?thesis
      unfolding e using k u True by (auto intro!: exI[of _ n])
  next
    case False
    then have e: "tls_write_all tls d t = tls_write_all tls (drop n d) t1"
      using w by (simp add: tls_write_all.simps[of tls d])
    from False have ih: "closed (tls_write_all tls (drop n d) t1) = closed t1"
      "prefix (tls_pending tls t1) (tls_pending tls (tls_write_all tls (drop n d) t1))"
      "\<not> closed t1 \<longrightarrow> (\<exists>k \<le> length (drop n d). taken (tls_write_all tls (drop n d) t1) = taken t1 @ take k (drop n d) \<and>
         (tls_unlimited tls \<longrightarrow> k = length (drop n d)))"
      using "1.IH"[OF _ w[symmetric] _ "1.prems"] by auto
    show ?thesis
    proof (intro conjI impI)
      show "closed (tls_write_all tls d t) = closed t" using e ih(1) k by simp
      show "prefix (tls_pending tls t) (tls_pending tls (tls_write_all tls d t))"
        unfolding e using ih(2) k prefix_order.trans by blast
      assume nc: "\<not> closed t"
      with ih(3) k obtain j where j: "j \<le> length (drop n d)"
        "taken (tls_write_all tls (drop n d) t1) = taken t1 @ take j (drop n d)"
        "tls_unlimited tls \<longrightarrow> j = length (drop n d)" by auto
      have "taken (tls_write_all tls d t) = taken t @ take (n + j) d"
        using e j(2) k nc by (simp add: take_add)
      then show "\<exists>k \<le> length d. taken (tls_write_all tls d t) = taken t @ take k d \<and> (tls_unlimited tls \<longrightarrow> k = length d)"
        using j(1,3) k by (intro exI[of _ "n + j"]) auto
    qed
  qed
qed

lemma feed_nothing [simp]: "feed [] c = c"
  by (simp add: feed_def)

lemma feed_feed: "feed d (feed d' c) = feed (d' @ d) c"
  by (simp add: feed_def)

lemma fold_feed: "fold feed pieces state = feed (concat pieces) state"
  by (induction pieces arbitrary: state) (simp_all add: feed_def)

lemma tls_read_in_keeps:
  "tls_read_in tls reads t state = (ended, t', state') \<Longrightarrow> tls_laws tls taken closed \<Longrightarrow>
     taken t' = taken t \<and> closed t' = closed t \<and> prefix (tls_pending tls t) (tls_pending tls t') \<and>
     (\<exists>data. state' = feed data state)"
proof (induction tls reads t state rule: tls_read_in.induct)
  case (2 tls wire reads t state)
  show ?case
  proof (cases "wire = [] \<or> tls_receive tls wire t = None")
    case True
    then have "t' = t" "state' = state" using "2.prems"(1) by (auto split: if_splits)
    then show ?thesis by (auto intro: exI[of _ "[]"])
  next
    case False
    then obtain t1 where r: "tls_receive tls wire t = Some t1" and w: "wire \<noteq> []" by auto
    obtain ps t2 where p: "tls_plaintext tls t1 = (ps, t2)" by fastforce
    have "tls_read_in tls reads t2 (fold feed ps state) = (ended, t', state')"
      using "2.prems"(1) r p w by simp
    note ih = "2.IH"[OF w r p[symmetric] this "2.prems"(2)]
    note d = tls_lawsD(1)[OF "2.prems"(2) r] tls_lawsD(2)[OF "2.prems"(2) p]
    have "prefix (tls_pending tls t) (tls_pending tls t')"
      using ih d prefix_order.trans by blast
    with ih d show ?thesis by (auto simp: fold_feed feed_feed)
  qed
qed (auto intro: exI[of _ "[]"])

lemma tls_write_out_keeps:
  "tls_write_out tls writes t sent = (fatal, t', sent') \<Longrightarrow> tls_laws tls taken closed \<Longrightarrow>
     taken t' = taken t \<and> closed t' = closed t \<and> sent' @ tls_pending tls t' = sent @ tls_pending tls t"
proof (induction tls writes t sent rule: tls_write_out.induct)
  case (2 tls w writes t sent)
  note d = tls_lawsD(7-9)[OF "2.prems"(2)]
  show ?case
    using "2.prems" "2.IH" d
    by (cases w) (auto simp: Let_def split: if_splits)
qed simp

subsection \<open>The refinement\<close>

text \<open>Between events the plaintext queue is empty and the session is closed with the connection.\<close>

definition tls_inv :: "('t \<Rightarrow> bool) \<Rightarrow> 't tls_conn \<Rightarrow> bool" where
  "tls_inv closed c \<longleftrightarrow> tc_out c = [] \<and> (closed (xc_session c) \<longleftrightarrow> tc_close_after_flush c)"

definition tls_emits ::
  "'t tls_session \<Rightarrow> ('t \<Rightarrow> bytes) \<Rightarrow> 's service \<Rightarrow> 't tls_conn \<times> 's \<Rightarrow> bytes \<Rightarrow> bytes list \<Rightarrow> 't tls_conn \<times> 's \<Rightarrow> bool" where
  "tls_emits tls taken service x sent bs y \<longleftrightarrow>
     taken (xc_session (fst y)) = taken (xc_session (fst x)) @ concat bs \<and>
     (\<exists>new. sent @ tls_pending tls (xc_session (fst y)) = tls_pending tls (xc_session (fst x)) @ new) \<and>
     (if tc_close_after_flush (fst x)
      then bs = [] \<and> tc_close_after_flush (fst y) \<and> tc_state (fst y) = tc_state (fst x) \<and> snd y = snd x
      else conn_emits service (tc_state (fst x), snd x) bs (tc_close_after_flush (fst y)) (tc_state (fst y), snd y))"

lemma tls_read_and_drive_emits:
  assumes "tls_read_and_drive tls service now reads c s = Some (ended, c', s')" and "tls_laws tls taken closed"
    and "tls_inv closed c" and "\<not> tc_close_after_flush c" and "tls_unlimited tls"
  shows "tls_inv closed c' \<and> (\<exists>bs. tls_emits tls taken service (c, s) [] bs (c', s'))"
proof -
  obtain b t st where r: "tls_read_in tls reads (xc_session c) (tc_state c) = (b, t, st)" by (metis prod_cases3)
  from tls_read_in_keeps[OF r assms(2)] obtain data where
    k: "taken t = taken (xc_session c)" "closed t = closed (xc_session c)"
      "prefix (tls_pending tls (xc_session c)) (tls_pending tls t)" "st = feed data (tc_state c)" by auto
  show ?thesis
  proof (cases b)
    case True
    have "Some (True, c\<lparr>tc_state := st, xc_session := t\<rparr>, s) = Some (ended, c', s')"
      using assms(1) True unfolding tls_read_and_drive_def r prod.case by (simp only: if_True)
    then have c': "c' = c\<lparr>tc_state := st, xc_session := t\<rparr>" "s' = s"
      unfolding option.inject prod.inject by blast+
    have "conn_emits service (tc_state c, s) [] False (st, s)"
      unfolding k(4) by (rule emits_fed, rule emits_nothing)
    moreover obtain new where "tls_pending tls t = tls_pending tls (xc_session c) @ new"
      using k(3) by (auto simp: prefix_def)
    ultimately have "tls_emits tls taken service (c, s) [] [] (c', s')"
      using assms(4) k(1) by (simp add: tls_emits_def c')
    moreover have "tls_inv closed c'" using assms(3) k(2) by (simp add: tls_inv_def c'(1))
    ultimately show ?thesis by blast
  next
    case False
    with assms(1) r obtain out close st' where
      dr: "drive service now st s (tc_out c) = Some (out, close, st', s')"
      by (cases "drive service now st s (tc_out c)") (auto simp: tls_read_and_drive_def split: prod.splits)
    from drive_emits[OF dr] obtain bs where
      bs: "out = concat bs" "conn_emits service (st, s) bs close (st', s')"
      using assms(3) by (auto simp: tls_inv_def)
    define t1 where "t1 = fst (tls_queue_out tls t out)"
    define t2 where "t2 = (if close then tls_close_notify tls t1 else t1)"
    have nc: "\<not> closed t" using assms(3,4) k(2) by (simp add: tls_inv_def)
    have t1: "taken t1 = taken t @ out" "\<not> closed t1" "prefix (tls_pending tls t) (tls_pending tls t1)"
      using tls_write_all_keeps[OF assms(2), of out t] nc assms(5) by (auto simp: t1_def tls_queue_out_def)
    have t2: "taken t2 = taken t1" "closed t2 = close" "prefix (tls_pending tls t1) (tls_pending tls t2)"
      using tls_lawsD(4-6)[OF assms(2)] t1(2) by (simp_all add: t2_def)
    have out: "snd (tls_queue_out tls t out) = []" by (simp add: tls_queue_out_def)
    have c': "c' = c\<lparr>tc_state := st', tc_out := [], tc_close_after_flush := close, xc_session := t2\<rparr>"
      using assms(1) False r dr out
      by (cases "tls_queue_out tls t out") (auto simp: tls_read_and_drive_def t1_def t2_def Let_def)
    have "prefix (tls_pending tls (xc_session c)) (tls_pending tls t2)"
      using k(3) t1(3) t2(3) prefix_order.trans by blast
    then obtain new where "tls_pending tls t2 = tls_pending tls (xc_session c) @ new"
      by (auto simp: prefix_def)
    moreover have "conn_emits service (tc_state c, s) bs close (st', s')"
      using bs(2) unfolding k(4) by (rule emits_fed)
    ultimately have "tls_emits tls taken service (c, s) [] bs (c', s')"
      using assms(4) k(1) t1(1) t2(1) bs(1) by (simp add: tls_emits_def c')
    moreover have "tls_inv closed c'" using t2(2) by (simp add: tls_inv_def c')
    ultimately show ?thesis by blast
  qed
qed

lemma tls_update_interest_keeps:
  "tls_update_interest tls c = (d, c') \<Longrightarrow>
     tc_state c' = tc_state c \<and> tc_out c' = tc_out c \<and> tc_close_after_flush c' = tc_close_after_flush c \<and>
     xc_session c' = xc_session c \<and> (d \<longrightarrow> tls_pending tls (xc_session c) = [])"
  by (auto simp: tls_update_interest_def split: if_splits)

lemma tls_emits_trans:
  assumes "tls_emits tls taken service x sent bs y" and "tls_emits tls taken service y sent' bs' z"
  shows "tls_emits tls taken service x (sent @ sent') (bs @ bs') z"
proof -
  obtain new new' where n: "sent @ tls_pending tls (xc_session (fst y)) = tls_pending tls (xc_session (fst x)) @ new"
    "sent' @ tls_pending tls (xc_session (fst z)) = tls_pending tls (xc_session (fst y)) @ new'"
    using assms unfolding tls_emits_def by blast
  have "(sent @ sent') @ tls_pending tls (xc_session (fst z)) = tls_pending tls (xc_session (fst x)) @ (new @ new')"
    using n by simp
  moreover have "taken (xc_session (fst z)) = taken (xc_session (fst x)) @ concat (bs @ bs')"
    using assms unfolding tls_emits_def by simp
  moreover have "if tc_close_after_flush (fst x)
      then bs @ bs' = [] \<and> tc_close_after_flush (fst z) \<and> tc_state (fst z) = tc_state (fst x) \<and> snd z = snd x
      else conn_emits service (tc_state (fst x), snd x) (bs @ bs') (tc_close_after_flush (fst z)) (tc_state (fst z), snd z)"
  proof (cases "tc_close_after_flush (fst x)")
    case True
    with assms show ?thesis unfolding tls_emits_def by simp
  next
    case False
    then have e: "conn_emits service (tc_state (fst x), snd x) bs (tc_close_after_flush (fst y)) (tc_state (fst y), snd y)"
      using assms(1) unfolding tls_emits_def by simp
    show ?thesis
    proof (cases "tc_close_after_flush (fst y)")
      case True
      with e False assms(2) show ?thesis unfolding tls_emits_def by simp
    next
      case still_open: False
      with assms(2) have "conn_emits service (tc_state (fst y), snd y) bs' (tc_close_after_flush (fst z)) (tc_state (fst z), snd z)"
        unfolding tls_emits_def by simp
      with conn_emits_trans[OF e still_open] False show ?thesis by simp
    qed
  qed
  ultimately show ?thesis unfolding tls_emits_def by blast
qed

lemma tls_handle_ready_emits:
  assumes "tls_handle_ready tls service now readable reads writes c s = Some (dropped, c', s', sent)"
    and "tls_laws tls taken closed" and "tls_inv closed c" and "tls_unlimited tls"
  shows "tls_inv closed c' \<and> (\<exists>bs. tls_emits tls taken service (c, s) sent bs (c', s'))"
proof -
  define first where "first = (if readable \<and> \<not> tc_close_after_flush c then tls_read_and_drive tls service now reads c s
     else Some (False, c, s))"
  from assms(1) obtain ended c1 s1 where f: "first = Some (ended, c1, s1)"
    by (auto simp: tls_handle_ready_def first_def[symmetric] split: option.splits)
  have "tls_inv closed c1 \<and> (\<exists>bs. tls_emits tls taken service (c, s) [] bs (c1, s1))"
  proof (cases "readable \<and> \<not> tc_close_after_flush c")
    case True
    with f have "tls_read_and_drive tls service now reads c s = Some (ended, c1, s1)" by (simp add: first_def)
    from tls_read_and_drive_emits[OF this assms(2,3) _ assms(4)] True show ?thesis by blast
  next
    case False
    with f have "c1 = c" "s1 = s" by (auto simp: first_def)
    then have "tls_emits tls taken service (c, s) [] [] (c1, s1)"
      by (simp add: tls_emits_def emits_nothing)
    with assms(3) \<open>c1 = c\<close> show ?thesis by blast
  qed
  then obtain bs where inv1: "tls_inv closed c1" and e1: "tls_emits tls taken service (c, s) [] bs (c1, s1)" by blast
  show ?thesis
  proof (cases ended)
    case True
    with assms(1) f have "c' = c1" "s' = s1" "sent = []"
      by (auto simp: tls_handle_ready_def first_def[symmetric])
    with inv1 e1 show ?thesis by blast
  next
    case False
    obtain fatal t snt where w: "tls_write_out tls writes (xc_session c1) [] = (fatal, t, snt)"
      by (metis prod_cases3)
    note k = tls_write_out_keeps[OF w assms(2)]
    have c': "xc_session c' = t" "sent = snt" "s' = s1" "tc_state c' = tc_state c1"
      "tc_close_after_flush c' = tc_close_after_flush c1" "tc_out c' = tc_out c1"
      using assms(1) f w False
      by (auto simp: tls_handle_ready_def first_def[symmetric] Let_def split: if_splits prod.splits
          dest!: tls_update_interest_keeps)
    have "tls_emits tls taken service (c1, s1) sent [] (c', s')"
      using k by (simp add: tls_emits_def c' emits_nothing)
    from tls_emits_trans[OF e1 this] have "tls_emits tls taken service (c, s) sent bs (c', s')" by simp
    moreover have "tls_inv closed c'" using inv1 k by (simp add: tls_inv_def c')
    ultimately show ?thesis by blast
  qed
qed

fun tls_conn_events ::
  "'t tls_session \<Rightarrow> 's service \<Rightarrow> ready list \<Rightarrow> 't tls_conn \<Rightarrow> 's \<Rightarrow> (bool \<times> 't tls_conn \<times> 's \<times> bytes) option" where
  "tls_conn_events tls service [] c s = Some (False, c, s, [])"
| "tls_conn_events tls service (rd # rds) c s =
     (case tls_handle_ready tls service (rd_unix rd) (rd_readable rd) (rd_reads rd) (rd_writes rd)
             (c\<lparr>tc_last_activity := rd_instant rd\<rparr>) s of
        None \<Rightarrow> None
      | Some (dropped, c, s, sent) \<Rightarrow>
          if dropped then Some (True, c, s, sent)
          else (case tls_conn_events tls service rds c s of
                  None \<Rightarrow> None
                | Some (dropped, c, s, later) \<Rightarrow> Some (dropped, c, s, sent @ later)))"

lemma tls_active [simp]:
  "tls_inv closed (c\<lparr>tc_last_activity := i\<rparr>) = tls_inv closed c"
  "tls_emits tls taken service (c\<lparr>tc_last_activity := i\<rparr>, s) sent bs y = tls_emits tls taken service (c, s) sent bs y"
  by (simp_all add: tls_inv_def tls_emits_def)

lemma tls_conn_events_emits:
  assumes "tls_laws tls taken closed" and "tls_unlimited tls"
  shows "tls_conn_events tls service rds c s = Some (dropped, c', s', sent) \<Longrightarrow> tls_inv closed c \<Longrightarrow>
    tls_inv closed c' \<and> (\<exists>bs. tls_emits tls taken service (c, s) sent bs (c', s'))"
proof (induction rds arbitrary: c s sent)
  case Nil
  then have "tls_emits tls taken service (c, s) sent [] (c', s')"
    by (simp add: tls_emits_def emits_nothing)
  with Nil show ?case by auto
next
  case (Cons rd rds)
  obtain d1 c1 s1 sent1 where h: "tls_handle_ready tls service (rd_unix rd) (rd_readable rd) (rd_reads rd) (rd_writes rd)
      (c\<lparr>tc_last_activity := rd_instant rd\<rparr>) s = Some (d1, c1, s1, sent1)"
    using Cons.prems(1) by (auto split: option.splits)
  from tls_handle_ready_emits[OF h assms(1) _ assms(2)] Cons.prems(2) obtain bs where
    i1: "tls_inv closed c1" and e1: "tls_emits tls taken service (c, s) sent1 bs (c1, s1)" by auto
  show ?case
  proof (cases d1)
    case True
    with Cons.prems(1) h have "c' = c1" "s' = s1" "sent = sent1" by auto
    with i1 e1 show ?thesis by blast
  next
    case False
    with Cons.prems(1) h obtain later where
      m: "tls_conn_events tls service rds c1 s1 = Some (dropped, c', s', later)" "sent = sent1 @ later"
      by (auto split: option.splits)
    from Cons.IH[OF m(1) i1] obtain cs where
      i2: "tls_inv closed c'" and e2: "tls_emits tls taken service (c1, s1) later cs (c', s')" by blast
    from tls_emits_trans[OF e1 e2] i2 m(2) show ?thesis by blast
  qed
qed


subsection \<open>A session with a buffer limit\<close>

text \<open>
  The output queue is cleared whatever was accepted. A session that has room for fewer bytes
  than the responses of an event takes as many as fit, and the rest is lost without an error,
  although the head of the response has announced it.
\<close>

theorem limited_session_truncates:
  assumes "tls_laws tls taken closed" and "\<not> closed t"
    and "\<And>d t. \<not> closed t \<Longrightarrow> fst (tls_write tls d t) = min (length d) (room t)"
    and "\<And>d t. \<not> closed t \<Longrightarrow> room (snd (tls_write tls d t)) = room t - fst (tls_write tls d t)"
    and "room t < length out"
  shows "taken (fst (tls_queue_out tls t out)) = taken t @ take (room t) out \<and> snd (tls_queue_out tls t out) = []"
proof -
  obtain n t1 where w: "tls_write tls out t = (n, t1)" by fastforce
  have n: "n = room t" and r1: "room t1 = 0"
    using assms(3)[OF assms(2), of out] assms(4)[OF assms(2), of out] assms(5) w by simp_all
  note k = tls_lawsD(3)[OF assms(1) w]
  have ne: "out \<noteq> []" using assms(5) by auto
  have "taken (tls_write_all tls out t) = taken t @ take (room t) out"
  proof (cases "n = 0")
    case True
    with w ne k n assms(2) show ?thesis by (simp add: tls_write_all.simps[of tls out])
  next
    case False
    obtain m t2 where w2: "tls_write tls (drop n out) t1 = (m, t2)" by fastforce
    have m: "m = 0" using assms(3)[of t1 "drop n out"] assms(2) k r1 w2 by simp
    have "tls_write_all tls out t = tls_write_all tls (drop n out) t1"
      using w ne False by (simp add: tls_write_all.simps[of tls out])
    also have "\<dots> = t2"
      using w2 m n assms(5) by (subst tls_write_all.simps) simp
    finally show ?thesis using tls_lawsD(3)[OF assms(1) w2] k m n assms(2) by simp
  qed
  with ne show ?thesis by (simp add: tls_queue_out_def)
qed

subsection \<open>A session without encryption\<close>

record null_session =
  ns_in :: bytes
  ns_out :: bytes
  ns_taken :: bytes
  ns_closed :: bool

text \<open>
  The records of the null cipher are the data; closing sends two bytes; the buffer limit, if
  any, counts the bytes taken.
\<close>

definition null_room :: "nat \<Rightarrow> null_session \<Rightarrow> nat" where
  "null_room limit t = limit - length (ns_taken t)"

definition null_accepts :: "nat option \<Rightarrow> bytes \<Rightarrow> null_session \<Rightarrow> nat" where
  "null_accepts limit d t = (case limit of None \<Rightarrow> length d | Some l \<Rightarrow> min (length d) (null_room l t))"

definition null_tls :: "nat option \<Rightarrow> null_session tls_session" where
  "null_tls limit = \<lparr>tls_receive = (\<lambda>w t. Some (t\<lparr>ns_in := ns_in t @ w\<rparr>)),
     tls_plaintext = (\<lambda>t. ([ns_in t], t\<lparr>ns_in := []\<rparr>)),
     tls_write = (\<lambda>d t. (null_accepts limit d t,
       if ns_closed t then t
       else t\<lparr>ns_out := ns_out t @ take (null_accepts limit d t) d,
              ns_taken := ns_taken t @ take (null_accepts limit d t) d\<rparr>)),
     tls_close_notify = (\<lambda>t. t\<lparr>ns_out := ns_out t @ [CHR 0x01, CHR 0x00], ns_closed := True\<rparr>),
     tls_pending = ns_out, tls_drained = (\<lambda>n t. t\<lparr>ns_out := drop n (ns_out t)\<rparr>)\<rparr>"

lemma null_tls_laws: "tls_laws (null_tls limit) ns_taken ns_closed"
  by (simp add: tls_laws_def null_tls_def null_accepts_def split: option.split)

lemma null_tls_unlimited: "tls_unlimited (null_tls None)"
  by (simp add: tls_unlimited_def null_tls_def null_accepts_def)

definition null_conn :: "null_session tls_conn" where
  "null_conn = tconn.extend idle_conn
     \<lparr>xc_session = \<lparr>ns_in = [], ns_out = [], ns_taken = [], ns_closed = False\<rparr>\<rparr>"

lemma null_events:
  "tls_conn_events (null_tls None) echo_service [two_bytes] null_conn () =
     Some (False, null_conn\<lparr>tc_state := feed ''GE'' (tc_state idle_conn), tc_last_activity := 5\<rparr>, (), [])"
proof -
  have c: "tc_state null_conn = tc_state idle_conn" "tc_out null_conn = []" "\<not> tc_close_after_flush null_conn"
    "\<not> tc_wants_write null_conn" "xc_session null_conn = \<lparr>ns_in = [], ns_out = [], ns_taken = [], ns_closed = False\<rparr>"
    by (simp_all add: null_conn_def idle_conn_def tconn_new_def tconn.defs)
  show ?thesis
    using two_bytes_drive
    by (simp add: two_bytes_def tls_handle_ready_def tls_read_and_drive_def null_tls_def tls_queue_out_def
        tls_update_interest_def c)
qed


theorem limited_session_truncates_witness:
  "ns_taken (fst (tls_queue_out (null_tls (Some 3)) (xc_session null_conn) ''HTTP'')) = ''HTT''"
proof -
  have "ns_taken (fst (tls_queue_out (null_tls (Some 3)) (xc_session null_conn) ''HTTP''))
      = ns_taken (xc_session null_conn) @ take (null_room 3 (xc_session null_conn)) ''HTTP''"
    by (rule limited_session_truncates[OF null_tls_laws, THEN conjunct1])
       (auto simp: null_tls_def null_accepts_def null_room_def null_conn_def tconn.defs)
  then show ?thesis by (simp add: null_room_def null_conn_def tconn.defs eval_nat_numeral)
qed

end
