(* ===== verification/Embedded.thy ===== *)
theory Embedded
  imports Transport_Theorems
begin

section \<open>The smoltcp transport of the embedded profile\<close>

text \<open>
  \<open>crates/embedded/src/lib.rs\<close>. The socket belongs to smoltcp and is a parameter: what it
  answers during one call of \<open>pump_connection\<close> is a record (whether it is open, what there
  is to receive, how much room there is to send). The results are the error or not, the state,
  the bytes handed to the socket, and whether the socket was told to listen or to close.
\<close>

datatype transport_error = ListenError | RecvError | SendError

datatype recv_outcome = CannotRecv | RecvBytes bytes | RecvFails
datatype send_outcome = CannotSend | SendRoom nat | SendFails

record socket_io =
  io_open :: bool
  io_listen_ok :: bool
  io_recv :: recv_outcome
  io_send :: send_outcome

record conn_state =
  es_conn :: connection
  es_out :: bytes
  es_close :: bool
  es_has_clock :: bool

definition state_with_clock :: "bool \<Rightarrow> conn_state" where
  "state_with_clock has_clock =
     \<lparr>es_conn = set_clock has_clock conn_new, es_out = [], es_close = False, es_has_clock = has_clock\<rparr>"

definition state_new :: conn_state where
  "state_new = state_with_clock True"

definition state_reset :: "conn_state \<Rightarrow> conn_state" where
  "state_reset st = st\<lparr>es_conn := set_clock (es_has_clock st) conn_new, es_out := [], es_close := False\<rparr>"

datatype socket_call = Listened | Sent bytes | SocketClosed | Aborted

text \<open>The flushing part: as much as there is room for, then the close when all is out.\<close>

definition pump_flush :: "send_outcome \<Rightarrow> conn_state \<Rightarrow> (transport_error + unit) \<times> conn_state \<times> socket_call list" where
  "pump_flush send st =
     (case (if es_out st \<noteq> []
            then (case send of
                    CannotSend \<Rightarrow> Inr (st, [])
                  | SendFails \<Rightarrow> Inl SendError
                  | SendRoom n \<Rightarrow>
                      let sent = min n (length (es_out st)) in
                      Inr (st\<lparr>es_out := drop sent (es_out st)\<rparr>, [Sent (take sent (es_out st))]))
            else Inr (st, [])) of
        Inl e \<Rightarrow> (Inl e, st, [])
      | Inr (st, calls) \<Rightarrow>
          if es_close st \<and> es_out st = []
          then (Inr (), st\<lparr>es_close := False\<rparr>, calls @ [SocketClosed])
          else (Inr (), st, calls))"

definition pump_connection ::
  "'s service \<Rightarrow> nat \<Rightarrow> socket_io \<Rightarrow> conn_state \<Rightarrow> 's \<Rightarrow>
     ((transport_error + unit) \<times> conn_state \<times> socket_call list \<times> 's) option" where
  "pump_connection service now_unix io st s =
     (if \<not> io_open io then
        (if io_listen_ok io then Some (Inr (), state_reset st, [Listened], s)
         else Some (Inl ListenError, st, [], s))
      else
        (case (case io_recv io of
                 CannotRecv \<Rightarrow> Inr st
               | RecvBytes buf \<Rightarrow> Inr (st\<lparr>es_conn := feed buf (es_conn st)\<rparr>)
               | RecvFails \<Rightarrow> Inl RecvError) of
           Inl e \<Rightarrow> Some (Inl e, st, [], s)
         | Inr st \<Rightarrow>
             (case drive service now_unix (es_conn st) s (es_out st) of
                None \<Rightarrow> None
              | Some (out, close, conn, s) \<Rightarrow>
                  (case pump_flush (io_send io)
                      (st\<lparr>es_conn := conn, es_out := out, es_close := es_close st \<or> close\<rparr>) of
                     (r, st, calls) \<Rightarrow> Some (r, st, calls, s)))))"

text \<open>
  One pass of \<open>serve_smoltcp\<close> over a socket: an error aborts the connection, and the next
  pass arms the socket again.
\<close>

definition serve_socket ::
  "'s service \<Rightarrow> nat \<Rightarrow> socket_io \<Rightarrow> conn_state \<Rightarrow> 's \<Rightarrow> (conn_state \<times> socket_call list \<times> 's) option" where
  "serve_socket service now_unix io st s =
     (case pump_connection service now_unix io st s of
        None \<Rightarrow> None
      | Some (Inl e, st, calls, s) \<Rightarrow> Some (state_reset st, calls @ [Aborted], s)
      | Some (Inr _, st, calls, s) \<Rightarrow> Some (st, calls, s))"

text \<open>The bytes of the calls, in order.\<close>

fun sent_bytes :: "socket_call list \<Rightarrow> bytes" where
  "sent_bytes [] = []"
| "sent_bytes (Sent b # calls) = b @ sent_bytes calls"
| "sent_bytes (_ # calls) = sent_bytes calls"

lemma sent_bytes_append [simp]: "sent_bytes (a @ b) = sent_bytes a @ sent_bytes b"
  by (induction a rule: sent_bytes.induct) simp_all

lemma pump_flush_spec:
  assumes "pump_flush send st = (r, st', calls)"
  shows "sent_bytes calls @ es_out st' = es_out st" and "es_conn st' = es_conn st"
    and "SocketClosed \<in> set calls \<Longrightarrow> es_out st' = [] \<and> es_close st"
    and "r = Inr () \<Longrightarrow> es_close st' \<Longrightarrow> es_out st' \<noteq> []"
    and "Listened \<notin> set calls \<and> Aborted \<notin> set calls"
    and "es_has_clock st' = es_has_clock st"
  using assms
  by (auto simp: pump_flush_def Let_def split: if_splits send_outcome.splits sum.splits)

lemma pump_open:
  assumes "pump_connection service now io st s = Some (r, st', calls, s')" and "io_open io"
    and "r \<noteq> Inl RecvError"
  obtains bs closed st1 where
    "conn_emits service (es_conn st, s) bs closed (es_conn st', s')"
    "pump_flush (io_send io) st1 = (r, st', calls)" "es_out st1 = es_out st @ concat bs"
    "es_close st1 \<longleftrightarrow> es_close st \<or> closed"
proof -
  define fed where "fed = (case io_recv io of CannotRecv \<Rightarrow> Inr st
      | RecvBytes buf \<Rightarrow> Inr (st\<lparr>es_conn := feed buf (es_conn st)\<rparr>) | RecvFails \<Rightarrow> Inl RecvError)"
  have "fed \<noteq> Inl e" for e
    using assms by (auto simp: pump_connection_def fed_def split: recv_outcome.splits)
  then obtain st2 where f: "fed = Inr st2" by (cases fed) auto
  then have st2: "es_out st2 = es_out st" "es_close st2 = es_close st"
    "\<exists>d. es_conn st2 = feed d (es_conn st) \<or> es_conn st2 = es_conn st"
    by (auto simp: fed_def split: recv_outcome.splits)
  from assms f obtain out close conn where
    d: "drive service now (es_conn st2) s (es_out st2) = Some (out, close, conn, s')" and
    fl: "pump_flush (io_send io) (st2\<lparr>es_conn := conn, es_out := out, es_close := es_close st2 \<or> close\<rparr>) = (r, st', calls)"
    by (auto simp: pump_connection_def fed_def[symmetric] split: option.splits prod.splits)
  from drive_emits[OF d] obtain bs where bs: "out = es_out st2 @ concat bs"
    "conn_emits service (es_conn st2, s) bs close (conn, s')" by blast
  from pump_flush_spec(2)[OF fl] have "es_conn st' = conn" by simp
  with bs st2 have "conn_emits service (es_conn st, s) bs close (es_conn st', s')"
    by (auto intro: emits_feed)
  from that[OF this fl] bs st2 show thesis by simp
qed

text \<open>C29: one pump over an open socket hands to the socket, in front of what it keeps, exactly
  the output that was pending and what the steps of the connection wrote, in order; the socket
  is told to close only when a response asked for it and nothing is left to send, and a close
  that is still owed has output pending (an error of the socket apart, which drops the
  connection).\<close>

theorem pump_refines_connection:
  assumes "pump_connection service now io st s = Some (r, st', calls, s')" and "io_open io"
    and "r = Inr ()"
  shows "\<exists>bs closed. conn_emits service (es_conn st, s) bs closed (es_conn st', s') \<and>
     sent_bytes calls @ es_out st' = es_out st @ concat bs \<and>
     (SocketClosed \<in> set calls \<longrightarrow> es_out st' = [] \<and> (es_close st \<or> closed)) \<and>
     (es_close st \<or> closed \<longrightarrow> SocketClosed \<in> set calls \<or> es_out st' \<noteq> [])"
proof -
  from assms have "r \<noteq> Inl RecvError" by simp
  from pump_open[OF assms(1,2) this] obtain bs closed st1 where
    e: "conn_emits service (es_conn st, s) bs closed (es_conn st', s')" and
    f: "pump_flush (io_send io) st1 = (r, st', calls)" and
    o: "es_out st1 = es_out st @ concat bs" "es_close st1 \<longleftrightarrow> es_close st \<or> closed" .
  have "es_close st1 \<Longrightarrow> SocketClosed \<in> set calls \<or> es_out st' \<noteq> []"
    using f assms(3) by (auto simp: pump_flush_def Let_def split: if_splits send_outcome.splits sum.splits)
  with e o pump_flush_spec(1,3)[OF f] show ?thesis by auto
qed

definition quiet_io :: socket_io where
  "quiet_io = \<lparr>io_open = True, io_listen_ok = True, io_recv = CannotRecv, io_send = SendRoom 2\<rparr>"

lemma quiet_pump:
  "pump_connection echo_service 0 quiet_io (state_new\<lparr>es_out := ''abc''\<rparr>) () =
     Some (Inr (), state_new\<lparr>es_out := ''c''\<rparr>, [Sent ''ab''], ())"
proof -
  have "conn_buf (es_conn state_new) = []" "conn_max_body (es_conn state_new) = MAX_BODY_BYTES"
    by (simp_all add: state_new_def state_with_clock_def set_clock_def conn_new_def conn_with_policy_def)
  then have "conn_step echo_service 0 (es_conn state_new) () = Some (NeedMore, es_conn state_new, ())"
    by (simp add: conn_step_partial parse_with_def MAX_HEAD_BYTES_def expect_action_def find_subslice_def)
  from drive_needmore[OF this, of "''abc''"] show ?thesis
    by (simp add: pump_connection_def quiet_io_def pump_flush_def Let_def state_new_def state_with_clock_def)
qed

theorem pump_refines_connection_witness:
  "\<exists>bs closed. conn_emits echo_service (es_conn state_new, ()) bs closed (es_conn state_new, ()) \<and>
     ''abc'' = ''abc'' @ concat bs"
  using pump_refines_connection[OF quiet_pump] by (auto simp: quiet_io_def)

subsection \<open>Pumping again after an error response\<close>

text \<open>
  An error leaves the offending bytes in the buffer, and a pump steps the connection although
  a close is owed. As long as the socket takes nothing, every pump adds the error response to
  the output once more, without a bound.
\<close>

lemma pump_error_again:
  assumes "parse_with (conn_buf (es_conn st)) (conn_max_body (es_conn st)) = Err e"
    and "io_open io" "io_recv io = CannotRecv" "io_send io = CannotSend"
  shows "pump_connection service now io st s =
    Some (Inr (), st\<lparr>es_out := es_out st @ serialize (error_response e now (conn_policy (es_conn st))) False,
                    es_close := True\<rparr>, [], s)"
proof -
  have ne: "serialize (error_response e now (conn_policy (es_conn st))) False \<noteq> []"
    by (simp add: serialize_def Let_def)
  show ?thesis
    using drive_close[OF conn_step_error[OF assms(1), of service now s], of "es_out st"] assms(2-) ne
    by (simp add: pump_connection_def pump_flush_def)
qed

fun pump_times :: "nat \<Rightarrow> 's service \<Rightarrow> nat \<Rightarrow> socket_io \<Rightarrow> conn_state \<Rightarrow> 's \<Rightarrow> (conn_state \<times> 's) option" where
  "pump_times 0 service now io st s = Some (st, s)"
| "pump_times (Suc n) service now io st s =
     (case serve_socket service now io st s of
        None \<Rightarrow> None
      | Some (st, calls, s) \<Rightarrow> pump_times n service now io st s)"

theorem error_response_repeated:
  assumes "parse_with (conn_buf (es_conn st)) (conn_max_body (es_conn st)) = Err e"
    and "io_open io" "io_recv io = CannotRecv" "io_send io = CannotSend"
  shows "\<exists>st'. pump_times n service now io st s = Some (st', s) \<and>
    es_out st' = es_out st @
      concat (replicate n (serialize (error_response e now (conn_policy (es_conn st))) False))"
  using assms(1)
proof (induction n arbitrary: st)
  case (Suc n)
  define b where "b = serialize (error_response e now (conn_policy (es_conn st))) False"
  let ?st = "st\<lparr>es_out := es_out st @ b, es_close := True\<rparr>"
  have "serve_socket service now io st s = Some (?st, [], s)"
    using pump_error_again[OF Suc.prems assms(2-), of service now s] by (simp add: serve_socket_def b_def)
  moreover obtain st' where "pump_times n service now io ?st s = Some (st', s)"
    "es_out st' = es_out ?st @ concat (replicate n (serialize (error_response e now (conn_policy (es_conn ?st))) False))"
    using Suc.IH[of ?st] Suc.prems by auto
  ultimately show ?case by (simp add: b_def)
qed simp

end
