(* ===== verification/Compress.thy ===== *)
theory Compress
  imports Numerals "HOL-Library.Word"
begin

unbundle bit_operations_syntax

section \<open>The gzip container\<close>

text \<open>
  \<open>crates/core/src/compress.rs\<close>. The DEFLATE encoder is the package \<open>miniz_oxide\<close> and
  a parameter; the header, the trailer and the CRC-32 are the code's own, the checksum on 32-bit
  words as in the source.
\<close>

fun crc_rounds :: "nat \<Rightarrow> 32 word \<Rightarrow> 32 word" where
  "crc_rounds 0 crc = crc"
| "crc_rounds (Suc n) crc =
     (let mask = - (crc AND 1) in crc_rounds n (drop_bit 1 crc XOR (0xEDB88320 AND mask)))"

fun crc_loop :: "bytes \<Rightarrow> 32 word \<Rightarrow> 32 word" where
  "crc_loop [] crc = crc"
| "crc_loop (byte # data) crc = crc_loop data (crc_rounds 8 (crc XOR word_of_nat (byte_val byte)))"

definition crc32 :: "bytes \<Rightarrow> 32 word" where
  "crc32 data = NOT (crc_loop data 0xFFFFFFFF)"

text \<open>\<open>u32::to_le_bytes\<close>.\<close>

definition to_le_bytes :: "32 word \<Rightarrow> bytes" where
  "to_le_bytes w = map (\<lambda>i. char_of (unat (take_bit 8 (drop_bit (8 * i) w)))) [0..<4]"

definition gzip_header :: bytes where
  "gzip_header = [CHR 0x1F, CHR 0x8B, CHR 0x08, CHR 0x00, CHR 0x00, CHR 0x00, CHR 0x00, CHR 0x00,
     CHR 0x00, CHR 0xFF]"

definition gzip_encode :: "(bytes \<Rightarrow> bytes) \<Rightarrow> bytes \<Rightarrow> bytes" where
  "gzip_encode deflate data =
     gzip_header @ deflate data @ to_le_bytes (crc32 data) @ to_le_bytes (word_of_nat (length data))"

text \<open>The reader of the container (RFC 1952), for an inflater that undoes the encoder.\<close>

definition of_le_bytes :: "bytes \<Rightarrow> 32 word" where
  "of_le_bytes s = word_of_nat (foldr (\<lambda>c n. byte_val c + 256 * n) s 0)"

definition gunzip :: "(bytes \<Rightarrow> bytes option) \<Rightarrow> bytes \<Rightarrow> bytes option" where
  "gunzip inflate z =
     (if length z < 18 \<or> take 10 z \<noteq> gzip_header then None
      else let payload = take (length z - 18) (drop 10 z); trailer = drop (length z - 8) z in
        (case inflate payload of
           None \<Rightarrow> None
         | Some data \<Rightarrow>
             if of_le_bytes (take 4 trailer) = crc32 data \<and>
                of_le_bytes (drop 4 trailer) = word_of_nat (length data)
             then Some data else None))"

lemma length_to_le_bytes [simp]: "length (to_le_bytes w) = 4"
  by (simp add: to_le_bytes_def)

lemma to_le_bytes_div: "to_le_bytes w = map (\<lambda>i. char_of (unat w div 256 ^ i mod 256)) [0..<4]"
proof -
  have "unat (take_bit 8 (drop_bit (8 * i) w)) = unat w div 256 ^ i mod 256" for i
  proof -
    have "take_bit 32 (unat w) = unat w" using unsigned_less[of w] by (simp add: take_bit_nat_eq_self_iff)
    then have "unat (take_bit 8 (drop_bit (8 * i) w)) = take_bit 8 (drop_bit (8 * i) (unat w))"
      by (simp only: unsigned_take_bit_eq unsigned_drop_bit_eq) simp
    then have "unat (take_bit 8 (drop_bit (8 * i) w)) = unat w div 2 ^ (8 * i) mod 2 ^ 8"
      by (simp only: take_bit_eq_mod drop_bit_eq_div)
    then show ?thesis by (simp add: power_mult)
  qed
  then show ?thesis by (simp add: to_le_bytes_def)
qed

lemma of_to_le_bytes [simp]: "of_le_bytes (to_le_bytes w) = w"
proof -
  let ?n = "unat w"
  have lt: "?n < 256 ^ 4" using unsigned_less[of w] by simp
  then have m4: "?n div 16777216 mod 256 = ?n div 16777216" by simp
  have digits: "?n mod 256 + 256 * (?n div 256 mod 256 + 256 * (?n div 65536 mod 256 + 256 * (?n div 16777216 mod 256))) = ?n"
  proof -
    have "?n div 65536 mod 256 + 256 * (?n div 16777216) = ?n div 65536"
      using mod_mult_div_eq[of "?n div 65536" 256] by (simp flip: div_mult2_eq)
    moreover have "?n div 256 mod 256 + 256 * (?n div 65536) = ?n div 256"
      using mod_mult_div_eq[of "?n div 256" 256] by (simp flip: div_mult2_eq)
    ultimately show ?thesis using mod_mult_div_eq[of ?n 256] m4 by simp
  qed
  have four: "[0..<4] = [0, 1, 2, 3]" by (simp add: upt_rec)
  have "foldr (\<lambda>c n. byte_val c + 256 * n) (to_le_bytes w) 0 = ?n"
    using digits m4 by (simp add: to_le_bytes_div four)
  then show ?thesis by (simp add: of_le_bytes_def)
qed

text \<open>What the container holds is read back, whatever the pair of encoder and decoder.\<close>

lemma length_gzip_header [simp]: "length gzip_header = 10"
  by (simp add: gzip_header_def)

lemma gunzip_gzip:
  assumes "inflate (deflate data) = Some data"
  shows "gunzip inflate (gzip_encode deflate data) = Some data"
proof -
  define t1 where "t1 = to_le_bytes (crc32 data)"
  define t2 where "t2 = to_le_bytes (word_of_nat (length data))"
  have z: "gzip_encode deflate data = gzip_header @ deflate data @ t1 @ t2" and l: "length t1 = 4" "length t2 = 4"
    by (simp_all add: gzip_encode_def t1_def t2_def)
  have "of_le_bytes t1 = crc32 data" "of_le_bytes t2 = word_of_nat (length data)"
    unfolding t1_def t2_def by (rule of_to_le_bytes)+
  with assms l show ?thesis by (simp add: gunzip_def z Let_def)
qed

end
