(* ===== verification/Fs_Assets.thy ===== *)
theory Fs_Assets
  imports Static_Files
begin

section \<open>Files under a document root\<close>

text \<open>
  \<open>crates/std-server/src/fs_assets.rs\<close>. The file system is a parameter: a record of the
  system calls the code makes. A path is the list of its components below the file system's
  root (Unix), so that \<open>starts_with\<close> is the prefix of lists and \<open>join\<close> appends; joining
  an absolute path replaces. What the core asks for has no empty segments.
\<close>

type_synonym path = "bytes list"

record filesystem =
  fs_canonicalize :: "path \<Rightarrow> path option"
  fs_is_symlink :: "path \<Rightarrow> bool option"
  fs_metadata :: "path \<Rightarrow> (bool \<times> nat option) option"
  fs_read :: "path \<Rightarrow> bytes option"

record fs_assets =
  fa_root :: path
  fa_follow_symlinks :: bool

datatype component = RootDir | CurDir | ParentDir | Normal bytes

text \<open>\<open>Path::components\<close>: a \<open>.\<close> is only kept at the front.\<close>

definition components :: "bytes \<Rightarrow> component list" where
  "components rel_path =
     (let segs = split_on (CHR ''/'') rel_path;
          front = (if starts_with ''/'' rel_path then [RootDir]
                   else if hd segs = ''.'' then [CurDir] else [])
      in front @ map (\<lambda>s. if s = ''..'' then ParentDir else Normal s)
           (filter (\<lambda>s. s \<noteq> [] \<and> s \<noteq> ''.'') segs))"

definition path_join :: "path \<Rightarrow> bytes \<Rightarrow> path" where
  "path_join root rel_path =
     (let rel = filter (\<lambda>s. s \<noteq> [] \<and> s \<noteq> ''.'') (split_on (CHR ''/'') rel_path)
      in if starts_with ''/'' rel_path then rel else root @ rel)"

fun symlink_loop :: "filesystem \<Rightarrow> path \<Rightarrow> component list \<Rightarrow> bool" where
  "symlink_loop fs path [] = False"
| "symlink_loop fs path (Normal part # rest) =
     (let path = path @ [part] in
      case fs_is_symlink fs path of
        Some True \<Rightarrow> True
      | Some False \<Rightarrow> symlink_loop fs path rest
      | None \<Rightarrow> True)"
| "symlink_loop fs path (CurDir # rest) = symlink_loop fs path rest"
| "symlink_loop fs path (_ # rest) = True"

definition traverses_symlink :: "filesystem \<Rightarrow> path \<Rightarrow> bytes \<Rightarrow> bool" where
  "traverses_symlink fs root rel_path = symlink_loop fs root (components rel_path)"

definition fs_load :: "filesystem \<Rightarrow> fs_assets \<Rightarrow> asset_load" where
  "fs_load fs assets rel_path =
     (case fs_canonicalize fs (fa_root assets) of
        None \<Rightarrow> None
      | Some canonical_root \<Rightarrow>
          (case fs_canonicalize fs (path_join canonical_root rel_path) of
             None \<Rightarrow> None
           | Some candidate \<Rightarrow>
               if \<not> starts_with canonical_root candidate then None
               else if \<not> fa_follow_symlinks assets \<and> traverses_symlink fs canonical_root rel_path then None
               else (case fs_metadata fs candidate of
                       None \<Rightarrow> None
                     | Some (is_file, mtime) \<Rightarrow>
                         if \<not> is_file then None
                         else (case fs_read fs candidate of
                                 None \<Rightarrow> None
                               | Some bytes \<Rightarrow> Some \<lparr>asset_bytes = bytes, asset_mtime = mtime\<rparr>))))"

definition fs_exists :: "filesystem \<Rightarrow> fs_assets \<Rightarrow> bytes \<Rightarrow> bool" where
  "fs_exists fs assets rel_path =
     (case fs_canonicalize fs (fa_root assets) of
        None \<Rightarrow> False
      | Some canonical_root \<Rightarrow>
          (case fs_canonicalize fs (path_join canonical_root rel_path) of
             None \<Rightarrow> False
           | Some candidate \<Rightarrow>
               if \<not> starts_with canonical_root candidate then False
               else if \<not> fa_follow_symlinks assets \<and> traverses_symlink fs canonical_root rel_path then False
               else (case fs_metadata fs candidate of Some (is_file, _) \<Rightarrow> is_file | None \<Rightarrow> False)))"

text \<open>When every regular file can be read, the two agree: the law of an asset source.\<close>

definition files_readable :: "filesystem \<Rightarrow> bool" where
  "files_readable fs \<longleftrightarrow> (\<forall>p mtime. fs_metadata fs p = Some (True, mtime) \<longrightarrow> fs_read fs p \<noteq> None)"

lemma fs_asset_source: "files_readable fs \<Longrightarrow> asset_source (fs_load fs assets) (fs_exists fs assets)"
proof
  fix p assume "files_readable fs"
  then show "fs_exists fs assets p \<longleftrightarrow> fs_load fs assets p \<noteq> None"
    by (auto simp: fs_exists_def fs_load_def files_readable_def split: option.splits if_splits)
qed

text \<open>The prefixes of the path below the root that are looked at are no symbolic links.\<close>

lemma symlink_loop_false:
  "\<not> symlink_loop fs path (map (\<lambda>s. if s = ''..'' then ParentDir else Normal s) segs) \<longleftrightarrow>
     ''..'' \<notin> set segs \<and> (\<forall>k < length segs. fs_is_symlink fs (path @ take (Suc k) segs) = Some False)"
proof (induction segs arbitrary: path)
  case (Cons s segs)
  show ?case
    using Cons.IH[of "path @ [s]"]
    by (cases "fs_is_symlink fs (path @ [s])")
       (auto simp: Let_def All_less_Suc2 split: bool.splits)
qed simp

text \<open>
  What is loaded is the content of a regular file whose canonical path lies below the canonical
  root; without \<open>follow_symlinks\<close>, no component of the requested path is a symbolic link
  and none leads upwards.
\<close>

lemma fs_load_contained:
  assumes "fs_load fs assets rel_path = Some a"
  obtains root candidate mtime where
    "fs_canonicalize fs (fa_root assets) = Some root"
    "fs_canonicalize fs (path_join root rel_path) = Some candidate" "prefix root candidate"
    "fs_metadata fs candidate = Some (True, mtime)" "fs_read fs candidate = Some (asset_bytes a)"
    "asset_mtime a = mtime"
    "fa_follow_symlinks assets \<or> \<not> traverses_symlink fs root rel_path"
proof -
  from assms obtain root candidate mtime bytes where
    "fs_canonicalize fs (fa_root assets) = Some root"
    "fs_canonicalize fs (path_join root rel_path) = Some candidate" "starts_with root candidate"
    "fs_metadata fs candidate = Some (True, mtime)" "fs_read fs candidate = Some bytes"
    "a = \<lparr>asset_bytes = bytes, asset_mtime = mtime\<rparr>"
    "fa_follow_symlinks assets \<or> \<not> traverses_symlink fs root rel_path"
    by (auto simp: fs_load_def split: option.splits if_splits prod.splits)
  moreover from this(3) have "prefix root candidate"
    by (metis starts_with_def take_is_prefix)
  ultimately show thesis by (intro that) simp_all
qed

end
