(* ===== verification/App.thy ===== *)
theory App
  imports Router Conditional Security Compress Conn Config Fs_Assets
begin

section \<open>The request handlers\<close>

text \<open>
  \<open>crates/std-server/src/app.rs\<close> and \<open>crates/embedded/src/app.rs\<close>: the services the
  two profiles hand to their transports. The asset source is a pair of functions as in
  \<open>Static_Files\<close>. The state of the std service is the limiter behind its mutex and the log;
  a log entry holds what the line is formatted from. \<open>app_deflate\<close> is the encoder of
  \<open>miniz_oxide\<close>, or \<open>None\<close> in a build without the gzip feature.
\<close>

subsection \<open>The embedded profile\<close>

record static_router =
  sr_router :: router
  sr_load :: asset_load
  sr_index_files :: "bytes list"
  sr_mime_overrides :: "(bytes \<times> bytes) list"

definition static_router_handle :: "static_router \<Rightarrow> request \<Rightarrow> response" where
  "static_router_handle app request =
     (case dispatch (sr_router app) request of
        Some response \<Rightarrow> response
      | None \<Rightarrow>
          (case (if req_method request = Get \<or> req_method request = Head
                 then serve_static (req_path request) (sr_index_files app) (sr_load app) (sr_mime_overrides app)
                 else None) of
             Some response \<Rightarrow> evaluate request response
           | None \<Rightarrow> resp_text NOT_FOUND ''404 Not Found''))"

subsection \<open>The std profile\<close>

record app =
  app_router :: router
  app_load :: asset_load
  app_exists :: "bytes \<Rightarrow> bool"
  app_index_files :: "bytes list"
  app_mime_overrides :: "(bytes \<times> bytes) list"
  app_access_log :: bool
  app_compression :: compression_config
  app_deflate :: "(bytes \<Rightarrow> bytes) option"

record log_entry =
  log_peer :: bytes
  log_method :: bytes
  log_path :: bytes
  log_status :: status_code

record app_state =
  as_limiter :: "rate_limiter option"
  as_log :: "log_entry list"

definition allow_methods :: "http_method list \<Rightarrow> http_method list" where
  "allow_methods allowed =
     (let methods = (if Get \<in> set allowed \<and> Head \<notin> set allowed then allowed @ [Head] else allowed)
      in if Options \<notin> set methods then methods @ [Options] else methods)"

fun join_methods :: "nat \<Rightarrow> http_method list \<Rightarrow> bytes" where
  "join_methods i [] = []"
| "join_methods i (m # ms) = (if i > 0 then '', '' else []) @ method_as_str m @ join_methods (i + 1) ms"

definition allow_header_value :: "http_method list \<Rightarrow> bytes" where
  "allow_header_value allowed = join_methods 0 (allow_methods allowed)"

definition app_dispatch :: "app \<Rightarrow> request \<Rightarrow> response" where
  "app_dispatch app request =
     (if req_method request = Options \<and> req_target request = ''*'' then
        (let methods = registered_methods (app_router app);
             methods = (if Get \<notin> set methods then methods @ [Get] else methods)
         in with_header (resp_new OK) ''Allow'' (allow_header_value methods))
      else (case dispatch (app_router app) request of
        Some response \<Rightarrow> response
      | None \<Rightarrow>
          (case (if req_method request = Get \<or> req_method request = Head
                 then serve_static (req_path request) (app_index_files app) (app_load app) (app_mime_overrides app)
                 else None) of
             Some response \<Rightarrow> evaluate request response
           | None \<Rightarrow>
               let allowed = allowed_methods (app_router app) (req_path request) in
               if allowed \<noteq> [] then
                 (if req_method request = Options
                  then with_header (resp_new OK) ''Allow'' (allow_header_value allowed)
                  else with_header (resp_text METHOD_NOT_ALLOWED ''405 Method Not Allowed'')
                         ''Allow'' (allow_header_value allowed))
               else if static_exists (req_path request) (app_index_files app) (app_exists app) then
                 (if req_method request = Options
                  then with_header (resp_new OK) ''Allow'' ''GET, HEAD, OPTIONS''
                  else with_header (resp_text METHOD_NOT_ALLOWED ''405 Method Not Allowed'')
                         ''Allow'' ''GET, HEAD, OPTIONS'')
               else resp_text NOT_FOUND ''404 Not Found'')))"

definition accepts_gzip :: "request \<Rightarrow> bool" where
  "accepts_gzip request =
     (case req_header request ''accept-encoding'' of
        None \<Rightarrow> False
      | Some value \<Rightarrow>
          list_ex (\<lambda>enc. eq_ignore_ascii_case (hd (split_on (CHR '';'') (trim enc))) ''gzip'')
            (split_on (CHR '','') value))"

definition is_compressible :: "response \<Rightarrow> bool" where
  "is_compressible r =
     (case resp_header r ''content-type'' of
        None \<Rightarrow> False
      | Some ct \<Rightarrow>
          let ct = to_ascii_lowercase ct in
          starts_with ''text/'' ct \<or> starts_with ''application/json'' ct \<or>
          starts_with ''application/xml'' ct \<or> starts_with ''application/javascript'' ct \<or>
          starts_with ''image/svg+xml'' ct)"

definition has_header :: "response \<Rightarrow> bytes \<Rightarrow> bool" where
  "has_header r name \<longleftrightarrow> resp_header r name \<noteq> None"

definition post_process :: "app \<Rightarrow> request \<Rightarrow> response \<Rightarrow> response" where
  "post_process app request r =
     (case app_deflate app of
        None \<Rightarrow> r
      | Some deflate \<Rightarrow>
          if \<not> cp_gzip (app_compression app) \<or> length (resp_body r) < cp_min_bytes (app_compression app) \<or>
             \<not> accepts_gzip request \<or> \<not> is_compressible r \<or> has_header r ''content-encoding''
          then r
          else with_header (with_header (r\<lparr>resp_body := gzip_encode deflate (resp_body r)\<rparr>)
                 ''Content-Encoding'' ''gzip'') ''Vary'' ''Accept-Encoding'')"

definition app_log :: "app \<Rightarrow> request \<Rightarrow> request_context \<Rightarrow> status_code \<Rightarrow> app_state \<Rightarrow> app_state" where
  "app_log app request ctx status st =
     (if \<not> app_access_log app then st
      else st\<lparr>as_log := as_log st @
             [\<lparr>log_peer = ctx_peer ctx, log_method = method_as_str (req_method request),
               log_path = req_path request, log_status = status\<rparr>]\<rparr>)"

definition app_handle :: "app \<Rightarrow> app_state service" where
  "app_handle app st request ctx =
     (case (case as_limiter st of
              None \<Rightarrow> (Allow, st)
            | Some limiter \<Rightarrow>
                (case check limiter (ctx_peer ctx) (ctx_now ctx) of
                   (decision, limiter) \<Rightarrow> (decision, st\<lparr>as_limiter := Some limiter\<rparr>))) of
        (Deny retry_after_secs, st) \<Rightarrow>
          let response = with_header (resp_text TOO_MANY_REQUESTS ''429 Too Many Requests'')
                           ''Retry-After'' (show_nat retry_after_secs)
          in (response, app_log app request ctx (resp_status response) st)
      | (Allow, st) \<Rightarrow>
          let response = post_process app request (app_dispatch app request)
          in (response, app_log app request ctx (resp_status response) st))"

end
