(* ===== verification/Sha256.thy ===== *)
theory Sha256
  imports Compress
begin

section \<open>SHA-256 and Basic authentication\<close>

text \<open>
  \<open>crates/std-server/src/webui/sha256.rs\<close>: the digest on 32-bit words, as the source
  computes it block by block, base64 decoding on bytes (8-bit words, whose shifts drop the high
  bits), and the check of an \<open>Authorization\<close> header.
\<close>

definition H0 :: "32 word list" where
  "H0 = [0x6a09e667, 0xbb67ae85, 0x3c6ef372, 0xa54ff53a, 0x510e527f, 0x9b05688c, 0x1f83d9ab, 0x5be0cd19]"

text \<open>The constant table, row by row as the source lays it out.\<close>

definition K :: "32 word list" where
  "K = concat [
    [0x428a2f98, 0x71374491, 0xb5c0fbcf, 0xe9b5dba5, 0x3956c25b, 0x59f111f1, 0x923f82a4, 0xab1c5ed5],
    [0xd807aa98, 0x12835b01, 0x243185be, 0x550c7dc3, 0x72be5d74, 0x80deb1fe, 0x9bdc06a7, 0xc19bf174],
    [0xe49b69c1, 0xefbe4786, 0x0fc19dc6, 0x240ca1cc, 0x2de92c6f, 0x4a7484aa, 0x5cb0a9dc, 0x76f988da],
    [0x983e5152, 0xa831c66d, 0xb00327c8, 0xbf597fc7, 0xc6e00bf3, 0xd5a79147, 0x06ca6351, 0x14292967],
    [0x27b70a85, 0x2e1b2138, 0x4d2c6dfc, 0x53380d13, 0x650a7354, 0x766a0abb, 0x81c2c92e, 0x92722c85],
    [0xa2bfe8a1, 0xa81a664b, 0xc24b8b70, 0xc76c51a3, 0xd192e819, 0xd6990624, 0xf40e3585, 0x106aa070],
    [0x19a4c116, 0x1e376c08, 0x2748774c, 0x34b0bcb5, 0x391c0cb3, 0x4ed8aa4a, 0x5b9cca4f, 0x682e6ff3],
    [0x748f82ee, 0x78a5636f, 0x84c87814, 0x8cc70208, 0x90befffa, 0xa4506ceb, 0xbef9a3f7, 0xc67178f2]]"

subsection \<open>Padding and blocks\<close>

function pad_loop :: "bytes \<Rightarrow> bytes" where
  "pad_loop msg = (if length msg mod 64 \<noteq> 56 then pad_loop (msg @ [CHR 0x00]) else msg)"
  by pat_completeness auto
termination
proof (relation "measure (\<lambda>msg. (120 - length msg mod 64) mod 64)", simp)
  fix msg :: bytes assume ne: "length msg mod 64 \<noteq> 56"
  define x where "x = length msg mod 64"
  have x: "x < 64" "x \<noteq> 56" using ne by (simp_all add: x_def)
  have s: "length (msg @ [CHR 0x00]) mod 64 = (if x = 63 then 0 else Suc x)"
    by (simp add: x_def mod_Suc)
  have "(120 - (if x = 63 then 0 else Suc x)) mod 64 < (120 - x) mod 64"
  proof (cases "x < 56")
    case True
    then have "(120 - x) mod 64 = 56 - x" "(120 - Suc x) mod 64 = 55 - x" by (simp_all add: le_mod_geq)
    with True show ?thesis by simp
  next
    case False
    with x show ?thesis by auto
  qed
  with s show "(msg @ [CHR 0x00], msg) \<in> measure (\<lambda>msg. (120 - length msg mod 64) mod 64)"
    by (simp add: x_def[symmetric])
qed

declare pad_loop.simps [simp del]

text \<open>\<open>u64::to_be_bytes\<close>.\<close>

definition to_be_bytes :: "64 word \<Rightarrow> bytes" where
  "to_be_bytes w = map (\<lambda>i. char_of (unat (take_bit 8 (drop_bit (8 * (7 - i)) w)))) [0..<8]"

definition sha_pad :: "bytes \<Rightarrow> bytes" where
  "sha_pad input = pad_loop (input @ [CHR 0x80]) @ to_be_bytes (word_of_nat (length input) * 8)"

text \<open>\<open>chunks_exact\<close>, and the blocks of a text of any length.\<close>

function chunks_exact :: "nat \<Rightarrow> bytes \<Rightarrow> bytes list" where
  "chunks_exact n s = (if n = 0 \<or> length s < n then [] else take n s # chunks_exact n (drop n s))"
  by pat_completeness auto
termination by (relation "measure (\<lambda>(n, s). length s)") auto

declare chunks_exact.simps [simp del]

definition from_be_bytes :: "char \<Rightarrow> char \<Rightarrow> char \<Rightarrow> char \<Rightarrow> 32 word" where
  "from_be_bytes a b c d =
     ((word_of_nat (byte_val a) * 256 + word_of_nat (byte_val b)) * 256 + word_of_nat (byte_val c)) * 256
       + word_of_nat (byte_val d)"

subsection \<open>One block\<close>

definition block_words :: "bytes \<Rightarrow> 32 word list" where
  "block_words block =
     map (\<lambda>i. from_be_bytes (block ! (i * 4)) (block ! (i * 4 + 1)) (block ! (i * 4 + 2)) (block ! (i * 4 + 3)))
       [0..<16]"

fun schedule_loop :: "nat list \<Rightarrow> 32 word list \<Rightarrow> 32 word list" where
  "schedule_loop [] w = w"
| "schedule_loop (i # is) w =
     (let s0 = word_rotr 7 (w ! (i - 15)) XOR word_rotr 18 (w ! (i - 15)) XOR drop_bit 3 (w ! (i - 15));
          s1 = word_rotr 17 (w ! (i - 2)) XOR word_rotr 19 (w ! (i - 2)) XOR drop_bit 10 (w ! (i - 2))
      in schedule_loop is (w @ [w ! (i - 16) + s0 + w ! (i - 7) + s1]))"

type_synonym sha_vars =
  "32 word \<times> 32 word \<times> 32 word \<times> 32 word \<times> 32 word \<times> 32 word \<times> 32 word \<times> 32 word"

fun round_loop :: "32 word list \<Rightarrow> nat list \<Rightarrow> sha_vars \<Rightarrow> sha_vars" where
  "round_loop w [] vars = vars"
| "round_loop w (i # is) (a, b, c, d, e, f, g, hh) =
     (let s1 = word_rotr 6 e XOR word_rotr 11 e XOR word_rotr 25 e;
          ch = (e AND f) XOR (NOT e AND g);
          t1 = hh + s1 + ch + K ! i + w ! i;
          s0 = word_rotr 2 a XOR word_rotr 13 a XOR word_rotr 22 a;
          maj = (a AND b) XOR (a AND c) XOR (b AND c);
          t2 = s0 + maj
      in round_loop w is (t1 + t2, a, b, c, d + t1, e, f, g))"

definition sha_block :: "32 word list \<Rightarrow> bytes \<Rightarrow> 32 word list" where
  "sha_block h block =
     (let w = schedule_loop [16..<64] (block_words block) in
      case round_loop w [0..<64] (h ! 0, h ! 1, h ! 2, h ! 3, h ! 4, h ! 5, h ! 6, h ! 7) of
        (a, b, c, d, e, f, g, hh) \<Rightarrow>
          [h ! 0 + a, h ! 1 + b, h ! 2 + c, h ! 3 + d, h ! 4 + e, h ! 5 + f, h ! 6 + g, h ! 7 + hh])"

text \<open>\<open>format!("{word:08x}")\<close>.\<close>

definition word_hex :: "32 word \<Rightarrow> bytes" where
  "word_hex w = map (\<lambda>i. hex_digit_char (unat (take_bit 4 (drop_bit (4 * (7 - i)) w)))) [0..<8]"

definition sha256_hex :: "bytes \<Rightarrow> bytes" where
  "sha256_hex input =
     concat (map word_hex (foldl sha_block H0 (chunks_exact 64 (sha_pad input))))"

subsection \<open>Comparison and base64\<close>

definition byte_word :: "char \<Rightarrow> 8 word" where
  "byte_word c = word_of_nat (byte_val c)"

definition constant_time_eq :: "bytes \<Rightarrow> bytes \<Rightarrow> bool" where
  "constant_time_eq a b =
     (if length a \<noteq> length b then False
      else foldl (\<lambda>diff (x, y). diff OR (byte_word x XOR byte_word y)) 0 (zip a b) = 0)"

definition base64_val :: "char \<Rightarrow> 8 word option" where
  "base64_val c =
     (if byte_in 65 90 c then Some (byte_word c - 65)
      else if byte_in 97 122 c then Some (byte_word c - 97 + 26)
      else if byte_in 48 57 c then Some (byte_word c - 48 + 52)
      else if c = CHR ''+'' then Some 62
      else if c = CHR ''/'' then Some 63
      else None)"

definition word_byte :: "8 word \<Rightarrow> char" where
  "word_byte w = char_of (unat w)"

fun base64_chunks :: "bytes \<Rightarrow> bytes \<Rightarrow> bytes option" where
  "base64_chunks [] out = Some out"
| "base64_chunks [a] out = None"
| "base64_chunks [a, b] out =
     (case (base64_val a, base64_val b) of
        (Some b0, Some b1) \<Rightarrow> Some (out @ [word_byte (push_bit 2 b0 OR drop_bit 4 b1)])
      | _ \<Rightarrow> None)"
| "base64_chunks [a, b, c] out =
     (case (base64_val a, base64_val b, base64_val c) of
        (Some b0, Some b1, Some b2) \<Rightarrow>
          Some (out @ [word_byte (push_bit 2 b0 OR drop_bit 4 b1), word_byte (push_bit 4 b1 OR drop_bit 2 b2)])
      | _ \<Rightarrow> None)"
| "base64_chunks (a # b # c # d # rest) out =
     (case (base64_val a, base64_val b, base64_val c, base64_val d) of
        (Some b0, Some b1, Some b2, Some b3) \<Rightarrow>
          base64_chunks rest (out @ [word_byte (push_bit 2 b0 OR drop_bit 4 b1),
             word_byte (push_bit 4 b1 OR drop_bit 2 b2), word_byte (push_bit 6 b2 OR b3)])
      | _ \<Rightarrow> None)"

definition base64_decode :: "bytes \<Rightarrow> bytes option" where
  "base64_decode input = base64_chunks (filter (\<lambda>b. b \<noteq> CHR ''='') input) []"

subsection \<open>Credentials\<close>

definition basic_auth_ok :: "bytes \<Rightarrow> bytes \<Rightarrow> bytes \<Rightarrow> bool" where
  "basic_auth_ok header username password_sha256 =
     (if username = [] \<or> password_sha256 = [] then False
      else (case strip_prefix ''Basic '' header of
        None \<Rightarrow> False
      | Some rest \<Rightarrow>
          (case base64_decode (trim rest) of
             None \<Rightarrow> False
           | Some text \<Rightarrow>
               if \<not> utf8_valid text then False
               else (case split_once (CHR '':'') text of
                       None \<Rightarrow> False
                     | Some (user, pass) \<Rightarrow>
                         let pass_hash = sha256_hex pass in
                         constant_time_eq user username \<and> constant_time_eq pass_hash password_sha256))))"

definition password_matches :: "bytes \<Rightarrow> bytes \<Rightarrow> bool" where
  "password_matches password password_sha256 = constant_time_eq (sha256_hex password) password_sha256"

end
