(* ===== verification/Auth_Theorems.thy ===== *)
theory Auth_Theorems
  imports Sha256 Conditional
begin

section \<open>Who is let in\<close>

text \<open>
  The comparison that does not stop at the first difference is equality, base64 decoding undoes
  the standard encoding, and an \<open>Authorization\<close> header is accepted exactly for the
  configured user and a password with the configured digest.
\<close>

subsection \<open>The comparison\<close>

lemma unat_byte_word [simp]: "unat (byte_word c) = byte_val c"
  by (simp add: byte_word_def unsigned_of_nat take_bit_nat_eq_self_iff nat_of_char_less_256)

lemma byte_word_inj [simp]: "byte_word c = byte_word d \<longleftrightarrow> c = d"
  by (metis unat_byte_word char_eq_byte_val)

lemma word_byte_byte_word [simp]: "word_byte (byte_word c) = c"
  by (simp add: word_byte_def)

lemma or_zero_word: "(v OR w = 0) \<longleftrightarrow> v = 0 \<and> w = 0" for v w :: "8 word"
  by (auto simp: bit_eq_iff bit_simps)

lemma xor_zero_word: "(v XOR w = 0) \<longleftrightarrow> v = w" for v w :: "8 word"
  by (auto simp: bit_eq_iff bit_simps)

lemma diff_zero:
  "foldl (\<lambda>diff (x, y). diff OR (byte_word x XOR byte_word y)) d ps = 0 \<longleftrightarrow>
     d = 0 \<and> (\<forall>(x, y) \<in> set ps. x = y)"
  by (induction ps arbitrary: d) (auto simp: or_zero_word xor_zero_word)

lemma constant_time_eq_iff [simp]: "constant_time_eq a b \<longleftrightarrow> a = b"
proof (cases "length a = length b")
  case True
  then have "(\<forall>(x, y) \<in> set (zip a b). x = y) \<longleftrightarrow> a = b"
    by (induction a b rule: list_induct2) auto
  with True show ?thesis by (simp add: constant_time_eq_def diff_zero)
qed (auto simp: constant_time_eq_def)

subsection \<open>Base64\<close>

definition base64_alphabet :: bytes where
  "base64_alphabet = ''ABCDEFGHIJKLMNOPQRSTUVWXYZabcdefghijklmnopqrstuvwxyz0123456789+/''"

definition base64_char :: "8 word \<Rightarrow> char" where
  "base64_char w = base64_alphabet ! unat w"

fun base64_encode :: "bytes \<Rightarrow> bytes" where
  "base64_encode [] = []"
| "base64_encode [x] =
     [base64_char (drop_bit 2 (byte_word x)), base64_char (push_bit 4 (take_bit 2 (byte_word x))),
      CHR ''='', CHR ''='']"
| "base64_encode [x, y] =
     [base64_char (drop_bit 2 (byte_word x)),
      base64_char (push_bit 4 (take_bit 2 (byte_word x)) OR drop_bit 4 (byte_word y)),
      base64_char (push_bit 2 (take_bit 4 (byte_word y))), CHR ''='']"
| "base64_encode (x # y # z # s) =
     [base64_char (drop_bit 2 (byte_word x)),
      base64_char (push_bit 4 (take_bit 2 (byte_word x)) OR drop_bit 4 (byte_word y)),
      base64_char (push_bit 2 (take_bit 4 (byte_word y)) OR drop_bit 6 (byte_word z)),
      base64_char (take_bit 6 (byte_word z))] @ base64_encode s"

lemma alphabet_length [simp]: "length base64_alphabet = 64"
  by (simp add: base64_alphabet_def)

lemma alphabet_vals: "map base64_val base64_alphabet = map (\<lambda>n. Some (word_of_nat n)) [0..<64]"
  unfolding base64_alphabet_def by code_simp

lemma alphabet_plain: "list_all (\<lambda>c. is_graphic c \<and> c \<noteq> CHR ''='') base64_alphabet"
  unfolding base64_alphabet_def by code_simp

lemma base64_val_char: "unat w < 64 \<Longrightarrow> base64_val (base64_char w) = Some w"
  using arg_cong[where f = "\<lambda>xs. xs ! unat w", OF alphabet_vals] by (simp add: base64_char_def)

lemma base64_char_plain: "unat w < 64 \<Longrightarrow> is_graphic (base64_char w) \<and> base64_char w \<noteq> CHR ''=''"
  using alphabet_plain by (simp add: base64_char_def list_all_length)

lemma six_bits: "take_bit 6 w = w \<Longrightarrow> unat w < 64" for w :: "8 word"
proof -
  assume "take_bit 6 w = w"
  then have "unat w = take_bit 6 (unat w)" by (metis unsigned_take_bit_eq)
  also have "\<dots> < 2 ^ 6" by (rule take_bit_nat_less_exp)
  finally show ?thesis by simp
qed

lemma byte_eqI:
  fixes v w :: "8 word"
  assumes "\<And>n. n \<in> {0, 1, 2, 3, 4, 5, 6, 7} \<Longrightarrow> bit v n = bit w n"
  shows "v = w"
proof (rule bit_word_eqI)
  fix n assume "n < LENGTH(8)"
  then have "n \<in> {0, 1, 2, 3, 4, 5, 6, 7}" by auto
  then show "bit v n = bit w n" by (rule assms)
qed

lemma no_high_bit: "\<not> bit w 8" "\<not> bit w 9" "\<not> bit w 10" "\<not> bit w 11" "\<not> bit w 12" "\<not> bit w 13" for w :: "8 word"
  by (auto dest: bit_imp_le_length)

lemma sextets:
  fixes x y z :: "8 word"
  shows "unat (drop_bit 2 x) < 64" "unat (push_bit 4 (take_bit 2 x)) < 64"
    "unat (push_bit 4 (take_bit 2 x) OR drop_bit 4 y) < 64"
    "unat (push_bit 2 (take_bit 4 y)) < 64"
    "unat (push_bit 2 (take_bit 4 y) OR drop_bit 6 z) < 64" "unat (take_bit 6 z) < 64"
  by (rule six_bits, rule byte_eqI, auto simp: bit_simps no_high_bit)+

lemma octets:
  fixes x y z :: "8 word"
  shows "push_bit 2 (drop_bit 2 x) OR drop_bit 4 (push_bit 4 (take_bit 2 x)) = x"
    "push_bit 2 (drop_bit 2 x) OR drop_bit 4 (push_bit 4 (take_bit 2 x) OR drop_bit 4 y) = x"
    "push_bit 4 (push_bit 4 (take_bit 2 x) OR drop_bit 4 y) OR drop_bit 2 (push_bit 2 (take_bit 4 y)) = y"
    "push_bit 4 (push_bit 4 (take_bit 2 x) OR drop_bit 4 y) OR
       drop_bit 2 (push_bit 2 (take_bit 4 y) OR drop_bit 6 z) = y"
    "push_bit 6 (push_bit 2 (take_bit 4 y) OR drop_bit 6 z) OR take_bit 6 z = z"
  by (rule byte_eqI, auto simp: bit_simps no_high_bit simp flip: numeral_2_eq_2 numeral_3_eq_3)+

lemmas octets_simp = octets[simplified]

lemma base64_encode_plain: "c \<in> set (base64_encode s) \<Longrightarrow> is_graphic c"
  by (induction s rule: base64_encode.induct)
     (auto simp: base64_char_plain sextets is_graphic_def[of "CHR ''=''"])

lemma base64_chunks_encode:
  "base64_chunks (filter (\<lambda>b. b \<noteq> CHR ''='') (base64_encode s)) out = Some (out @ s)"
  by (induction s arbitrary: out rule: base64_encode.induct)
     (simp_all add: base64_char_plain base64_val_char sextets octets octets_simp)

lemma base64_decode_encode [simp]: "base64_decode (base64_encode s) = Some s"
  by (simp add: base64_decode_def base64_chunks_encode)

subsection \<open>Credentials\<close>

lemma basic_auth_encoded:
  assumes "CHR '':'' \<notin> set user" and "utf8_valid (user @ CHR '':'' # pass)"
  shows "basic_auth_ok (''Basic '' @ base64_encode (user @ CHR '':'' # pass)) username digest \<longleftrightarrow>
    username \<noteq> [] \<and> digest \<noteq> [] \<and> user = username \<and> sha256_hex pass = digest"
proof -
  have "trim (base64_encode (user @ CHR '':'' # pass)) = base64_encode (user @ CHR '':'' # pass)"
    by (rule trim_all_graphic) (rule base64_encode_plain)
  moreover have "strip_prefix ''Basic '' (''Basic '' @ e) = Some e" for e
    by (rule strip_prefix_append)
  moreover have "split_once (CHR '':'') (user @ CHR '':'' # pass) = Some (user, pass)"
    using assms by (simp add: split_once_hit)
  ultimately show ?thesis
    using assms by (simp add: basic_auth_ok_def del: append.simps append_Cons)
qed

text \<open>C32: a request is let in exactly with the right credentials. For any user name without a
  colon and any password, the header a browser makes of them (\<open>Basic\<close> and the base64 text
  of \<open>user:password\<close>) is accepted if and only if user and digest are configured, the name is
  the configured one and the SHA-256 of the password is the configured digest; and any
  header that is accepted carries such credentials.\<close>

theorem basic_auth_exact:
  shows "(CHR '':'' \<notin> set user \<and> utf8_valid (user @ CHR '':'' # pass) \<longrightarrow>
      (basic_auth_ok (''Basic '' @ base64_encode (user @ CHR '':'' # pass)) username digest \<longleftrightarrow>
         username \<noteq> [] \<and> digest \<noteq> [] \<and> user = username \<and> sha256_hex pass = digest)) \<and>
    (basic_auth_ok hdr username digest \<longrightarrow>
       (\<exists>enc pw. hdr = ''Basic '' @ enc \<and> base64_decode (trim enc) = Some (username @ CHR '':'' # pw) \<and>
          sha256_hex pw = digest \<and> username \<noteq> [] \<and> digest \<noteq> []))"
proof (intro conjI impI; (elim conjE)?)
  assume "CHR '':'' \<notin> set user" "utf8_valid (user @ CHR '':'' # pass)"
  then show "basic_auth_ok (''Basic '' @ base64_encode (user @ CHR '':'' # pass)) username digest \<longleftrightarrow>
      username \<noteq> [] \<and> digest \<noteq> [] \<and> user = username \<and> sha256_hex pass = digest"
    by (rule basic_auth_encoded)
next
  assume "basic_auth_ok hdr username digest"
  then obtain enc plain pw where "username \<noteq> []" "digest \<noteq> []"
    "strip_prefix ''Basic '' hdr = Some enc" "base64_decode (trim enc) = Some plain"
    "split_once (CHR '':'') plain = Some (username, pw)" "sha256_hex pw = digest"
    by (auto simp: basic_auth_ok_def Let_def split: if_splits option.splits)
  moreover from this(3) have "hdr = ''Basic '' @ enc" by (simp add: strip_prefix_Some)
  moreover from \<open>split_once _ plain = _\<close> have "plain = username @ CHR '':'' # pw"
    by (simp add: split_once_Some)
  ultimately show "\<exists>enc pw. hdr = ''Basic '' @ enc \<and> base64_decode (trim enc) = Some (username @ CHR '':'' # pw) \<and>
          sha256_hex pw = digest \<and> username \<noteq> [] \<and> digest \<noteq> []"
    by blast
qed

lemma eight_words: "length (case t of (a, b, c, d, e, f, g, hh) \<Rightarrow>
    [v + a, v' + b, w + c, w' + d, x + e, x' + f, y + g, y' + hh]) = 8"
  by (simp split: prod.split)

lemma sha256_hex_length: "length (sha256_hex input) = 64"
proof -
  have "length (foldl sha_block h bs) = 8" if "length h = 8" for h bs
    using that
  proof (induction bs arbitrary: h)
    case (Cons b bs)
    have "length (sha_block h b) = 8"
      unfolding sha_block_def Let_def by (rule eight_words)
    then show ?case using Cons.IH by simp
  qed simp
  moreover have "length H0 = 8" by (simp add: H0_def)
  ultimately have n: "length (foldl sha_block H0 bs) = 8" for bs by blast
  have "length (concat (map word_hex ws)) = 8 * length ws" for ws
    by (induction ws) (simp_all add: word_hex_def)
  with n show ?thesis by (simp add: sha256_hex_def)
qed

theorem basic_auth_exact_witness:
  "basic_auth_ok (''Basic '' @ base64_encode (''admin:secret'')) ''admin'' (sha256_hex ''secret'')"
proof -
  have "sha256_hex ''secret'' \<noteq> []" using sha256_hex_length[of "''secret''"] by auto
  moreover have "utf8_valid (''admin'' @ CHR '':'' # ''secret'')" by simp
  ultimately show ?thesis
    using basic_auth_exact[of "''admin''" "''secret''" "''admin''" "sha256_hex ''secret''" "[]"] by simp
qed

end
