(* ===== verification/Admin.thy ===== *)
theory Admin
  imports Auth_Theorems App Config
begin

section \<open>The admin panel and the assembly of the std profile\<close>

text \<open>
  \<open>crates/std-server/src/webui/admin.rs\<close>, \<open>stats.rs\<close> and the handlers and
  \<open>build_app\<close> of \<open>main.rs\<close>. The panel wraps the live app together with the
  configuration it was built from; its state also holds what the configuration file contains.
  Files compiled into the binary, the package version, the outcome of writing the file, the
  uptime and the builder of an app are the environment, a parameter. A write that fails carries the text of the error and what it
  leaves in the file (\<open>std::fs::write\<close> truncates the file before it writes).
\<close>

subsection \<open>Statistics\<close>

record stats =
  st_total :: nat
  st_2xx :: nat
  st_3xx :: nat
  st_4xx :: nat
  st_5xx :: nat
  st_bytes_out :: nat

definition stats_new :: stats where
  "stats_new = \<lparr>st_total = 0, st_2xx = 0, st_3xx = 0, st_4xx = 0, st_5xx = 0, st_bytes_out = 0\<rparr>"

text \<open>\<open>fetch_add\<close> wraps around.\<close>

definition stats_record :: "nat \<Rightarrow> nat \<Rightarrow> stats \<Rightarrow> stats" where
  "stats_record status body_len s =
     (let s = s\<lparr>st_total := wrap64 (st_total s + 1)\<rparr>;
          s = (if 200 \<le> status \<and> status \<le> 299 then s\<lparr>st_2xx := wrap64 (st_2xx s + 1)\<rparr>
               else if 300 \<le> status \<and> status \<le> 399 then s\<lparr>st_3xx := wrap64 (st_3xx s + 1)\<rparr>
               else if 400 \<le> status \<and> status \<le> 499 then s\<lparr>st_4xx := wrap64 (st_4xx s + 1)\<rparr>
               else s\<lparr>st_5xx := wrap64 (st_5xx s + 1)\<rparr>)
      in s\<lparr>st_bytes_out := wrap64 (st_bytes_out s + body_len)\<rparr>)"

definition snapshot_json :: "nat \<Rightarrow> stats \<Rightarrow> bytes" where
  \<open>snapshot_json uptime_secs s =
     ''{"uptime_secs":'' @ show_nat uptime_secs @ '',"total_requests":'' @ show_nat (st_total s)
     @ '',"status_2xx":'' @ show_nat (st_2xx s) @ '',"status_3xx":'' @ show_nat (st_3xx s)
     @ '',"status_4xx":'' @ show_nat (st_4xx s) @ '',"status_5xx":'' @ show_nat (st_5xx s)
     @ '',"bytes_out":'' @ show_nat (st_bytes_out s) @ ''}''\<close>

subsection \<open>Error texts\<close>

fun json_error_kind_text :: "json_error_kind \<Rightarrow> bytes" where
  "json_error_kind_text UnexpectedEnd = ''unexpected end of input''"
| "json_error_kind_text UnexpectedByte = ''unexpected byte''"
| "json_error_kind_text InvalidNumber = ''invalid number''"
| "json_error_kind_text InvalidString = ''invalid string''"
| "json_error_kind_text InvalidEscape = ''invalid escape sequence''"
| "json_error_kind_text InvalidUnicode = ''invalid '' @ [BACKSLASH] @ ''u escape''"
| "json_error_kind_text DepthExceeded = ''nesting too deep''"
| "json_error_kind_text TrailingData = ''trailing data after value''"

definition json_error_text :: "json_error \<Rightarrow> bytes" where
  "json_error_text e = json_error_kind_text (err_kind e) @ '' at byte '' @ show_nat (err_offset e)"

fun config_error_text :: "config_error \<Rightarrow> bytes" where
  "config_error_text (JsonFailure e) = ''invalid JSON: '' @ json_error_text e"
| "config_error_text NotAnObject = ''config root must be a JSON object''"
| "config_error_text (WrongType path) = ''wrong type for '' @ path"
| "config_error_text (InvalidValue path why) = ''invalid '' @ path @ '': '' @ why"
| "config_error_text (SourceFailure msg) = ''config source error: '' @ msg"

definition json_escape :: "bytes \<Rightarrow> bytes" where
  "json_escape s = concat (map (\<lambda>c.
     if c = DQUOTE then [BACKSLASH, DQUOTE]
     else if c = BACKSLASH then [BACKSLASH, BACKSLASH]
     else if c = LF \<or> c = CR \<or> c = HTAB then '' ''
     else [c]) s)"

definition json_error_response :: "status_code \<Rightarrow> bytes \<Rightarrow> response" where
  \<open>json_error_response status message = resp_json status (''{"error":"'' @ json_escape message @ ''"}'')\<close>

subsection \<open>The handlers and the app of the binary\<close>

definition health :: handler where
  \<open>health request ps = resp_json OK ''{"status":"ok"}''\<close>

definition SEARCH_QUERY_TYPES :: "bytes list" where
  "SEARCH_QUERY_TYPES = [''application/x-www-form-urlencoded'']"

definition search :: handler where
  \<open>search request ps =
     (case query_content_type_check request SEARCH_QUERY_TYPES of
        Inl response \<Rightarrow> response
      | Inr _ \<Rightarrow>
          with_header (resp_json OK
              (''{"received_bytes":'' @ show_nat (length (req_body request)) @ '',"results":[]}''))
            ''Accept-Query'' ''application/x-www-form-urlencoded'')\<close>

text \<open>
  The configured root is a path relative to \<open>cwd\<close>; \<open>deflate\<close> is the encoder of a build
  with the gzip feature.
\<close>

definition build_app :: "filesystem \<Rightarrow> path \<Rightarrow> (bytes \<Rightarrow> bytes) option \<Rightarrow> config \<Rightarrow> app \<times> app_state" where
  "build_app fs cwd deflate c =
     (let router = router_route Query ''/api/search'' search (router_route Get ''/api/health'' health []);
          assets = \<lparr>fa_root = path_join cwd (st_root (cfg_static c)),
                    fa_follow_symlinks = st_follow_symlinks (cfg_static c)\<rparr>;
          limit = sc_rate_limit (cfg_security c)
      in (\<lparr>app_router = router, app_load = fs_load fs assets, app_exists = fs_exists fs assets,
           app_index_files = st_index_files (cfg_static c), app_mime_overrides = cfg_mime_overrides c,
           app_access_log = lg_access_log (cfg_logging c), app_compression = cfg_compression c,
           app_deflate = deflate\<rparr>,
          \<lparr>as_limiter = (if rl_enabled limit then Some (rate_limiter_new limit) else None), as_log = []\<rparr>))"

subsection \<open>The panel\<close>

record web_env =
  we_build_app :: "config \<Rightarrow> app \<times> app_state"
  we_panel_html :: bytes
  we_i18n_en :: bytes
  we_i18n_tr :: bytes
  we_version :: bytes
  we_write_error :: "(bytes \<times> bytes) option"
  we_uptime :: nat

record web_admin =
  wa_config :: config
  wa_app :: app
  wa_app_state :: app_state
  wa_stats :: stats
  wa_file :: bytes

definition web_admin_new :: "web_env \<Rightarrow> config \<Rightarrow> bytes \<Rightarrow> web_admin" where
  "web_admin_new env c file =
     \<lparr>wa_config = c, wa_app = fst (we_build_app env c), wa_app_state = snd (we_build_app env c),
      wa_stats = stats_new, wa_file = file\<rparr>"

text \<open>\<open>str::replace\<close> of a pattern that is not empty.\<close>

function replace_all :: "bytes \<Rightarrow> bytes \<Rightarrow> bytes \<Rightarrow> bytes" where
  "replace_all pat by [] = []"
| "replace_all pat by (c # s) =
     (if pat \<noteq> [] \<and> starts_with pat (c # s) then by @ replace_all pat by (drop (length pat) (c # s))
      else c # replace_all pat by s)"
  by pat_completeness auto
termination
  by (relation "measure (\<lambda>(pat, by, s). length s)") auto

definition panel_response :: "web_env \<Rightarrow> response" where
  "panel_response env =
     \<lparr>resp_status = OK, resp_headers = [(''Content-Type'', ''text/html; charset=utf-8'')],
      resp_body = replace_all ''{{VERSION}}'' (we_version env) (we_panel_html env)\<rparr>"

definition unauthorized_response :: response where
  \<open>unauthorized_response =
     \<lparr>resp_status = UNAUTHORIZED,
      resp_headers = [(''WWW-Authenticate'', ''Basic realm="ferro admin"''),
                      (''Content-Type'', ''text/plain; charset=utf-8'')],
      resp_body = ''Unauthorized'' @ [LF]\<rparr>\<close>

definition restart_required_fields :: "config \<Rightarrow> config \<Rightarrow> bytes list" where
  "restart_required_fields old new =
     (if srv_bind (cfg_server old) \<noteq> srv_bind (cfg_server new) then [''server.bind''] else [])
     @ (if srv_port (cfg_server old) \<noteq> srv_port (cfg_server new) then [''server.port''] else [])
     @ (if srv_worker_threads (cfg_server old) \<noteq> srv_worker_threads (cfg_server new)
        then [''server.worker_threads''] else [])
     @ (if cfg_tls old \<noteq> cfg_tls new then [''tls''] else [])"

text \<open>
  \<open>put_config\<close> in its two critical sections: writing the file, and swapping the running
  configuration and app. The lines already logged stay when the app is replaced.
\<close>

definition put_persist :: "web_env \<Rightarrow> bytes \<Rightarrow> web_admin \<Rightarrow> (response + config) \<times> web_admin" where
  \<open>put_persist env body st =
     (if \<not> utf8_valid body then (Inl (json_error_response BAD_REQUEST ''body is not valid UTF-8''), st)
      else (case from_json_str body of
        Inl e \<Rightarrow> (Inl (json_error_response BAD_REQUEST (config_error_text e)), st)
      | Inr new_config \<Rightarrow>
          (case we_write_error env of
             Some (e, left) \<Rightarrow>
               (Inl (json_error_response INTERNAL_SERVER_ERROR (''could not write config: '' @ e)),
                st\<lparr>wa_file := left\<rparr>)
           | None \<Rightarrow> (Inr new_config, st\<lparr>wa_file := to_json_string new_config\<rparr>))))\<close>

definition put_swap :: "web_env \<Rightarrow> config \<Rightarrow> web_admin \<Rightarrow> response \<times> web_admin" where
  \<open>put_swap env new_config st =
     (let restart = restart_required_fields (wa_config st) new_config;
          app = we_build_app env new_config;
          st = st\<lparr>wa_config := new_config, wa_app := fst app,
                  wa_app_state := (snd app)\<lparr>as_log := as_log (wa_app_state st)\<rparr>\<rparr>;
          names = join '','' (map (\<lambda>f. [DQUOTE] @ f @ [DQUOTE]) restart)
      in (resp_json OK (''{"ok":true,"restart_required":['' @ names @ '']}''), st))\<close>

definition put_config :: "web_env \<Rightarrow> bytes \<Rightarrow> web_admin \<Rightarrow> response \<times> web_admin" where
  "put_config env body st =
     (case put_persist env body st of
        (Inl response, st) \<Rightarrow> (response, st)
      | (Inr new_config, st) \<Rightarrow> put_swap env new_config st)"

definition string_member :: "json_value \<Rightarrow> bytes \<Rightarrow> bytes" where
  "string_member v key =
     (case json_get v key of None \<Rightarrow> [] | Some u \<Rightarrow> (case as_str u of None \<Rightarrow> [] | Some s \<Rightarrow> s))"

definition change_password :: "web_env \<Rightarrow> bytes \<Rightarrow> web_admin \<Rightarrow> response \<times> web_admin" where
  \<open>change_password env body st =
     (if \<not> utf8_valid body then (json_error_response BAD_REQUEST ''body is not valid UTF-8'', st)
      else (case json_parse body of
        Inl e \<Rightarrow> (json_error_response BAD_REQUEST ''invalid JSON body'', st)
      | Inr parsed \<Rightarrow>
          let current = string_member parsed ''current_password'';
              new_password = string_member parsed ''new_password''
          in if new_password = [] then (json_error_response BAD_REQUEST ''new password must not be empty'', st)
             else if \<not> password_matches current (adm_password_sha256 (cfg_admin (wa_config st))) then
               (json_error_response UNAUTHORIZED ''current password is incorrect'', st)
             else
               let c = wa_config st;
                   new_config = c\<lparr>cfg_admin := (cfg_admin c)\<lparr>adm_password_sha256 := sha256_hex new_password\<rparr>\<rparr>
               in (case we_write_error env of
                     Some (e, left) \<Rightarrow>
                       (json_error_response INTERNAL_SERVER_ERROR (''could not write config: '' @ e),
                        st\<lparr>wa_file := left\<rparr>)
                   | None \<Rightarrow>
                       (resp_json OK ''{"ok":true}'',
                        st\<lparr>wa_file := to_json_string new_config, wa_config := new_config\<rparr>))))\<close>

definition authenticated :: "web_admin \<Rightarrow> request \<Rightarrow> bool" where
  "authenticated st request =
     (let admin = cfg_admin (wa_config st) in
      if adm_username admin = [] then False
      else (case req_header request ''authorization'' of
              Some h \<Rightarrow> basic_auth_ok h (adm_username admin) (adm_password_sha256 admin)
            | None \<Rightarrow> False))"

definition handle_admin :: "web_env \<Rightarrow> request \<Rightarrow> web_admin \<Rightarrow> response \<times> web_admin" where
  \<open>handle_admin env request st =
     (let m = req_method request; path = req_path request in
      if m = Get \<and> (path = ''/admin'' \<or> path = ''/admin/'') then (panel_response env, st)
      else if m = Get \<and> path = ''/admin/api/config'' then (resp_json OK (to_json_string (wa_config st)), st)
      else if m = Put \<and> path = ''/admin/api/config'' then put_config env (req_body request) st
      else if m = Get \<and> path = ''/admin/api/stats'' then
        (resp_json OK (snapshot_json (we_uptime env) (wa_stats st)), st)
      else if m = Get \<and> path = ''/admin/api/i18n'' then
        (resp_json OK (''{"en":'' @ trim (we_i18n_en env) @ '',"tr":'' @ trim (we_i18n_tr env) @ ''}''), st)
      else if m = Post \<and> path = ''/admin/api/password'' then change_password env (req_body request) st
      else (json_error_response NOT_FOUND ''no such admin endpoint'', st))\<close>

definition is_admin_path :: "bytes \<Rightarrow> bool" where
  "is_admin_path path \<longleftrightarrow> path = ''/admin'' \<or> starts_with ''/admin/'' path"

definition web_handle :: "web_env \<Rightarrow> web_admin service" where
  "web_handle env st request ctx =
     (case (if is_admin_path (req_path request) then
              (if authenticated st request then handle_admin env request st
               else (unauthorized_response, st))
            else (case app_handle (wa_app st) (wa_app_state st) request ctx of
                    (r, s) \<Rightarrow> (r, st\<lparr>wa_app_state := s\<rparr>))) of
        (response, st) \<Rightarrow>
          (response, st\<lparr>wa_stats := stats_record (resp_status response) (length (resp_body response)) (wa_stats st)\<rparr>))"

end
