(* ===== verification/Startup.thy ===== *)
theory Startup
  imports Admin Transport
begin

section \<open>Starting the std server\<close>

text \<open>
  \<open>crates/std-server/src/fs_config.rs\<close> and \<open>main\<close> and \<open>load_config\<close> of
  \<open>main.rs\<close>. What the process asks its environment for is a parameter: the first argument,
  whether a path is a file, reading one as a string, parsing a socket address, registering a
  signal handler, reading the certificate and key. A run that ends early is its exit with the
  message it prints last; one that goes on is what it hands to \<open>transport_mio::serve\<close>.
\<close>

record process_env =
  pe_arg :: "bytes option"
  pe_is_file :: "bytes \<Rightarrow> bool"
  pe_read_to_string :: "bytes \<Rightarrow> bytes + bytes"
  pe_addr_ok :: "bytes \<Rightarrow> bool"
  pe_signal_error :: "bytes option"
  pe_tls_error :: "tls_config \<Rightarrow> bytes option"

text \<open>The features of the build.\<close>

record features =
  ft_tls :: bool
  ft_webui :: bool

datatype served = PlainApp | AdminPanel bytes

datatype startup = VersionPrinted | Exit1 bytes | Serving config options served bool

definition fs_config_load :: "process_env \<Rightarrow> bytes \<Rightarrow> config_error + config" where
  "fs_config_load env file =
     (case pe_read_to_string env file of
        Inl e \<Rightarrow> Inl (SourceFailure (file @ '': '' @ e))
      | Inr contents \<Rightarrow> from_json_str contents)"

definition config_file :: "process_env \<Rightarrow> bytes" where
  "config_file env = (case pe_arg env of Some a \<Rightarrow> a | None \<Rightarrow> ''config.json'')"

definition load_config :: "process_env \<Rightarrow> bytes + config" where
  "load_config env =
     (let file = config_file env in
      if pe_is_file env file then
        (case fs_config_load env file of
           Inr c \<Rightarrow> Inr c
         | Inl e \<Rightarrow> Inl (''[ferro] config error: '' @ config_error_text e))
      else if pe_arg env \<noteq> None then Inl (''[ferro] config file not found: '' @ file)
      else Inr config_default)"

definition server_options :: "config \<Rightarrow> options" where
  "server_options c =
     \<lparr>opt_idle_timeout = max (srv_keep_alive_secs (cfg_server c)) 1,
      opt_max_connections = srv_max_connections (cfg_server c),
      opt_security_headers = sc_enable_security_headers (cfg_security c),
      opt_max_body = srv_request_max_bytes (cfg_server c),
      opt_worker_threads = srv_worker_threads (cfg_server c)\<rparr>"

definition server_main :: "process_env \<Rightarrow> features \<Rightarrow> startup" where
  "server_main env ft =
     (if pe_arg env = Some ''--version'' \<or> pe_arg env = Some ''-V'' then VersionPrinted
      else (case load_config env of
        Inl e \<Rightarrow> Exit1 e
      | Inr c \<Rightarrow>
          let addr = srv_bind (cfg_server c) @ '':'' @ show_nat (srv_port (cfg_server c))
          in if \<not> pe_addr_ok env addr then Exit1 (''[ferro] invalid bind address '' @ addr)
             else (case pe_signal_error env of
               Some e \<Rightarrow> Exit1 (''[ferro] could not install signal handler: '' @ e)
             | None \<Rightarrow>
                 let tls = ft_tls ft \<and> tls_enabled (cfg_tls c);
                     failed = (if tls then pe_tls_error env (cfg_tls c) else None)
                 in (case failed of
                   Some e \<Rightarrow> Exit1 (''[ferro] tls error: '' @ e)
                 | None \<Rightarrow>
                     Serving c (server_options c)
                       (if ft_webui ft \<and> adm_username (cfg_admin c) \<noteq> []
                        then AdminPanel (config_file env) else PlainApp)
                       tls))))"

subsection \<open>What is served has been validated\<close>

lemma load_config_cases:
  assumes "load_config env = Inr c"
  obtains (from_file) contents where "pe_read_to_string env (config_file env) = Inr contents" "from_json_str contents = Inr c"
    "pe_is_file env (config_file env)"
  | (built_in) "c = config_default" "pe_arg env = None" "\<not> pe_is_file env (config_file env)"
  using assms that
  by (auto simp: load_config_def fs_config_load_def Let_def split: if_splits sum.splits)

lemma server_main_Serving:
  assumes "server_main env ft = Serving c opts target tls"
  shows "load_config env = Inr c" and "opts = server_options c"
    and "tls \<longleftrightarrow> ft_tls ft \<and> tls_enabled (cfg_tls c)"
    and "target \<noteq> PlainApp \<Longrightarrow> target = AdminPanel (config_file env) \<and> ft_webui ft \<and> adm_username (cfg_admin c) \<noteq> []"
  using assms
  by (auto simp: server_main_def Let_def split: if_splits sum.splits option.splits)

end
