(* ===== verification/Admin_Theorems.thy ===== *)
theory Admin_Theorems
  imports Startup Config_Theorems
begin

section \<open>Properties of the admin panel\<close>

subsection \<open>Who can change what\<close>

text \<open>
  The credentials a request carries are those of the running configuration: a user name is
  configured, and the header encodes it with a password whose digest is the stored one.
\<close>

lemma authenticated_iff:
  "authenticated st request \<longleftrightarrow> adm_username (cfg_admin (wa_config st)) \<noteq> [] \<and>
     (\<exists>h. req_header request ''authorization'' = Some h \<and>
          basic_auth_ok h (adm_username (cfg_admin (wa_config st))) (adm_password_sha256 (cfg_admin (wa_config st))))"
  by (auto simp: authenticated_def Let_def split: option.splits)

lemma web_handle_refused:
  "is_admin_path (req_path request) \<Longrightarrow> \<not> authenticated st request \<Longrightarrow>
     web_handle env st request ctx =
       (unauthorized_response, st\<lparr>wa_stats := stats_record 401 13 (wa_stats st)\<rparr>)"
  by (simp add: web_handle_def unauthorized_response_def UNAUTHORIZED_def eval_nat_numeral)

lemma web_handle_delegated:
  "\<not> is_admin_path (req_path request) \<Longrightarrow> web_handle env st request ctx = (r, st') \<Longrightarrow>
     wa_config st' = wa_config st \<and> wa_file st' = wa_file st \<and> wa_app st' = wa_app st"
  by (auto simp: web_handle_def split: prod.splits)

text \<open>Reading endpoints leave the state alone; only the two writing ones can change it.\<close>

lemma handle_admin_changes:
  "handle_admin env request st = (r, st') \<Longrightarrow> st' \<noteq> st \<Longrightarrow>
     req_method request = Put \<and> req_path request = ''/admin/api/config'' \<and>
       put_config env (req_body request) st = (r, st') \<or>
     req_method request = Post \<and> req_path request = ''/admin/api/password'' \<and>
       change_password env (req_body request) st = (r, st')"
  by (auto simp: handle_admin_def Let_def split: if_splits)

lemma web_handle_authorized:
  assumes "web_handle env st request ctx = (r, st')" and "authenticated st request" and "is_admin_path (req_path request)"
  obtains s where "handle_admin env request st = (r, s)"
    and "st' = s\<lparr>wa_stats := stats_record (resp_status r) (length (resp_body r)) (wa_stats s)\<rparr>"
  using assms by (auto simp: web_handle_def split: prod.splits)

text \<open>C33: the running configuration, the app and the configuration file change only under an
  authenticated request to one of the two writing endpoints. Whatever else arrives, and so
  every request without the credentials, leaves all three as they are; without them an
  admin path is answered with the 401 response and nothing else of the panel is reached.\<close>

theorem admin_changes_authorized:
  assumes "web_handle env st request ctx = (r, st')"
  shows "((wa_config st', wa_file st', wa_app st') \<noteq> (wa_config st, wa_file st, wa_app st) \<longrightarrow>
            authenticated st request \<and>
            (req_method request, req_path request) \<in> {(Put, ''/admin/api/config''), (Post, ''/admin/api/password'')}) \<and>
         (is_admin_path (req_path request) \<and> \<not> authenticated st request \<longrightarrow>
            r = unauthorized_response \<and> wa_app_state st' = wa_app_state st)"
proof (intro conjI impI; (elim conjE)?)
  assume ch: "(wa_config st', wa_file st', wa_app st') \<noteq> (wa_config st, wa_file st, wa_app st)"
  have p: "is_admin_path (req_path request)" using ch web_handle_delegated[OF _ assms] by auto
  have a: "authenticated st request"
  proof (rule ccontr)
    assume "\<not> authenticated st request"
    from web_handle_refused[OF p this] assms ch show False by auto
  qed
  obtain s where h: "handle_admin env request st = (r, s)"
    and s: "st' = s\<lparr>wa_stats := stats_record (resp_status r) (length (resp_body r)) (wa_stats s)\<rparr>"
    using web_handle_authorized[OF assms a p] .
  have "s \<noteq> st" using ch s by auto
  from handle_admin_changes[OF h this] a
  show "authenticated st request"
    and "(req_method request, req_path request) \<in> {(Put, ''/admin/api/config''), (Post, ''/admin/api/password'')}"
    by auto
next
  assume "is_admin_path (req_path request)" "\<not> authenticated st request"
  with assms show "r = unauthorized_response" and "wa_app_state st' = wa_app_state st"
    by (auto simp: web_handle_refused)
qed

subsection \<open>The file and the running configuration\<close>

lemma sha256_hex_utf8: "utf8_valid (sha256_hex input)"
proof -
  have "byte_val (hex_digit_char (unat (take_bit 4 w))) < 128" for w :: "32 word"
  proof -
    have "unat (take_bit 4 w) = take_bit 4 (unat w)" by (rule unsigned_take_bit_eq)
    then have "unat (take_bit 4 w) < 16" using take_bit_nat_less_exp[of 4 "unat w"] by simp
    then show ?thesis by (simp add: byte_val_hex_digit_char)
  qed
  then show ?thesis
    by (intro utf8_valid_ascii) (auto simp: sha256_hex_def word_hex_def)
qed

lemma config_typed_reload:
  "config_typed c \<Longrightarrow> config_exact c \<Longrightarrow> from_json_str (to_json_string c) = Inr c"
proof -
  assume c: "config_typed c" and e: "config_exact c"
  have "validate c = Inr ()" and "config_utf8 c" using c unfolding validate_Inr config_typed_def by auto
  with e show ?thesis by (simp add: from_json_str_def json_parse_config from_json_config)
qed

definition file_matches :: "web_admin \<Rightarrow> bool" where
  "file_matches st \<longleftrightarrow> config_typed (wa_config st) \<and>
     (config_exact (wa_config st) \<longrightarrow> from_json_str (wa_file st) = Inr (wa_config st))"

lemma file_matchesI:
  "config_typed (wa_config st) \<Longrightarrow> wa_file st = to_json_string (wa_config st) \<Longrightarrow> file_matches st"
  by (simp add: file_matches_def config_typed_reload)

lemma put_config_matches:
  assumes "we_write_error env = None" and "put_config env body st = (r, st')" and "file_matches st"
  shows "file_matches st'"
proof (cases "st' = st")
  case False
  then obtain c where c: "from_json_str body = Inr c" "wa_config st' = c" "wa_file st' = to_json_string c"
    using assms(1,2) by (auto simp: put_config_def put_persist_def put_swap_def Let_def split: if_splits sum.splits)
  from c(2,3) loaded_config_typed_aux[OF c(1)] show ?thesis by (intro file_matchesI) simp_all
qed (use assms in simp)

lemma config_typed_password:
  "config_typed c \<Longrightarrow> utf8_valid s \<Longrightarrow> config_typed (c\<lparr>cfg_admin := (cfg_admin c)\<lparr>adm_password_sha256 := s\<rparr>\<rparr>)"
  by (simp add: config_typed_def config_utf8_def)

lemma change_password_matches:
  assumes "we_write_error env = None" and "change_password env body st = (r, st')" and "file_matches st"
  shows "file_matches st'"
proof (cases "st' = st")
  case False
  then obtain pw where c: "wa_config st' = (wa_config st)
        \<lparr>cfg_admin := (cfg_admin (wa_config st))\<lparr>adm_password_sha256 := sha256_hex pw\<rparr>\<rparr>"
      "wa_file st' = to_json_string (wa_config st')"
    using assms(1,2) by (auto simp: change_password_def Let_def split: if_splits sum.splits)
  have "config_typed (wa_config st')"
    using assms(3) unfolding c(1) by (intro config_typed_password sha256_hex_utf8) (simp add: file_matches_def)
  with c(2) show ?thesis by (intro file_matchesI)
qed (use assms in simp)

lemma web_handle_matches:
  assumes "we_write_error env = None" and "web_handle env st request ctx = (r, st')" and "file_matches st"
  shows "file_matches st'"
proof -
  have stats: "file_matches (s\<lparr>wa_stats := x\<rparr>) = file_matches s"
    and app: "file_matches (s\<lparr>wa_app_state := y\<rparr>) = file_matches s" for s x y
    by (simp_all add: file_matches_def)
  consider "\<not> is_admin_path (req_path request)" | "is_admin_path (req_path request)" "\<not> authenticated st request"
    | "is_admin_path (req_path request)" "authenticated st request" by blast
  then show ?thesis
  proof cases
    case 3
    obtain s where h: "handle_admin env request st = (r, s)"
      and s: "st' = s\<lparr>wa_stats := stats_record (resp_status r) (length (resp_body r)) (wa_stats s)\<rparr>"
      using web_handle_authorized[OF assms(2) 3(2,1)] .
    have "file_matches s"
      using handle_admin_changes[OF h] put_config_matches[OF assms(1) _ assms(3)]
        change_password_matches[OF assms(1) _ assms(3)] assms(3) by (cases "s = st") auto
    with s show ?thesis by (simp add: stats)
  next
    case 2
    with assms show ?thesis by (auto simp: web_handle_refused stats)
  next
    case 1
    with web_handle_delegated[OF 1 assms(2)] assms(3) show ?thesis by (simp add: file_matches_def)
  qed
qed

text \<open>A run of the panel: requests one after the other, each with its environment.\<close>

fun web_run :: "(web_env \<times> request \<times> request_context) list \<Rightarrow> web_admin \<Rightarrow> web_admin" where
  "web_run [] st = st"
| "web_run ((env, request, ctx) # steps) st = web_run steps (snd (web_handle env st request ctx))"

lemma web_run_matches:
  "\<forall>x \<in> set steps. we_write_error (fst x) = None \<Longrightarrow> file_matches st \<Longrightarrow> file_matches (web_run steps st)"
  by (induction steps st rule: web_run.induct) (auto dest: web_handle_matches[OF _ surjective_pairing])


subsection \<open>Two edits at once\<close>

text \<open>
  The two critical sections of \<open>put_config\<close> are not one: the file is written without the
  lock. When two workers accept an edit each, and the one that writes first swaps last, the
  file holds the second edit and the server runs the first.
\<close>

theorem concurrent_edits_diverge:
  assumes "utf8_valid a" and "from_json_str a = Inr ca" and "utf8_valid b" and "from_json_str b = Inr cb"
    and "we_write_error env = None"
  shows "let (ra, st1) = put_persist env a st; (rb, st2) = put_persist env b st1;
             (_, st3) = put_swap env cb st2; (_, st4) = put_swap env ca st3
         in ra = Inr ca \<and> rb = Inr cb \<and> wa_file st4 = to_json_string cb \<and> wa_config st4 = ca"
  using assms by (simp add: put_persist_def put_swap_def Let_def)

subsection \<open>Witnesses\<close>

definition panel_config :: "nat \<Rightarrow> config" where
  "panel_config secs = config_default
     \<lparr>cfg_admin := \<lparr>adm_username = ''admin'', adm_password_sha256 = sha256_hex ''secret''\<rparr>,
      cfg_server := server_default\<lparr>srv_keep_alive_secs := secs\<rparr>\<rparr>"

definition panel_env :: process_env where
  "panel_env = \<lparr>pe_arg = None, pe_is_file = (\<lambda>p. True), pe_read_to_string = (\<lambda>p. Inr (to_json_string (panel_config 5))),
     pe_addr_ok = (\<lambda>a. True), pe_signal_error = None, pe_tls_error = (\<lambda>c. None)\<rparr>"

definition no_files :: filesystem where
  "no_files = \<lparr>fs_canonicalize = (\<lambda>p. None), fs_is_symlink = (\<lambda>p. None), fs_metadata = (\<lambda>p. None),
     fs_read = (\<lambda>p. None)\<rparr>"

definition panel_web :: web_env where
  "panel_web = \<lparr>we_build_app = build_app no_files [] None, we_panel_html = ''{{VERSION}}'', we_i18n_en = ''{}'',
     we_i18n_tr = ''{}'', we_version = ''1'', we_write_error = None, we_uptime = 0\<rparr>"

definition panel_put :: "bytes \<Rightarrow> request" where
  "panel_put password = \<lparr>req_method = Put, req_target = ''/admin/api/config'', req_version = Http11,
     req_headers = [\<lparr>hdr_name = ''Authorization'',
       hdr_value = ''Basic '' @ base64_encode (''admin'' @ CHR '':'' # password)\<rparr>],
     req_body = to_json_string (panel_config 9)\<rparr>"

definition panel_ctx :: request_context where
  "panel_ctx = \<lparr>ctx_peer = [], ctx_now = 0\<rparr>"

lemma panel_config_ok: "config_utf8 (panel_config n)" "n \<le> 2 ^ 53 \<Longrightarrow> config_exact (panel_config n)"
  using config_default_ok sha256_hex_utf8[of "''secret''"]
  by (simp_all add: panel_config_def config_utf8_def config_exact_def server_exact_def default_defs)

lemma panel_config_reload: "n \<le> 2 ^ 53 \<Longrightarrow> from_json_str (to_json_string (panel_config n)) = Inr (panel_config n)"
proof -
  assume n: "n \<le> 2 ^ 53"
  have "validate (panel_config n) = Inr ()"
    by (simp add: panel_config_def validate_def default_defs LOG_LEVELS_def)
  then show ?thesis
    by (simp add: from_json_str_def json_parse_config[OF panel_config_ok(1)] from_json_config[OF panel_config_ok(2)[OF n]])
qed

lemma panel_put_path: "req_path (panel_put pw) = ''/admin/api/config''" "is_admin_path (req_path (panel_put pw))"
  by (simp_all add: panel_put_def req_path_def absolute_form_path_def find_subslice_def split_once_def
      is_admin_path_def starts_with_def)

lemma panel_put_auth:
  assumes "utf8_valid (''admin'' @ CHR '':'' # pw)" and "wa_config st = panel_config n"
  shows "authenticated st (panel_put pw) \<longleftrightarrow> sha256_hex pw = sha256_hex ''secret''"
proof -
  have h: "req_header (panel_put pw) ''authorization'' =
      Some (''Basic '' @ base64_encode (''admin'' @ CHR '':'' # pw))"
    by (simp add: panel_put_def req_header_def eq_ignore_ascii_case_def to_ascii_lowercase_def to_lower_byte_def is_ascii_uppercase_def byte_in_def
        char_of_eq_iff)
  have "sha256_hex ''secret'' \<noteq> []" using sha256_hex_length[of "''secret''"] by auto
  then show ?thesis
    unfolding authenticated_iff h using assms(2) basic_auth_encoded[OF _ assms(1)]
    by (simp add: panel_config_def del: append.simps)
qed

lemma panel_put_accepted:
  assumes "wa_config st = panel_config n"
  shows "wa_config (snd (web_handle panel_web st (panel_put ''secret'') ctx)) = panel_config 9"
    and "wa_file (snd (web_handle panel_web st (panel_put ''secret'') ctx)) = to_json_string (panel_config 9)"
proof -
  have a: "authenticated st (panel_put ''secret'')"
    by (subst panel_put_auth[OF _ assms]) simp_all
  have "utf8_valid (to_json_string (panel_config 9))"
    by (rule to_json_string_utf8) (rule panel_config_ok)
  then show "wa_config (snd (web_handle panel_web st (panel_put ''secret'') ctx)) = panel_config 9"
    and "wa_file (snd (web_handle panel_web st (panel_put ''secret'') ctx)) = to_json_string (panel_config 9)"
    using a panel_put_path[of "''secret''"] panel_config_reload[of 9]
    by (simp_all add: web_handle_def handle_admin_def put_config_def put_persist_def put_swap_def
        panel_put_def panel_web_def Let_def)
qed

lemma panel_start: "server_main panel_env \<lparr>ft_tls = True, ft_webui = True\<rparr> =
    Serving (panel_config 5) (server_options (panel_config 5)) (AdminPanel ''config.json'') False"
  using panel_config_reload[of 5]
  by (simp add: server_main_def load_config_def fs_config_load_def config_file_def panel_env_def Let_def
      panel_config_def tls_default_def config_default_def)

text \<open>With the right password the edit is accepted and in force.\<close>

theorem admin_changes_authorized_witness:
  "authenticated (web_admin_new panel_web (panel_config 5) []) (panel_put ''secret'') \<and>
   wa_config (snd (web_handle panel_web (web_admin_new panel_web (panel_config 5) []) (panel_put ''secret'') panel_ctx))
     = panel_config 9"
proof -
  let ?st = "web_admin_new panel_web (panel_config 5) []"
  have c: "wa_config ?st = panel_config 5" by (simp add: web_admin_new_def)
  have "srv_keep_alive_secs (cfg_server (panel_config 9)) \<noteq> srv_keep_alive_secs (cfg_server (panel_config 5))"
    by (simp add: panel_config_def)
  then have "panel_config 9 \<noteq> panel_config 5" by metis
  with admin_changes_authorized[OF surjective_pairing, of panel_web ?st "panel_put ''secret''" panel_ctx]
    panel_put_accepted[OF c] c
  show ?thesis by auto
qed


theorem concurrent_edits_diverge_witness:
  "let (ra, st1) = put_persist panel_web (to_json_string (panel_config 5)) (web_admin_new panel_web config_default []);
       (rb, st2) = put_persist panel_web (to_json_string (panel_config 9)) st1;
       (_, st3) = put_swap panel_web (panel_config 9) st2; (_, st4) = put_swap panel_web (panel_config 5) st3
   in ra = Inr (panel_config 5) \<and> rb = Inr (panel_config 9) \<and> wa_file st4 = to_json_string (panel_config 9) \<and>
      wa_config st4 = panel_config 5"
  by (rule concurrent_edits_diverge)
     (simp_all add: to_json_string_utf8 panel_config_ok panel_config_reload, simp add: panel_web_def)

end
