(* ===== verification/Service_Contract.thy ===== *)
theory Service_Contract
  imports Tls_Transport Embedded
begin

section \<open>What a service keeps, the server keeps\<close>

text \<open>
  The trait \<open>Service\<close> of \<open>core/src/service.rs\<close> is the interface between the transports and
  the handlers. The locale states its contract: an invariant of the state behind the service
  that every call keeps. Everything the transports do keeps it then, and so it does when other
  threads use the service between the calls.
\<close>

locale service_contract =
  fixes service :: "'s service" and inv :: "'s \<Rightarrow> bool"
  assumes call_keeps: "inv s \<Longrightarrow> service s request ctx = (r, s') \<Longrightarrow> inv s'"
begin

lemma step_keeps: "conn_step service now c s = Some (st, c', s') \<Longrightarrow> inv s \<Longrightarrow> inv s'"
  by (auto simp: conn_step_def Let_def dest: call_keeps
      split: outcome.splits parsed.splits expect_action.splits if_splits prod.splits)

lemma drive_keeps: "drive service now c s out = Some (out', closed, c', s') \<Longrightarrow> inv s \<Longrightarrow> inv s'"
proof (induction service\<equiv>service now c s out rule: drive.induct)
  case (1 now c s out)
  from "1.prems" obtain st c1 s1 where st: "conn_step service now c s = Some (st, c1, s1)"
    by (auto simp: drive.simps[of service now c] split: option.splits)
  have k: "inv s1" using step_keeps[OF st "1.prems"(2)] .
  show ?case
  proof (cases st)
    case NeedMore
    with "1.prems" st k show ?thesis by (auto simp: drive.simps[of service now c])
  next
    case (Write b close)
    with "1.prems" st k "1.hyps"[OF st refl Write refl] show ?thesis
      by (cases close) (auto simp: drive.simps[of service now c])
  qed
qed

lemma handle_ready_keeps:
  "handle_ready service now readable reads writes c s = Some (dropped, c', s', sent) \<Longrightarrow> inv s \<Longrightarrow> inv s'"
  by (auto simp: handle_ready_def read_and_drive_def Let_def dest: drive_keeps
      split: option.splits if_splits prod.splits)

lemma tls_handle_ready_keeps:
  "tls_handle_ready tls service now readable reads writes c s = Some (dropped, c', s', sent) \<Longrightarrow> inv s \<Longrightarrow> inv s'"
  by (auto simp: tls_handle_ready_def tls_read_and_drive_def Let_def dest: drive_keeps
      split: option.splits if_splits prod.splits)

lemma handle_token_keeps: "handle_token service rd x = Some y \<Longrightarrow> inv (snd x) \<Longrightarrow> inv (snd y)"
  by (cases x) (auto simp: handle_token_def Let_def dest: handle_ready_keeps split: option.splits if_splits)

lemma poll_events_keeps:
  "poll_events service opts accepting events x = Some y \<Longrightarrow> inv (snd x) \<Longrightarrow> inv (snd y)"
proof (induction events arbitrary: x)
  case (Cons e events)
  show ?case
  proof (cases e)
    case (ListenerReady instant accepts)
    from Cons.prems(1)[unfolded ListenerReady poll_events.simps] show ?thesis
      by (rule Cons.IH) (use Cons.prems(2) in simp)
  next
    case (ConnReady rd)
    with Cons.prems(1) obtain z where "handle_token service rd x = Some z"
      "poll_events service opts accepting events z = Some y" by (auto split: option.splits)
    with Cons.IH handle_token_keeps Cons.prems(2) show ?thesis by blast
  qed
qed simp

lemma reactor_turn_keeps: "reactor_turn service opts accepting events now x = Some y \<Longrightarrow> inv (snd x) \<Longrightarrow> inv (snd y)"
  by (auto simp: reactor_turn_def dest: poll_events_keeps split: option.splits)

lemma drain_loop_keeps: "drain_loop service opts deadline turns x = Some (status, y) \<Longrightarrow> inv (snd x) \<Longrightarrow> inv (snd y)"
  by (induction turns arbitrary: x) (auto split: if_splits option.splits dest: reactor_turn_keeps)

lemma run_reactor_keeps: "run_reactor service opts turns x = Some (status, y) \<Longrightarrow> inv (snd x) \<Longrightarrow> inv (snd y)"
  by (induction turns arbitrary: x)
     (auto split: if_splits option.splits dest: reactor_turn_keeps drain_loop_keeps)

lemma pump_keeps: "pump_connection service now io st s = Some (r, st', calls, s') \<Longrightarrow> inv s \<Longrightarrow> inv s'"
  by (auto simp: pump_connection_def dest: drive_keeps split: if_splits sum.splits option.splits prod.splits)

lemma serve_socket_keeps: "serve_socket service now io st s = Some (st', calls, s') \<Longrightarrow> inv s \<Longrightarrow> inv s'"
  by (auto simp: serve_socket_def dest: pump_keeps split: option.splits sum.splits)

end

subsection \<open>Other threads\<close>

text \<open>
  The service is shared by the reactors. Before call \<open>n\<close> of this one the others have changed
  its state by \<open>others n\<close>, and the call itself may find another environment than the last one.
\<close>

definition interfered :: "(nat \<Rightarrow> 's service) \<Rightarrow> (nat \<Rightarrow> 's \<Rightarrow> 's) \<Rightarrow> ('s \<times> nat) service" where
  "interfered calls others x request ctx =
     (case x of (s, n) \<Rightarrow> case calls n (others n s) request ctx of (r, s) \<Rightarrow> (r, (s, Suc n)))"

lemma interfered_contract:
  assumes "\<And>n. service_contract (calls n) safe" and "\<And>n s. safe s \<Longrightarrow> safe (others n s)"
  shows "service_contract (interfered calls others) (\<lambda>x. safe (fst x))"
proof
  fix x request ctx r x' assume x: "safe (fst x)" "interfered calls others x request ctx = (r, x')"
  then have "calls (snd x) (others (snd x) (fst x)) request ctx = (r, fst x')"
    by (auto simp: interfered_def split: prod.splits)
  with assms(2)[OF x(1)] show "safe (fst x')" by (rule service_contract.call_keeps[OF assms(1)])
qed

context service_contract
begin

text \<open>Calls of the service, one after the other.\<close>

lemma calls_keep: "inv s \<Longrightarrow> inv (fold (\<lambda>(request, ctx) s. snd (service s request ctx)) calls s)"
proof (induction calls arbitrary: s)
  case (Cons q calls)
  obtain request ctx where q: "q = (request, ctx)" by fastforce
  have "inv (snd (service s request ctx))" using call_keeps[OF Cons.prems surjective_pairing] .
  with Cons.IH q show ?case by simp
qed simp

end

end
