(* ===== verification/Request_Stream.thy ===== *)
theory Request_Stream
  imports Request_Theorems Conn_Theorems
begin

section \<open>Serving a stream of requests\<close>

text \<open>
  What every transport owes a client, apart from how its bytes travel: requests written back to
  back, cut anywhere, and the responses in the same order. The locale \<open>stream_server\<close> says what
  one event of a transport has to do for this; the transports interpret it.
\<close>

subsection \<open>A stream cut inside a request\<close>

text \<open>
  A request as the client writes it, whose every prefix is waited for: the head stays within
  the limit also before its end has arrived, and nothing is expected of the server before the
  body.
\<close>

definition plain_request :: "nat \<Rightarrow> request \<Rightarrow> bool" where
  "plain_request mb r \<longleftrightarrow> renderable r \<and> length (render_head r) \<le> MAX_HEAD_BYTES \<and>
     body_framing (req_headers r) = Inr (Fixed (length (req_body r))) \<and> length (req_body r) \<le> mb \<and>
     length (render_request r) < 2 ^ 64 \<and> req_header r ''expect'' = None"

lemma no_end_before:
  assumes "renderable r" and "body_framing (req_headers r) = Inr f" and "render_request r = p @ rest"
    and "length p < length (render_head r)"
  shows "find_subslice p (crlf @ crlf) = None"
proof (cases "find_subslice p (crlf @ crlf)")
  case (Some j)
  obtain i where i: "i + 4 = length (render_head r)"
    "find_subslice (render_head r @ req_body r) (crlf @ crlf) = Some i"
    using render_head_parse[OF assms(1,2), of "req_body r"] by auto
  with find_subslice_append[OF Some, of rest] assms(3) have "j = i" by (simp add: render_request_def)
  with find_subslice_less(1)[OF Some] i(1) assms(4) show ?thesis by simp
qed

lemma strict_prefix_partial:
  assumes "plain_request mb r" and "strict_prefix p (render_request r)"
  shows "parse_with p mb = Ok Partial"
proof -
  obtain t where t: "render_request r = p @ t" using assms(2) by (auto elim: strict_prefixE')
  obtain i where i: "i + 4 = length (render_head r)" "i \<le> MAX_HEAD_BYTES"
    "find_subslice (render_head r @ req_body r) (crlf @ crlf) = Some i"
    "parse_head (take (i + 4) (render_head r @ req_body r)) =
       Inr (req_method r, req_target r, req_version r, req_headers r, Fixed (length (req_body r)))"
    using render_head_parse[of r "Fixed (length (req_body r))" "req_body r"] assms(1)
    by (auto simp: plain_request_def)
  show ?thesis
  proof (cases "i + 4 \<le> length p")
    case False
    then have "find_subslice p (crlf @ crlf) = None"
      using no_end_before[OF _ _ t] assms(1) i(1) by (simp add: plain_request_def)
    moreover have "length p \<le> MAX_HEAD_BYTES" using False i(1) assms(1) by (simp add: plain_request_def)
    ultimately show ?thesis by (simp add: parse_with_def)
  next
    case True
    have p: "p = take (length p) (render_head r @ req_body r)"
      using t unfolding render_request_def by (metis append_eq_conv_conj)
    have f: "find_subslice p (crlf @ crlf) = Some i"
      using find_subslice_take[OF i(3), of "length p"] True by (subst p) simp
    have "take (i + 4) p = take (i + 4) (render_head r @ req_body r)"
      using True t by (simp add: render_request_def)
    with i(4) have h: "parse_head (take (i + 4) p) =
        Inr (req_method r, req_target r, req_version r, req_headers r, Fixed (length (req_body r)))" by simp
    have len: "length p < length (render_request r)" using assms(2) by (rule prefix_length_less)
    have "wrap64 (i + 4 + length (req_body r)) = i + 4 + length (req_body r)"
      using assms(1) i(1) by (simp add: plain_request_def render_request_def)
    with parse_with_head[OF f i(2) h, of mb] assms(1) len i(1) show ?thesis
      by (simp add: plain_request_def render_request_def Let_def)
  qed
qed

lemma expect_scan_none:
  "\<forall>h \<in> set hs. field_ok h \<and> \<not> eq_ignore_ascii_case (hdr_name h) ''expect'' \<Longrightarrow>
     expect_scan (map render_header hs) = ExpectNone"
proof (induction hs)
  case (Cons h hs)
  have "CHR '':'' \<notin> set (hdr_name h)"
    using Cons.prems token_byte_no by (auto simp: field_ok_def list_all_iff)
  then have "position (\<lambda>b. b = CHR '':'') (render_header h) = Some (length (hdr_name h))"
    using position_hit[of "hdr_name h" "\<lambda>b. b = CHR '':''"] by (auto simp: render_header_def)
  with Cons show ?case by (simp add: render_header_def)
qed simp

lemma strict_prefix_not_expected:
  assumes "plain_request mb r" and "strict_prefix p (render_request r)"
  shows "expect_action p = ExpectNone"
proof (cases "find_subslice p (crlf @ crlf)")
  case (Some j)
  obtain t where t: "render_request r = p @ t" using assms(2) by (auto elim: strict_prefixE')
  have ok: "request_ok r" using assms(1) by (simp add: plain_request_def renderable_def)
  note lines = head_lines_ok[OF ok]
  let ?i = "length (unlines (head_lines r)) - 2"
  have "find_subslice (render_head r @ req_body r) (crlf @ crlf) = Some ?i"
    using find_head_end[of "head_lines r" "req_body r"] lines by (simp add: render_head_def head_lines_def)
  with find_subslice_append[OF Some, of t] t have j: "j = ?i" by (simp add: render_request_def)
  have "?i + 4 \<le> length p" using find_subslice_less(1)[OF Some] j by simp
  then have "take ?i p = take ?i (unlines (head_lines r) @ crlf @ req_body r)"
    using arg_cong[OF t, of "take ?i"] by (simp add: render_request_def render_head_def)
  with split_crlf_block[of "head_lines r" "crlf @ req_body r"] lines
  have "split_crlf (take j p) = head_lines r" by (simp add: j head_lines_def)
  moreover have "\<forall>h \<in> set (req_headers r). field_ok h \<and> \<not> eq_ignore_ascii_case (hdr_name h) ''expect''"
    using ok assms(1) by (auto simp: request_ok_def plain_request_def req_header_def find_None_iff list_all_iff)
  ultimately show ?thesis
    using Some by (simp add: expect_action_def head_lines_def expect_scan_none)
qed (simp add: expect_action_def)

text \<open>Where a cut falls in a stream of nonempty texts: behind some of them, inside the next.\<close>

lemma cut_stream:
  assumes "b @ later = concat (map f rs)" and "\<forall>r \<in> set rs. f r \<noteq> []"
  shows "\<exists>rs1 rs2 rest. rs = rs1 @ rs2 \<and> b = concat (map f rs1) @ rest \<and> rest @ later = concat (map f rs2) \<and>
    (rest = [] \<or> (\<exists>r. r \<in> set rs2 \<and> strict_prefix rest (f r)))"
  using assms
proof (induction rs arbitrary: b)
  case (Cons r rs)
  show ?case
  proof (cases "strict_prefix b (f r)")
    case True
    with Cons.prems show ?thesis by (intro exI[of _ "[]"] exI[of _ "r # rs"] exI[of _ b]) auto
  next
    case False
    from Cons.prems(1) have "prefix b (f r) \<or> prefix (f r) b"
      by (metis concat.simps(2) list.simps(9) prefixI prefix_same_cases)
    with False obtain b' where b: "b = f r @ b'" by (auto simp: strict_prefix_def prefix_def)
    with Cons.prems have "b' @ later = concat (map f rs)" by simp
    from Cons.IH[OF this] Cons.prems(2) obtain rs1 rs2 rest where
      "rs = rs1 @ rs2" "b' = concat (map f rs1) @ rest" "rest @ later = concat (map f rs2)"
      "rest = [] \<or> (\<exists>r. r \<in> set rs2 \<and> strict_prefix rest (f r))" by auto
    with b show ?thesis by (intro exI[of _ "r # rs1"] exI[of _ rs2] exI[of _ rest]) auto
  qed
qed simp

lemma frames_cut:
  assumes "\<forall>r \<in> set rs1. plain_request mb r" and "parse_with rest mb = Ok Partial"
  shows "frames (next_request mb) (concat (map render_request rs1) @ rest) = (rs1, rest)"
  using assms
proof (induction rs1)
  case Nil
  then show ?case using rq.frames_None[of mb rest] by (simp add: next_request_def[of mb rest])
next
  case (Cons r rs)
  have "next_request mb (render_request r @ concat (map render_request rs) @ rest) = Some (r, length (render_request r))"
    using Cons.prems(1) parse_render_fixed by (simp add: next_request_Some plain_request_def)
  from rq.frames_Some[OF this] Cons show ?case by simp
qed

text \<open>
  The limit on the head is applied to the bytes received so far before the end of the head has
  arrived, and to the head without its last four bytes afterwards: a head at the limit is
  accepted when its end comes with the rest, and refused when the network cuts it just before.
\<close>

theorem head_limit_depends_on_cuts:
  assumes "renderable r" and "body_framing (req_headers r) = Inr (Fixed (length (req_body r)))"
    and "length (req_body r) \<le> mb" and "length (render_request r) < 2 ^ 64"
    and "strict_prefix p (render_head r)" and "MAX_HEAD_BYTES < length p"
  shows "parse_with (render_request r) mb = Ok (Complete r (length (render_request r))) \<and>
    parse_with p mb = Err HeadTooLarge"
proof -
  obtain rest where "render_head r = p @ rest" using assms(5) by (auto elim: strict_prefixE')
  then have "render_request r = p @ rest @ req_body r" by (simp add: render_request_def)
  from no_end_before[OF assms(1,2) this] prefix_length_less[OF assms(5)] assms(6)
  show ?thesis using parse_render_fixed[OF assms(1-4), of "[]"] by (simp add: parse_with_def)
qed

lemma conn_step_config:
  assumes "conn_step service now c s = Some (st, c', s')"
  shows "conn_max_body c' = conn_max_body c \<and> conn_policy c' = conn_policy c \<and> conn_peer c' = conn_peer c"
  using assms
  by (auto simp: conn_step_def Let_def split: outcome.splits parsed.splits expect_action.splits if_splits prod.splits)

lemma drive_config:
  "drive service now c s out = Some (out', closed, c', s') \<Longrightarrow>
     conn_max_body c' = conn_max_body c \<and> conn_policy c' = conn_policy c \<and> conn_peer c' = conn_peer c"
proof (induction service now c s out rule: drive.induct)
  case (1 service now c s out)
  from "1.prems" obtain st c1 s1 where st: "conn_step service now c s = Some (st, c1, s1)"
    by (auto simp: drive.simps[of service now c] split: option.splits)
  note k = conn_step_config[OF st]
  show ?case
  proof (cases st)
    case NeedMore
    with "1.prems" st k show ?thesis by (auto simp: drive.simps[of service now c])
  next
    case (Write b close)
    with "1.prems" st k "1.IH"[OF st refl Write refl] show ?thesis
      by (cases close) (auto simp: drive.simps[of service now c])
  qed
qed

lemma nothing_buffered:
  "parse_with [] mb = Ok Partial" "expect_action [] = ExpectNone"
  by (simp_all add: parse_with_def expect_action_def find_subslice_def)

lemma plain_nonempty: "plain_request mb r \<Longrightarrow> render_request r \<noteq> []"
  by (auto simp: plain_request_def render_request_def render_head_def head_lines_def)

subsection \<open>What is left in the buffer\<close>

text \<open>All but the last request keep the connection open; the last one may end it.\<close>

abbreviation ends :: "request list \<Rightarrow> bool" where
  "ends rs \<equiv> rs \<noteq> [] \<and> \<not> req_keep_alive (last rs)"

lemma serve_requests_closed:
  "\<forall>r \<in> set (butlast rs). req_keep_alive r \<Longrightarrow> serve_requests service ctx policy rs s = (bs, closed, s') \<Longrightarrow>
     closed \<longleftrightarrow> ends rs"
proof (induction rs arbitrary: s bs)
  case (Cons r rs)
  then show ?case
    by (cases "req_keep_alive r"; cases "rs = []") (auto simp: Let_def split: prod.splits)
qed simp

text \<open>The loop over a buffer that holds whole requests and a part of the next one.\<close>

lemma drive_cut:
  assumes "conn_buf c = concat (map render_request rs) @ rest"
    and "\<forall>r \<in> set rs. plain_request (conn_max_body c) r" and "\<forall>r \<in> set (butlast rs). req_keep_alive r"
    and "parse_with rest (conn_max_body c) = Ok Partial" "expect_action rest = ExpectNone"
    and "serve_requests service (conn_context c now) (conn_policy c) rs s = (bs, closed, s')"
  shows "\<exists>c'. drive service now c s out = Some (out @ bs, closed, c', s') \<and> conn_buf c' = rest \<and>
    conn_max_body c' = conn_max_body c \<and> conn_policy c' = conn_policy c \<and> conn_peer c' = conn_peer c"
  using assms
proof (induction rs arbitrary: c s out bs)
  case Nil
  then have "conn_step service now c s = Some (NeedMore, c, s)" by (simp add: conn_step_partial)
  from drive_needmore[OF this, of out] Nil show ?case by auto
next
  case (Cons r rs)
  let ?n = "length (render_request r)" and ?c = "after_request (length (render_request r)) c"
  have "parse_with (render_request r @ concat (map render_request rs) @ rest) (conn_max_body c) = Ok (Complete r ?n)"
    using Cons.prems(2) by (intro parse_render_fixed) (simp_all add: plain_request_def)
  then have p: "parse_with (conn_buf c) (conn_max_body c) = Ok (Complete r ?n)" using Cons.prems(1) by simp
  obtain a s1 where a: "service s r (conn_context c now) = (a, s1)" by fastforce
  note st = conn_step_complete[OF p, of service s now, OF a]
  have c: "conn_buf ?c = concat (map render_request rs) @ rest" "conn_max_body ?c = conn_max_body c"
    "conn_policy ?c = conn_policy c" "conn_peer ?c = conn_peer c" "conn_context ?c now = conn_context c now"
    using Cons.prems(1) by (simp_all add: after_request_def conn_context_def)
  show ?case
  proof (cases "req_keep_alive r")
    case True
    obtain bs' closed' s2 where sv: "serve_requests service (conn_context c now) (conn_policy c) rs s1 = (bs', closed', s2)"
      by (metis prod_cases3)
    with Cons.prems(6) True a have b: "bs = answer_bytes a now (conn_policy c) r @ bs'" "closed = closed'" "s' = s2"
      by (simp_all add: Let_def conn_context_def)
    have "\<forall>r \<in> set (butlast rs). req_keep_alive r" using Cons.prems(3) by (cases rs) auto
    with Cons.IH[of ?c s1 bs' "out @ answer_bytes a now (conn_policy c) r"] Cons.prems(2,4,5) sv b c
    show ?thesis using drive_open[of service now c s "answer_bytes a now (conn_policy c) r" ?c s1 out] st True by auto
  next
    case False
    then have "rs = []" using Cons.prems(3) by (cases rs) auto
    with st False Cons.prems(6) a c drive_close[of service now c s "answer_bytes a now (conn_policy c) r" ?c s1 out]
    show ?thesis by (auto simp: Let_def conn_context_def)
  qed
qed

lemma butlast_appendD:
  assumes "\<forall>x \<in> set (butlast (xs @ ys)). P x"
  shows "(\<forall>x \<in> set (butlast xs). P x) \<and> (\<forall>x \<in> set (butlast ys). P x)"
  using assms by (cases "ys = []") (auto simp: butlast_append dest: in_set_butlastD)

subsection \<open>Servers of streams\<close>

text \<open>The specification: the requests an event completes are served at the time of the event.\<close>

fun serve_turns ::
  "'s service \<Rightarrow> bytes \<Rightarrow> response_policy \<Rightarrow> (nat \<times> request list) list \<Rightarrow> 's \<Rightarrow> bytes \<times> 's" where
  "serve_turns service peer policy [] s = ([], s)"
| "serve_turns service peer policy ((now, rs) # turns) s =
     (case serve_requests service \<lparr>ctx_peer = peer, ctx_now = now\<rparr> policy rs s of
        (bs, _, s) \<Rightarrow> (case serve_turns service peer policy turns s of (bs', s) \<Rightarrow> (bs @ bs', s)))"

lemma serve_turns_nothing: "concat (map snd turns) = [] \<Longrightarrow> serve_turns service peer policy turns s = ([], s)"
  by (induction turns) (auto split: prod.splits)

lemma serve_turns_single:
  "concat (map snd turns) = [r] \<Longrightarrow> \<exists>now \<in> set (map fst turns). \<exists>a s'.
     service s r \<lparr>ctx_peer = peer, ctx_now = now\<rparr> = (a, s') \<and>
     serve_turns service peer policy turns s = (answer_bytes a now policy r, s')"
proof (induction turns)
  case (Cons turn turns)
  obtain now rs where t: "turn = (now, rs)" by fastforce
  show ?case
  proof (cases rs)
    case Nil
    with Cons t show ?thesis by auto
  next
    case (Cons q qs)
    with Cons.prems t have "rs = [r]" "concat (map snd turns) = []" by auto
    with t serve_turns_nothing[OF this(2), of service peer policy] show ?thesis
      by (cases "service s r \<lparr>ctx_peer = peer, ctx_now = now\<rparr>") (simp add: Let_def)
  qed
qed simp

fun run_events :: "('e \<Rightarrow> 'c \<times> 's \<Rightarrow> ('c \<times> 's) option) \<Rightarrow> 'e list \<Rightarrow> 'c \<times> 's \<Rightarrow> ('c \<times> 's) option" where
  "run_events step [] x = Some x"
| "run_events step (e # es) x = (case step e x of None \<Rightarrow> None | Some y \<Rightarrow> run_events step es y)"

text \<open>
  \<open>live es c\<close>: the connection is open and the events \<open>es\<close> bring the bytes they are paired with;
  \<open>closing es c\<close>: a response has ended it, and the events bring nothing any more. \<open>out\<close> is all
  output so far, sent or pending.
\<close>

locale stream_server =
  fixes step :: "'e \<Rightarrow> 'c \<times> 's \<Rightarrow> ('c \<times> 's) option"
    and time :: "'e \<Rightarrow> nat"
    and live :: "('e \<times> bytes) list \<Rightarrow> 'c \<Rightarrow> bool"
    and closing :: "'e list \<Rightarrow> 'c \<Rightarrow> bool"
    and buf out :: "'c \<Rightarrow> bytes"
    and service :: "'s service" and peer :: bytes and policy :: response_policy and mb :: nat
  assumes live_step: "live ((e, d) # es) c \<Longrightarrow> parse_with (buf c) mb = Ok Partial \<Longrightarrow>
      buf c @ d = concat (map render_request rs) @ rest \<Longrightarrow>
      \<forall>r \<in> set rs. plain_request mb r \<Longrightarrow> \<forall>r \<in> set (butlast rs). req_keep_alive r \<Longrightarrow>
      parse_with rest mb = Ok Partial \<Longrightarrow> expect_action rest = ExpectNone \<Longrightarrow>
      serve_requests service \<lparr>ctx_peer = peer, ctx_now = time e\<rparr> policy rs s = (bs, closed, s') \<Longrightarrow>
      closed \<longrightarrow> rest = [] \<and> concat (map snd es) = [] \<Longrightarrow>
      \<exists>c'. step e (c, s) = Some (c', s') \<and> out c' = out c @ bs \<and>
        (if closed then closing (map fst es) c' else live es c' \<and> buf c' = rest)"
    and closing_step: "closing (e # later) c \<Longrightarrow> \<exists>c'. step e (c, s) = Some (c', s) \<and> out c' = out c \<and> closing later c'"
begin

lemma closing_served:
  "closing es c \<Longrightarrow> \<exists>c' turns. map fst turns = map time es \<and> concat (map snd turns) = [] \<and>
     serve_turns service peer policy turns s = ([], s) \<and>
     run_events step es (c, s) = Some (c', s) \<and> out c' = out c \<and> closing [] c'"
proof (induction es arbitrary: c)
  case Nil
  then show ?case by (intro exI[of _ c] exI[of _ "[]"]) simp
next
  case (Cons e es)
  from closing_step[OF Cons.prems, of s] obtain c1 where
    c1: "step e (c, s) = Some (c1, s)" "out c1 = out c" "closing es c1" by blast
  from Cons.IH[OF c1(3)] obtain c' turns where
    "map fst turns = map time es" "concat (map snd turns) = []" "serve_turns service peer policy turns s = ([], s)"
    "run_events step es (c1, s) = Some (c', s)" "out c' = out c1" "closing [] c'" by blast
  with c1 show ?case by (intro exI[of _ c'] exI[of _ "(time e, []) # turns"]) simp
qed

text \<open>The first event: what it completes is served, and the stream goes on or has ended.\<close>

lemma first_event:
  assumes "live ((e, d) # es) c" and "parse_with (buf c) mb = Ok Partial"
    and "(buf c @ d) @ concat (map snd es) = concat (map render_request rs)"
    and "\<forall>r \<in> set rs. plain_request mb r" and "\<forall>r \<in> set (butlast rs). req_keep_alive r"
  obtains rs1 rs2 bs closed c1 s1 where
    "rs = rs1 @ rs2" "serve_requests service \<lparr>ctx_peer = peer, ctx_now = time e\<rparr> policy rs1 s = (bs, closed, s1)"
    "step e (c, s) = Some (c1, s1)" "out c1 = out c @ bs"
    "closed \<longrightarrow> rs2 = [] \<and> ends rs \<and> closing (map fst es) c1"
    "\<not> closed \<longrightarrow> ends rs = ends rs2 \<and> live es c1 \<and> parse_with (buf c1) mb = Ok Partial \<and>
       buf c1 @ concat (map snd es) = concat (map render_request rs2)"
proof -
  from cut_stream[OF assms(3)] assms(4) plain_nonempty obtain rs1 rs2 rest where
    cut: "rs = rs1 @ rs2" "buf c @ d = concat (map render_request rs1) @ rest"
      "rest @ concat (map snd es) = concat (map render_request rs2)"
      "rest = [] \<or> (\<exists>r. r \<in> set rs2 \<and> strict_prefix rest (render_request r))"
    by blast
  have "rest = [] \<or> (\<exists>r. plain_request mb r \<and> strict_prefix rest (render_request r))"
    using cut(1,4) assms(4) by auto
  then have rest: "parse_with rest mb = Ok Partial" "expect_action rest = ExpectNone"
    using nothing_buffered strict_prefix_partial strict_prefix_not_expected by blast+
  have rs1: "\<forall>r \<in> set rs1. plain_request mb r" "\<forall>r \<in> set (butlast rs1). req_keep_alive r"
    using assms(4) cut(1) butlast_appendD[of rs1 rs2 req_keep_alive] assms(5) by simp_all
  obtain bs closed s1 where sv: "serve_requests service \<lparr>ctx_peer = peer, ctx_now = time e\<rparr> policy rs1 s = (bs, closed, s1)"
    by (metis prod_cases3)
  note cl = serve_requests_closed[OF rs1(2) sv]
  have none: "rs2 = []" if closed
  proof (rule ccontr)
    assume "rs2 \<noteq> []"
    with assms(5) cut(1) have "\<forall>r \<in> set rs1. req_keep_alive r" by (simp add: butlast_append)
    then have "rs1 \<noteq> [] \<Longrightarrow> req_keep_alive (last rs1)" by simp
    with that cl show False by blast
  qed
  with cut(3) have "closed \<longrightarrow> rest = [] \<and> concat (map snd es) = []"
    by (metis append_is_Nil_conv concat.simps(1) list.simps(8))
  from live_step[OF assms(1,2) cut(2) rs1 rest sv this] obtain c1 where
    c1: "step e (c, s) = Some (c1, s1)" "out c1 = out c @ bs"
      "if closed then closing (map fst es) c1 else live es c1 \<and> buf c1 = rest" by blast
  have "\<not> closed \<Longrightarrow> ends rs = ends rs2" "closed \<Longrightarrow> ends rs"
    using cl cut(1) none by (cases "rs2 = []"; auto)+
  from that[OF cut(1) sv c1(1,2)] this none c1(3) cut(3) rest(1) show thesis by (auto simp del: concat_eq_Nil_conv)
qed

theorem stream_served:
  assumes "live es c" and "parse_with (buf c) mb = Ok Partial"
    and "buf c @ concat (map snd es) = concat (map render_request rs)"
    and "\<forall>r \<in> set rs. plain_request mb r" and "\<forall>r \<in> set (butlast rs). req_keep_alive r"
  shows "\<exists>turns c' s' bs. map fst turns = map (\<lambda>e. time (fst e)) es \<and> concat (map snd turns) = rs \<and>
    serve_turns service peer policy turns s = (bs, s') \<and>
    run_events step (map fst es) (c, s) = Some (c', s') \<and> out c' = out c @ bs \<and>
    (if ends rs then closing [] c' else live [] c' \<and> buf c' = [])"
  using assms
proof (induction es arbitrary: c s rs)
  case Nil
  have "rs = []"
  proof (rule ccontr)
    assume "rs \<noteq> []"
    then obtain r rs' where rs: "rs = r # rs'" by (cases rs) auto
    have "parse_with (buf c) mb = Ok (Complete r (length (render_request r)))"
      using Nil.prems(3,4) parse_render_fixed[of r mb] by (simp add: rs plain_request_def)
    with Nil.prems(2) show False by simp
  qed
  with Nil.prems show ?case by (intro exI[of _ "[]"] exI[of _ c] exI[of _ s]) simp
next
  case (Cons ed es)
  obtain e d where ed: "ed = (e, d)" by fastforce
  from Cons.prems(3) have stream: "(buf c @ d) @ concat (map snd es) = concat (map render_request rs)" by (simp add: ed)
  from first_event[OF Cons.prems(1)[unfolded ed] Cons.prems(2) stream Cons.prems(4,5), of s]
  obtain rs1 rs2 bs closed c1 s1 where first: "rs = rs1 @ rs2"
    "serve_requests service \<lparr>ctx_peer = peer, ctx_now = time e\<rparr> policy rs1 s = (bs, closed, s1)"
    "step e (c, s) = Some (c1, s1)" "out c1 = out c @ bs"
    "closed \<longrightarrow> rs2 = [] \<and> ends rs \<and> closing (map fst es) c1"
    "\<not> closed \<longrightarrow> ends rs = ends rs2 \<and> live es c1 \<and> parse_with (buf c1) mb = Ok Partial \<and>
       buf c1 @ concat (map snd es) = concat (map render_request rs2)" .
  obtain turns c' s' bs' where later:
    "map fst turns = map (\<lambda>e. time (fst e)) es" "concat (map snd turns) = rs2"
    "serve_turns service peer policy turns s1 = (bs', s')"
    "run_events step (map fst es) (c1, s1) = Some (c', s')" "out c' = out c1 @ bs'"
    "if ends rs then closing [] c' else live [] c' \<and> buf c' = []"
  proof (cases closed)
    case True
    from closing_served[of "map fst es" c1 s1] first(5) True that[of _ "[]" s1] show thesis
      by (auto simp: comp_def simp del: concat_eq_Nil_conv)
  next
    case False
    have "\<forall>r \<in> set rs2. plain_request mb r" "\<forall>r \<in> set (butlast rs2). req_keep_alive r"
      using Cons.prems(4) first(1) butlast_appendD[of rs1 rs2 req_keep_alive] Cons.prems(5) by simp_all
    with Cons.IH[of c1 rs2 s1] first(6) False that show thesis by (smt (verit))
  qed
  have "map fst ((time e, rs1) # turns) = map (\<lambda>e. time (fst e)) (ed # es)" using later(1) by (simp add: ed)
  moreover have "concat (map snd ((time e, rs1) # turns)) = rs" using later(2) first(1) by simp
  moreover have "serve_turns service peer policy ((time e, rs1) # turns) s = (bs @ bs', s')" using first(2) later(3) by simp
  moreover have "run_events step (map fst (ed # es)) (c, s) = Some (c', s')" using first(3) later(4) by (simp add: ed)
  moreover have "out c' = out c @ bs @ bs'" using first(4) later(5) by simp
  ultimately show ?case using later(6) by blast
qed

end

subsection \<open>A request for the witnesses\<close>

lemma plain_sample_post: "plain_request 100 sample_post" "req_keep_alive sample_post"
proof -
  show "plain_request 100 sample_post"
  proof -
    have "length (render_head sample_post) \<le> MAX_HEAD_BYTES" by (simp add: sample_eval MAX_HEAD_BYTES_def)
    moreover have "length (req_body sample_post) \<le> 100" "length (render_request sample_post) < 2 ^ 64"
      by (simp_all add: sample_eval)
    moreover have "req_header sample_post ''expect'' = None" by (simp add: sample_post_def exec_simps)
    ultimately show ?thesis using renderable_sample_post by (simp add: plain_request_def)
  qed
  show "req_keep_alive sample_post" by (simp add: sample_post_def exec_simps)
qed

text \<open>A head of 16388 bytes, cut before its last byte.\<close>

definition wide_request :: "bytes \<Rightarrow> request" where
  "wide_request v = \<lparr>req_method = Get, req_target = ''/'', req_version = Http11,
     req_headers = [\<lparr>hdr_name = ''Host'', hdr_value = ''h''\<rparr>, \<lparr>hdr_name = ''X'', hdr_value = v\<rparr>], req_body = []\<rparr>"

theorem head_limit_depends_on_cuts_witness:
  "\<exists>r. parse_with (render_request r) 0 = Ok (Complete r (length (render_request r))) \<and>
     parse_with (butlast (render_head r)) 0 = Err HeadTooLarge"
proof -
  obtain v :: bytes where v: "length v = 16356" "\<forall>c \<in> set v. c = CHR ''x''"
    by (rule that[of "replicate 16356 (CHR ''x'')"]) auto
  obtain a where a: "v = CHR ''x'' # a" using v by (cases v) auto
  obtain b where b: "v = b @ [CHR ''x'']" using v by (cases v rule: rev_cases) auto
  have x: "c = CHR ''x''" if "c \<in> set v" for c using v(2) that by blast
  have "byte_val (CHR ''x'') < 128" by simp
  then have "utf8_valid v" by (intro utf8_valid_ascii ballI) (metis x)
  moreover have "trim_ows v = v"
  proof -
    have "dropWhile is_ows v = v" unfolding a by (simp add: is_ows_def exec_simps)
    moreover have "dropWhile is_ows (rev v) = rev v" by (simp add: b is_ows_def exec_simps)
    ultimately show ?thesis by (simp add: trim_ows_def)
  qed
  moreover have "CR \<noteq> CHR ''x''" by simp
  then have "CR \<notin> set v" using x by metis
  ultimately have r: "renderable (wide_request v)" "body_framing (req_headers (wide_request v)) = Inr (Fixed 0)"
    using v(1) by (simp_all add: wide_request_def sample_eval exec_simps)
  have l: "length (render_head (wide_request v)) = 16388" "req_body (wide_request v) = []"
    using v(1) by (simp_all add: wide_request_def sample_eval exec_simps)
  then have "render_head (wide_request v) \<noteq> []" by auto
  then have "strict_prefix (butlast (render_head (wide_request v))) (render_head (wide_request v))"
    by (cases "render_head (wide_request v)" rule: rev_cases) (simp_all add: strict_prefix_def)
  from head_limit_depends_on_cuts[OF r(1) _ _ _ this, of 0] r(2) l show ?thesis
    by (intro exI[of _ "wide_request v"]) (simp add: render_request_def MAX_HEAD_BYTES_def)
qed

end
