(* ===== verification/Server.thy ===== *)
theory Server
  imports Transport_Theorems Request_Stream
begin

section \<open>The server as a whole\<close>

text \<open>
  The composition of the parser, the connection, a service and the event loop: what a client
  that sends well-formed requests reads from its socket. One connection of the reactor is a
  server of streams, as \<open>Request_Stream\<close> has it.
\<close>

subsection \<open>One readiness event\<close>

text \<open>What the reads of an event deliver, unless they end the connection.\<close>

fun delivered :: "io_read list \<Rightarrow> bytes option" where
  "delivered [] = Some []"
| "delivered (ReadOk data # reads) = (if data = [] then None else map_option ((@) data) (delivered reads))"
| "delivered (ReadWouldBlock # reads) = Some []"
| "delivered (ReadInterrupted # reads) = delivered reads"
| "delivered (ReadFailed # reads) = None"

definition event_data :: "ready \<Rightarrow> bytes option" where
  "event_data rd = (if rd_readable rd then delivered (rd_reads rd) else Some [])"

definition writes_fine :: "io_write list \<Rightarrow> bool" where
  "writes_fine ws \<longleftrightarrow> WriteFailed \<notin> set ws \<and> WriteOk 0 \<notin> set ws"

lemma plain_read_delivered: "delivered reads = Some d \<Longrightarrow> plain_read_in reads c = (False, feed d c)"
  by (induction reads c arbitrary: d rule: plain_read_in.induct)
     (auto simp: feed_def split: if_splits)

lemma plain_write_fine: "writes_fine ws \<Longrightarrow> \<exists>out' sent'. plain_write_out ws out sent = (False, out', sent')"
proof (induction ws out sent rule: plain_write_out.induct)
  case (2 w ws out sent)
  show ?case
  proof (cases w)
    case (WriteOk n)
    with 2 show ?thesis by (cases "out = []") (auto simp: writes_fine_def Let_def)
  qed (use 2 in \<open>auto simp: writes_fine_def\<close>)
qed simp

text \<open>
  An event that does not end in the read: whatever few bytes the writes take, the connection is
  dropped only when it is to be closed and has nothing left to send.
\<close>

lemma handle_ready_writes:
  assumes "(if readable \<and> \<not> tc_close_after_flush c then read_and_drive service now reads c s
      else Some (False, c, s)) = Some (False, c1, s')" and "writes_fine writes"
  shows "\<exists>dropped c' sent. handle_ready service now readable reads writes c s = Some (dropped, c', s', sent) \<and>
    sent @ tc_out c' = tc_out c1 \<and> (dropped \<longleftrightarrow> tc_close_after_flush c1 \<and> tc_out c' = []) \<and>
    tc_close_after_flush c' = tc_close_after_flush c1 \<and> tc_state c' = tc_state c1"
proof -
  obtain out sent where wo: "plain_write_out writes (tc_out c1) [] = (False, out, sent)"
    using plain_write_fine[OF assms(2)] by blast
  obtain dropped c2 where u: "update_interest (c1\<lparr>tc_out := out\<rparr>) = (dropped, c2)" by fastforce
  have "handle_ready service now readable reads writes c s = Some (dropped, c2, s', sent)"
    unfolding handle_ready_def assms(1) using wo u by (simp add: Let_def)
  moreover have "sent @ out = tc_out c1" using write_out_split[OF wo] by simp
  ultimately show ?thesis using update_interest_keeps[OF u] by auto
qed

lemma event_serves:
  assumes "event_data rd = Some d" and "writes_fine (rd_writes rd)" and "\<not> tc_close_after_flush c"
    and "parse_with (conn_buf (tc_state c)) (conn_max_body (tc_state c)) = Ok Partial"
    and "conn_buf (tc_state c) @ d = concat (map render_request rs) @ rest"
    and "\<forall>r \<in> set rs. plain_request (conn_max_body (tc_state c)) r" and "\<forall>r \<in> set (butlast rs). req_keep_alive r"
    and "parse_with rest (conn_max_body (tc_state c)) = Ok Partial" "expect_action rest = ExpectNone"
    and "serve_requests service (conn_context (tc_state c) (rd_unix rd)) (conn_policy (tc_state c)) rs s = (bs, closed, s')"
  shows "\<exists>dropped c' sent.
    handle_ready service (rd_unix rd) (rd_readable rd) (rd_reads rd) (rd_writes rd) c s = Some (dropped, c', s', sent) \<and>
    sent @ tc_out c' = tc_out c @ bs \<and> (dropped \<longleftrightarrow> closed \<and> tc_out c' = []) \<and> tc_close_after_flush c' = closed \<and>
    conn_buf (tc_state c') = rest \<and> conn_max_body (tc_state c') = conn_max_body (tc_state c) \<and>
    conn_policy (tc_state c') = conn_policy (tc_state c) \<and> conn_peer (tc_state c') = conn_peer (tc_state c)"
proof -
  obtain c1 where c1: "(if rd_readable rd \<and> \<not> tc_close_after_flush c
        then read_and_drive service (rd_unix rd) (rd_reads rd) c s else Some (False, c, s)) = Some (False, c1, s')"
    "tc_out c1 = tc_out c @ bs" "tc_close_after_flush c1 = closed" "conn_buf (tc_state c1) = rest"
    "conn_max_body (tc_state c1) = conn_max_body (tc_state c)"
    "conn_policy (tc_state c1) = conn_policy (tc_state c)" "conn_peer (tc_state c1) = conn_peer (tc_state c)"
  proof (cases "rd_readable rd")
    case True
    let ?f = "feed d (tc_state c)"
    have f: "conn_max_body ?f = conn_max_body (tc_state c)" "conn_policy ?f = conn_policy (tc_state c)"
      "conn_peer ?f = conn_peer (tc_state c)" "conn_context ?f (rd_unix rd) = conn_context (tc_state c) (rd_unix rd)"
      "conn_buf ?f = conn_buf (tc_state c) @ d"
      by (simp_all add: feed_def conn_context_def)
    from drive_cut[of ?f rs rest service "rd_unix rd" s bs closed s' "tc_out c"] assms f obtain st where
      "drive service (rd_unix rd) ?f s (tc_out c) = Some (tc_out c @ bs, closed, st, s')" "conn_buf st = rest"
      "conn_max_body st = conn_max_body (tc_state c)" "conn_policy st = conn_policy (tc_state c)"
      "conn_peer st = conn_peer (tc_state c)" by auto
    moreover have "plain_read_in (rd_reads rd) (tc_state c) = (False, ?f)"
      using assms(1) True by (intro plain_read_delivered) (simp add: event_data_def)
    ultimately show thesis
      using that[of "c\<lparr>tc_state := st, tc_out := tc_out c @ bs, tc_close_after_flush := closed\<rparr>"] True assms(3)
      by (simp add: read_and_drive_def)
  next
    case False
    with assms(1,5) have "frames (next_request (conn_max_body (tc_state c))) (conn_buf (tc_state c)) = (rs, rest)"
      using frames_cut[OF assms(6,8)] by (simp add: event_data_def)
    with rq.frames_None[of "conn_max_body (tc_state c)" "conn_buf (tc_state c)"] assms(4)
    have "rs = [] \<and> rest = conn_buf (tc_state c)" by (simp add: next_request_def[of _ "conn_buf (tc_state c)"])
    with False assms(3,10) that[of c] show thesis by simp
  qed
  from handle_ready_writes[OF c1(1) assms(2)] c1(2-) show ?thesis by auto
qed

subsection \<open>One connection, many events\<close>

text \<open>
  The state is whether the connection has been dropped, the connection, and what has been sent;
  a connection that has been dropped gets no more events.
\<close>

fun conn_event :: "'s service \<Rightarrow> ready \<Rightarrow> (bool \<times> tconn \<times> bytes) \<times> 's \<Rightarrow> ((bool \<times> tconn \<times> bytes) \<times> 's) option" where
  "conn_event service rd ((dropped, c, sent), s) =
     (if dropped then Some ((dropped, c, sent), s)
      else map_option (\<lambda>(dropped, c, s, now). ((dropped, c, sent @ now), s))
        (handle_ready service (rd_unix rd) (rd_readable rd) (rd_reads rd) (rd_writes rd)
          (c\<lparr>tc_last_activity := rd_instant rd\<rparr>) s))"

lemma run_dropped: "run_events (conn_event service) rds ((True, c, sent), s) = Some ((True, c, sent), s)"
  by (induction rds) simp_all

lemma run_conn_events:
  "run_events (conn_event service) rds ((False, c, before), s) =
     map_option (\<lambda>(dropped, c, s, sent). ((dropped, c, before @ sent), s)) (conn_events service rds c s)"
proof (induction rds arbitrary: c s before)
  case (Cons rd rds)
  show ?case
  proof (cases "handle_ready service (rd_unix rd) (rd_readable rd) (rd_reads rd) (rd_writes rd)
      (c\<lparr>tc_last_activity := rd_instant rd\<rparr>) s")
    case (Some y)
    obtain dropped c1 s1 sent where "y = (dropped, c1, s1, sent)" by (metis prod_cases4)
    with Some Cons.IH[of c1 "before @ sent" s1] show ?thesis
      by (cases dropped) (auto simp: run_dropped split: option.split)
  qed simp
qed simp

fun conn_live :: "bytes \<Rightarrow> response_policy \<Rightarrow> nat \<Rightarrow> (ready \<times> bytes) list \<Rightarrow> bool \<times> tconn \<times> bytes \<Rightarrow> bool" where
  "conn_live peer policy mb es (dropped, c, sent) \<longleftrightarrow> \<not> dropped \<and> \<not> tc_close_after_flush c \<and>
     conn_peer (tc_state c) = peer \<and> conn_policy (tc_state c) = policy \<and> conn_max_body (tc_state c) = mb \<and>
     (\<forall>(rd, d) \<in> set es. event_data rd = Some d \<and> writes_fine (rd_writes rd))"

fun conn_closing :: "ready list \<Rightarrow> bool \<times> tconn \<times> bytes \<Rightarrow> bool" where
  "conn_closing rds (dropped, c, sent) \<longleftrightarrow> tc_close_after_flush c \<and> (dropped \<longrightarrow> tc_out c = []) \<and>
     (\<forall>rd \<in> set rds. writes_fine (rd_writes rd))"

fun conn_output :: "bool \<times> tconn \<times> bytes \<Rightarrow> bytes" where
  "conn_output (dropped, c, sent) = sent @ tc_out c"

fun conn_pending :: "bool \<times> tconn \<times> bytes \<Rightarrow> bytes" where
  "conn_pending (dropped, c, sent) = conn_buf (tc_state c)"

interpretation mio: stream_server "conn_event service" rd_unix "conn_live peer policy mb" conn_closing
    conn_pending conn_output service peer policy mb
  for service :: "'s service" and peer policy mb
proof
  fix rd d es x rs rest s bs closed s'
  assume a: "conn_live peer policy mb ((rd, d) # es) x" "parse_with (conn_pending x) mb = Ok Partial"
    "conn_pending x @ d = concat (map render_request rs) @ rest"
    "\<forall>r \<in> set rs. plain_request mb r" "\<forall>r \<in> set (butlast rs). req_keep_alive r"
    "parse_with rest mb = Ok Partial" "expect_action rest = ExpectNone"
    "serve_requests service \<lparr>ctx_peer = peer, ctx_now = rd_unix rd\<rparr> policy rs s = (bs, closed, s')"
  obtain dropped c sent where x: "x = (dropped, c, sent)" by (metis prod_cases3)
  let ?c = "c\<lparr>tc_last_activity := rd_instant rd\<rparr>"
  have ctx: "conn_context (tc_state ?c) (rd_unix rd) = \<lparr>ctx_peer = peer, ctx_now = rd_unix rd\<rparr>"
    using a(1) by (simp add: x conn_context_def)
  have "\<exists>dropped c' sent.
    handle_ready service (rd_unix rd) (rd_readable rd) (rd_reads rd) (rd_writes rd) ?c s = Some (dropped, c', s', sent) \<and>
    sent @ tc_out c' = tc_out ?c @ bs \<and> (dropped \<longleftrightarrow> closed \<and> tc_out c' = []) \<and> tc_close_after_flush c' = closed \<and>
    conn_buf (tc_state c') = rest \<and> conn_max_body (tc_state c') = conn_max_body (tc_state ?c) \<and>
    conn_policy (tc_state c') = conn_policy (tc_state ?c) \<and> conn_peer (tc_state c') = conn_peer (tc_state ?c)"
    by (rule event_serves[where d = d and rs = rs]) (use a x ctx in simp_all)
  then show "\<exists>x'. conn_event service rd (x, s) = Some (x', s') \<and> conn_output x' = conn_output x @ bs \<and>
    (if closed then conn_closing (map fst es) x' else conn_live peer policy mb es x' \<and> conn_pending x' = rest)"
    using a(1) by (fastforce simp: x)
next
  fix rd later x and s :: 's
  assume a: "conn_closing (rd # later) x"
  obtain dropped c sent where x: "x = (dropped, c, sent)" by (metis prod_cases3)
  let ?c = "c\<lparr>tc_last_activity := rd_instant rd\<rparr>"
  from handle_ready_writes[of "rd_readable rd" ?c service "rd_unix rd" "rd_reads rd" s ?c s "rd_writes rd"] a
  show "\<exists>x'. conn_event service rd (x, s) = Some (x', s) \<and> conn_output x' = conn_output x \<and> conn_closing later x'"
    by (cases dropped) (auto simp: x)
qed

lemma events_served:
  assumes "tc_state c = conn0" and "conn_buf conn0 = []" and "\<not> tc_close_after_flush c"
    and "\<forall>r \<in> set rs. plain_request (conn_max_body conn0) r" and "\<forall>r \<in> set (butlast rs). req_keep_alive r"
    and "map event_data rds = map Some ds" and "concat ds = concat (map render_request rs)"
    and "\<forall>rd \<in> set rds. writes_fine (rd_writes rd)"
  shows "\<exists>turns dropped c' s' bs sent.
    map fst turns = map rd_unix rds \<and> concat (map snd turns) = rs \<and>
    serve_turns service (conn_peer conn0) (conn_policy conn0) turns s = (bs, s') \<and>
    conn_events service rds c s = Some (dropped, c', s', sent) \<and> sent @ tc_out c' = tc_out c @ bs \<and>
    (if rs \<noteq> [] \<and> \<not> req_keep_alive (last rs) then tc_close_after_flush c' \<and> (dropped \<longrightarrow> tc_out c' = [])
     else \<not> tc_close_after_flush c' \<and> \<not> dropped \<and> conn_buf (tc_state c') = [])"
proof -
  let ?es = "zip rds ds" and ?mb = "conn_max_body conn0" and ?x = "(False, c, [])"
  have len: "length rds = length ds" using assms(6) by (rule map_eq_imp_length_eq)
  then have es: "map fst ?es = rds" "map snd ?es = ds" by simp_all
  have data: "event_data rd = Some d" if "(rd, d) \<in> set ?es" for rd d
    using that assms(6) by (auto simp: in_set_zip list_eq_iff_nth_eq)
  have live: "conn_live (conn_peer conn0) (conn_policy conn0) ?mb ?es ?x"
    using assms(1,3,8) data by (auto dest: set_zip_leftD)
  have start: "parse_with (conn_pending ?x) ?mb = Ok Partial" using assms(1,2) by (simp add: nothing_buffered)
  have stream: "conn_pending ?x @ concat (map snd ?es) = concat (map render_request rs)"
    using assms(1,2,7) es by simp
  from mio.stream_served[OF live start stream assms(4,5), of service s] obtain turns x' s' bs where
    t: "map fst turns = map (\<lambda>e. rd_unix (fst e)) ?es" "concat (map snd turns) = rs"
      "serve_turns service (conn_peer conn0) (conn_policy conn0) turns s = (bs, s')"
      "run_events (conn_event service) (map fst ?es) (?x, s) = Some (x', s')" "conn_output x' = conn_output ?x @ bs"
      "if rs \<noteq> [] \<and> \<not> req_keep_alive (last rs) then conn_closing [] x'
       else conn_live (conn_peer conn0) (conn_policy conn0) ?mb [] x' \<and> conn_pending x' = []"
    by blast
  have "map (\<lambda>e. rd_unix (fst e)) ?es = map rd_unix (map fst ?es)" by simp
  then have times: "map (\<lambda>e. rd_unix (fst e)) ?es = map rd_unix rds" by (simp only: es(1))
  from t(4) obtain dropped c' sent where
    "conn_events service rds c s = Some (dropped, c', s', sent)" "x' = (dropped, c', sent)"
    by (auto simp: es run_conn_events)
  with t times show ?thesis by (auto split: if_splits)
qed


definition arrival_event :: "nat \<Rightarrow> bytes \<Rightarrow> ready" where
  "arrival_event now d = \<lparr>rd_token = 1, rd_readable = True, rd_reads = [ReadInterrupted, ReadOk d, ReadWouldBlock],
     rd_writes = [WriteOk 3, WriteWouldBlock], rd_instant = now, rd_unix = now\<rparr>"


end
