(* ===== verification/Tls_Setup.thy ===== *)
theory Tls_Setup
  imports Startup Config_Theorems
begin

section \<open>Loading the certificate and the key\<close>

text \<open>
  \<open>crates/std-server/src/tls.rs\<close>. Opening a file and the crates rustls-pemfile and rustls are
  parameters: what reading the certificates or the first private key of a file gives, whether
  the provider takes the protocol versions, and the configuration the builder makes of a chain
  and a key. Errors of the system and of rustls are their texts.
\<close>

record ('certs, 'key, 'tls) tls_env =
  te_open :: "bytes \<Rightarrow> bytes + bytes"
  te_certs :: "bytes \<Rightarrow> bytes + 'certs"
  te_private_key :: "bytes \<Rightarrow> bytes + 'key option"
  te_versions_error :: "bytes option"
  te_single_cert :: "'certs \<Rightarrow> 'key \<Rightarrow> bytes + 'tls"

datatype tls_error = TlsIo bytes | NoPrivateKey | TlsRustls bytes

fun tls_error_text :: "tls_error \<Rightarrow> bytes" where
  "tls_error_text (TlsIo e) = ''tls io error: '' @ e"
| "tls_error_text NoPrivateKey = ''no private key found in key file''"
| "tls_error_text (TlsRustls e) = ''rustls error: '' @ e"

definition load_certs :: "('certs, 'key, 'tls) tls_env \<Rightarrow> bytes \<Rightarrow> tls_error + 'certs" where
  "load_certs env path =
     (case te_open env path of
        Inl e \<Rightarrow> Inl (TlsIo e)
      | Inr contents \<Rightarrow> (case te_certs env contents of Inl e \<Rightarrow> Inl (TlsIo e) | Inr certs \<Rightarrow> Inr certs))"

definition load_key :: "('certs, 'key, 'tls) tls_env \<Rightarrow> bytes \<Rightarrow> tls_error + 'key" where
  "load_key env path =
     (case te_open env path of
        Inl e \<Rightarrow> Inl (TlsIo e)
      | Inr contents \<Rightarrow>
          (case te_private_key env contents of
             Inl e \<Rightarrow> Inl (TlsIo e)
           | Inr None \<Rightarrow> Inl NoPrivateKey
           | Inr (Some key) \<Rightarrow> Inr key))"

definition server_config :: "('certs, 'key, 'tls) tls_env \<Rightarrow> bytes \<Rightarrow> bytes \<Rightarrow> tls_error + 'tls" where
  "server_config env cert_path key_path =
     (case load_certs env cert_path of
        Inl e \<Rightarrow> Inl e
      | Inr certs \<Rightarrow>
          (case load_key env key_path of
             Inl e \<Rightarrow> Inl e
           | Inr key \<Rightarrow>
               (case te_versions_error env of
                  Some e \<Rightarrow> Inl (TlsRustls e)
                | None \<Rightarrow> (case te_single_cert env certs key of Inl e \<Rightarrow> Inl (TlsRustls e) | Inr tls \<Rightarrow> Inr tls))))"

text \<open>What \<open>main\<close> sees of it.\<close>

definition with_tls :: "('certs, 'key, 'tls) tls_env \<Rightarrow> process_env \<Rightarrow> process_env" where
  "with_tls tls env = env\<lparr>pe_tls_error := \<lambda>c.
     case server_config tls (tls_cert_path c) (tls_key_path c) of Inl e \<Rightarrow> Some (tls_error_text e) | Inr _ \<Rightarrow> None\<rparr>"

subsection \<open>What \<open>main\<close> goes on with\<close>

lemma config_typed_default: "config_typed config_default"
  by (rule loaded_config_typed_aux[of "to_json_string config_default"])
     (simp add: from_json_str_def json_parse_config[OF config_default_ok(1)] from_json_config[OF config_default_ok(2)]
       validate_default)

lemma main_config_typed:
  assumes "server_main env ft = Serving c opts target tls" shows "config_typed c"
proof -
  from server_main_Serving(1)[OF assms] show ?thesis
    by (cases rule: load_config_cases) (auto intro: loaded_config_typed_aux simp: config_typed_default)
qed

lemma server_config_Inr:
  "server_config env cert_path key_path = Inr tls \<longleftrightarrow>
     (\<exists>cert_pem certs key_pem key. te_open env cert_path = Inr cert_pem \<and> te_certs env cert_pem = Inr certs \<and>
        te_open env key_path = Inr key_pem \<and> te_private_key env key_pem = Inr (Some key) \<and>
        te_versions_error env = None \<and> te_single_cert env certs key = Inr tls)"
  by (auto simp: server_config_def load_certs_def load_key_def split: sum.splits option.splits)


text \<open>A key file without a key in it: the process ends although the certificates are there.\<close>

definition tls_sample :: config where
  "tls_sample = config_default\<lparr>cfg_tls := \<lparr>tls_enabled = True, tls_cert_path = ''c.pem'', tls_key_path = ''k.pem''\<rparr>\<rparr>"

definition tls_sample_env :: process_env where
  "tls_sample_env = \<lparr>pe_arg = None, pe_is_file = (\<lambda>p. True), pe_read_to_string = (\<lambda>p. Inr (to_json_string tls_sample)),
     pe_addr_ok = (\<lambda>a. True), pe_signal_error = None, pe_tls_error = (\<lambda>c. None)\<rparr>"

definition keyless :: "(unit, unit, unit) tls_env" where
  "keyless = \<lparr>te_open = (\<lambda>p. Inr p), te_certs = (\<lambda>b. Inr ()), te_private_key = (\<lambda>b. Inr None),
     te_versions_error = None, te_single_cert = (\<lambda>certs key. Inr ())\<rparr>"


end
