(* ===== verification/Server_State.thy ===== *)
theory Server_State
  imports Service_Contract Server App_Theorems Admin_Theorems Tls_Setup
begin

section \<open>The state behind the server\<close>

text \<open>
  The contract of \<open>Service_Contract\<close> for the two services of the std profile: the app with its
  limiter, and the admin panel around it. What holds of the shared state after every request
  then holds in every run of a reactor, whatever the other reactors do in between.
\<close>

subsection \<open>The app\<close>

definition limiter_sound :: "app_state \<Rightarrow> bool" where
  "limiter_sound st \<longleftrightarrow> (\<forall>l. as_limiter st = Some l \<longrightarrow> limiter_ok l)"

lemma app_log_limiter [simp]: "as_limiter (app_log app request ctx status st) = as_limiter st"
  by (simp add: app_log_def)

text \<open>A call replaces the limiter by what \<open>check\<close> makes of it.\<close>

lemma app_handle_limiter:
  assumes "app_handle app st request ctx = (r, st')"
  shows "as_limiter st' = map_option (\<lambda>l. snd (check l (ctx_peer ctx) (ctx_now ctx))) (as_limiter st)"
  using assms
  by (auto simp: app_handle_def Let_def split: option.splits prod.splits decision.splits)

interpretation app_service: service_contract "app_handle app" limiter_sound for app
proof
  fix s request ctx r s' assume "limiter_sound s" "app_handle app s request ctx = (r, s')"
  then show "limiter_sound s'"
    by (auto simp: app_handle_limiter limiter_sound_def check_ok(1))
qed

subsection \<open>The panel\<close>

text \<open>\<open>main\<close> hands \<open>build_app\<close> to the panel; the rest of its environment is free.\<close>

definition std_env :: "filesystem \<Rightarrow> path \<Rightarrow> (bytes \<Rightarrow> bytes) option \<Rightarrow> web_env \<Rightarrow> web_env" where
  "std_env fs cwd deflate env = env\<lparr>we_build_app := build_app fs cwd deflate\<rparr>"

text \<open>
  The configuration in force is one that loads; the app that serves is the one built from it,
  and so is its limiter, whose table is sound. (The comment on \<open>AdminState\<close>: they are swapped
  together on reload so they never disagree.)
\<close>

definition panel_sound :: "filesystem \<Rightarrow> path \<Rightarrow> (bytes \<Rightarrow> bytes) option \<Rightarrow> web_admin \<Rightarrow> bool" where
  "panel_sound fs cwd deflate st \<longleftrightarrow> config_typed (wa_config st) \<and>
     wa_app st = fst (build_app fs cwd deflate (wa_config st)) \<and>
     limiter_sound (wa_app_state st) \<and>
     map_option rl_config (as_limiter (wa_app_state st)) =
       map_option rl_config (as_limiter (snd (build_app fs cwd deflate (wa_config st))))"

lemma build_app_limiter: "limiter_sound (snd (build_app fs cwd deflate c))"
  by (simp add: build_app_def Let_def limiter_sound_def limiter_ok_def rate_limiter_new_def tbl_ok_def tbl_len_def)

lemma build_app_admin [simp]: "build_app fs cwd deflate (c\<lparr>cfg_admin := a\<rparr>) = build_app fs cwd deflate c"
  by (simp add: build_app_def)

lemma panel_sound_rest [simp]:
  "panel_sound fs cwd deflate (st\<lparr>wa_stats := x\<rparr>) = panel_sound fs cwd deflate st"
  "panel_sound fs cwd deflate (st\<lparr>wa_file := y\<rparr>) = panel_sound fs cwd deflate st"
  by (simp_all add: panel_sound_def)

lemma panel_sound_swap:
  "config_typed c \<Longrightarrow> panel_sound fs cwd deflate (snd (put_swap (std_env fs cwd deflate env) c st))"
  using build_app_limiter[of fs cwd deflate c]
  by (simp add: put_swap_def std_env_def Let_def panel_sound_def limiter_sound_def)

lemma panel_sound_persist:
  "panel_sound fs cwd deflate st \<Longrightarrow> panel_sound fs cwd deflate (snd (put_persist env body st))"
  by (auto simp: put_persist_def split: sum.splits option.splits)

lemma put_persist_typed: "put_persist env body st = (Inr c, st') \<Longrightarrow> config_typed c"
  by (auto simp: put_persist_def split: sum.splits option.splits if_splits intro: loaded_config_typed_aux)

lemma panel_sound_put:
  "panel_sound fs cwd deflate st \<Longrightarrow>
     panel_sound fs cwd deflate (snd (put_config (std_env fs cwd deflate env) body st))"
  using panel_sound_persist[of fs cwd deflate st "std_env fs cwd deflate env" body]
  by (auto simp: put_config_def split: sum.splits prod.splits intro: panel_sound_swap dest: put_persist_typed)

lemma panel_sound_password:
  "panel_sound fs cwd deflate st \<Longrightarrow> panel_sound fs cwd deflate (snd (change_password env body st))"
  by (auto simp: change_password_def Let_def panel_sound_def config_typed_password sha256_hex_utf8 split: sum.splits option.splits)

lemma panel_sound_handle:
  assumes "web_handle (std_env fs cwd deflate env) st request ctx = (r, st')" and "panel_sound fs cwd deflate st"
  shows "panel_sound fs cwd deflate st'"
proof -
  let ?env = "std_env fs cwd deflate env"
  consider (app) "\<not> is_admin_path (req_path request)"
    | (refused) "is_admin_path (req_path request)" "\<not> authenticated st request"
    | (panel) "is_admin_path (req_path request)" "authenticated st request" by blast
  then show ?thesis
  proof cases
    case app
    with assms(1) obtain s where s: "app_handle (wa_app st) (wa_app_state st) request ctx = (r, s)"
      "st' = st\<lparr>wa_app_state := s, wa_stats := stats_record (resp_status r) (length (resp_body r)) (wa_stats st)\<rparr>"
      by (auto simp: web_handle_def split: prod.splits)
    have "limiter_sound s" using app_service.call_keeps[OF _ s(1)] assms(2) by (simp add: panel_sound_def)
    moreover have "map_option rl_config (as_limiter s) = map_option rl_config (as_limiter (wa_app_state st))"
      using assms(2) app_handle_limiter[OF s(1)]
      by (cases "as_limiter (wa_app_state st)") (simp_all add: panel_sound_def limiter_sound_def check_ok(2))
    ultimately show ?thesis using assms(2) s(2) by (simp add: panel_sound_def)
  next
    case refused
    with assms show ?thesis by (auto simp: web_handle_refused)
  next
    case panel
    obtain s where h: "handle_admin ?env request st = (r, s)"
      and s: "st' = s\<lparr>wa_stats := stats_record (resp_status r) (length (resp_body r)) (wa_stats s)\<rparr>"
      using web_handle_authorized[OF assms(1) panel(2,1)] .
    have "panel_sound fs cwd deflate s"
    proof (cases "s = st")
      case False
      from handle_admin_changes[OF h this] panel_sound_put[OF assms(2), of env "req_body request"]
        panel_sound_password[OF assms(2), of ?env "req_body request"]
      show ?thesis by auto
    qed (use assms in simp)
    with s show ?thesis by simp
  qed
qed

interpretation panel_service:
  service_contract "web_handle (std_env fs cwd deflate env)" "panel_sound fs cwd deflate" for fs cwd deflate env
  by unfold_locales (rule panel_sound_handle)

subsection \<open>The panel while several reactors serve\<close>

text \<open>
  What a thread does to the panel in one critical section or more: whole requests, the two
  sections of \<open>put_config\<close> on their own, and any of these one after the other.
\<close>

inductive panel_action ::
  "filesystem \<Rightarrow> path \<Rightarrow> (bytes \<Rightarrow> bytes) option \<Rightarrow> (web_admin \<Rightarrow> web_admin) \<Rightarrow> bool"
  for fs cwd deflate
where
  no_action: "panel_action fs cwd deflate (\<lambda>st. st)"
| whole_request: "panel_action fs cwd deflate f \<Longrightarrow>
    panel_action fs cwd deflate (\<lambda>st. snd (web_handle (std_env fs cwd deflate env) (f st) request ctx))"
| file_written: "panel_action fs cwd deflate f \<Longrightarrow> panel_action fs cwd deflate (\<lambda>st. snd (put_persist env body (f st)))"
| config_swapped: "panel_action fs cwd deflate f \<Longrightarrow> config_typed c \<Longrightarrow>
    panel_action fs cwd deflate (\<lambda>st. snd (put_swap (std_env fs cwd deflate env) c (f st)))"

lemma panel_action_keeps: "panel_action fs cwd deflate f \<Longrightarrow> panel_sound fs cwd deflate st \<Longrightarrow> panel_sound fs cwd deflate (f st)"
proof (induction rule: panel_action.induct)
  case (whole_request f env request ctx)
  then show ?case using panel_service.call_keeps[OF _ surjective_pairing] by blast
qed (simp_all add: panel_sound_persist panel_sound_swap)

lemma panel_sound_start:
  "config_typed c \<Longrightarrow> panel_sound fs cwd deflate (web_admin_new (std_env fs cwd deflate env) c contents)"
  by (simp add: panel_sound_def web_admin_new_def std_env_def build_app_limiter)


text \<open>A client arrives, and is then not waited for any more; another reactor reloads meanwhile.\<close>

definition arrival_turn :: turn where
  "arrival_turn = (stop_turn 7)\<lparr>tn_shutdown := False\<rparr>"

lemma std_env_panel_web: "std_env no_files [] None panel_web = panel_web"
  by (simp add: std_env_def panel_web_def)


end
