(* ===== verification/Serve.thy ===== *)
theory Serve
  imports Transport_Theorems Startup
begin

section \<open>The reactor threads and the end of the process\<close>

text \<open>
  \<open>serve\<close> of \<open>transport_mio.rs\<close> and the end of \<open>main\<close>: a reactor per worker on threads
  of one scope, their results joined in the order they were started. What the operating system
  decides is given per worker: an error of the setup (the poll, the listener, its
  registration), the turns of the loop with a text for the error of a poll, and the thread's
  view of the shared service. Before a thread has ended it is \<open>StillRunning\<close>.
\<close>

record worker =
  wk_setup_error :: "bytes option"
  wk_turns :: "turn list"
  wk_poll_error :: bytes

datatype thread_state = StillRunning | Returned "bytes option" | Panicked

definition reactor_thread :: "'s service \<Rightarrow> options \<Rightarrow> worker \<Rightarrow> 's \<Rightarrow> thread_state" where
  "reactor_thread service opts w s =
     (case wk_setup_error w of
        Some e \<Rightarrow> Returned (Some e)
      | None \<Rightarrow>
          (case run_reactor service opts (wk_turns w) (reactor_new, s) of
             None \<Rightarrow> Panicked
           | Some (Running, _) \<Rightarrow> StillRunning
           | Some (Finished, _) \<Rightarrow> Returned None
           | Some (PollFailed, _) \<Rightarrow> Returned (Some (wk_poll_error w))))"

datatype serve_result = NotReturned | ServeOk | ServeErr bytes | Unwound

text \<open>The closure of the scope waits for one handle after the other and leaves at the first failure.\<close>

fun join_handles :: "thread_state list \<Rightarrow> serve_result" where
  "join_handles [] = ServeOk"
| "join_handles (StillRunning # ts) = NotReturned"
| "join_handles (Returned None # ts) = join_handles ts"
| "join_handles (Returned (Some e) # ts) = ServeErr e"
| "join_handles (Panicked # ts) = ServeErr ''reactor thread panicked''"

text \<open>
  \<open>std::thread::scope\<close> returns when its closure has and every thread spawned in it has ended.
  A single reactor runs on the main thread, and its panic unwinds \<open>main\<close>.
\<close>

definition serve ::
  "nat \<Rightarrow> options \<Rightarrow> (nat \<Rightarrow> 's service) \<Rightarrow> (nat \<Rightarrow> worker) \<Rightarrow> (nat \<Rightarrow> 's) \<Rightarrow> serve_result" where
  "serve available opts services workers states =
     (let n = worker_count available (opt_worker_threads opts);
          threads = map (\<lambda>i. reactor_thread (services i) (per_worker n opts) (workers i) (states i)) [0..<max n 1]
      in if n \<le> 1 then
           (case hd threads of
              StillRunning \<Rightarrow> NotReturned
            | Returned None \<Rightarrow> ServeOk
            | Returned (Some e) \<Rightarrow> ServeErr e
            | Panicked \<Rightarrow> Unwound)
         else if StillRunning \<in> set threads then NotReturned
         else join_handles threads)"

text \<open>What \<open>main\<close> does with the result; a panic of the main thread ends the process with 101.\<close>

datatype process_end = RunsOn | ExitCode nat "bytes option"

fun main_end :: "serve_result \<Rightarrow> process_end" where
  "main_end NotReturned = RunsOn"
| "main_end ServeOk = ExitCode 0 (Some ''[ferro] graceful shutdown complete'')"
| "main_end (ServeErr e) = ExitCode 1 (Some (''[ferro] fatal: '' @ e))"
| "main_end Unwound = ExitCode 101 None"

datatype ip_addr = V4 bytes | V6 bytes

text \<open>An IPv4 address is mapped into IPv6, so that every peer has a key of 16 bytes.\<close>

fun ip_key :: "ip_addr \<Rightarrow> bytes" where
  "ip_key (V4 octets) = replicate 10 (CHR 0x00) @ [CHR 0xFF, CHR 0xFF] @ octets"
| "ip_key (V6 octets) = octets"

subsection \<open>Joining\<close>

lemma join_handles_iff:
  "StillRunning \<notin> set ts \<Longrightarrow> join_handles ts = ServeOk \<longleftrightarrow> (\<forall>t \<in> set ts. t = Returned None)"
  by (induction ts rule: join_handles.induct) auto

lemma join_handles_ends: "StillRunning \<notin> set ts \<Longrightarrow> join_handles ts \<noteq> NotReturned \<and> join_handles ts \<noteq> Unwound"
  by (induction ts rule: join_handles.induct) auto

lemma serve_not_returned:
  assumes "0 < available"
  shows "serve available opts services workers states = NotReturned \<longleftrightarrow>
    (\<exists>i < worker_count available (opt_worker_threads opts).
       reactor_thread (services i) (per_worker (worker_count available (opt_worker_threads opts)) opts) (workers i) (states i)
         = StillRunning)"
proof -
  define n where "n = worker_count available (opt_worker_threads opts)"
  define thread where "thread i = reactor_thread (services i) (per_worker n opts) (workers i) (states i)" for i
  have n: "n \<noteq> 0" using assms by (auto simp: n_def worker_count_def)
  have "serve available opts services workers states = NotReturned \<longleftrightarrow> (\<exists>i < n. thread i = StillRunning)"
  proof (cases "n = 1")
    case True
    then show ?thesis
      by (auto simp: serve_def Let_def thread_def simp flip: n_def split: thread_state.splits option.splits)
  next
    case False
    with n have "serve available opts services workers states =
        (if StillRunning \<in> set (map thread [0..<n]) then NotReturned else join_handles (map thread [0..<n]))"
      by (auto simp: serve_def Let_def thread_def[abs_def] max_def simp flip: n_def)
    moreover have "StillRunning \<in> set (map thread [0..<n]) \<longleftrightarrow> (\<exists>i < n. thread i = StillRunning)"
      by (auto simp: image_iff intro: sym)
    ultimately show ?thesis using join_handles_ends[of "map thread [0..<n]"] by auto
  qed
  then show ?thesis by (simp add: thread_def n_def)
qed

lemma serve_ok:
  assumes "0 < available"
    and "\<forall>i < worker_count available (opt_worker_threads opts).
      reactor_thread (services i) (per_worker (worker_count available (opt_worker_threads opts)) opts) (workers i) (states i)
        = Returned None"
  shows "serve available opts services workers states = ServeOk"
proof -
  define n where "n = worker_count available (opt_worker_threads opts)"
  let ?ts = "map (\<lambda>i. reactor_thread (services i) (per_worker n opts) (workers i) (states i)) [0..<n]"
  have n: "n \<noteq> 0" using assms(1) by (auto simp: n_def worker_count_def)
  have all: "\<forall>t \<in> set ?ts. t = Returned None" using assms(2) by (simp add: n_def)
  show ?thesis
  proof (cases "n = 1")
    case True
    then show ?thesis using assms(2) by (simp add: serve_def Let_def flip: n_def)
  next
    case False
    have "StillRunning \<notin> set ?ts" using all by auto
    with False n all join_handles_iff[OF this] show ?thesis
      by (auto simp: serve_def Let_def max_def simp flip: n_def)
  qed
qed

subsection \<open>Shutting down\<close>

text \<open>A reactor whose polls succeed and that sees the flag has finished five seconds later.\<close>

lemma drain_polls_ok:
  "drain_loop service opts deadline turns x = Some (status, y) \<Longrightarrow> \<forall>tn \<in> set turns. tn_poll_ok tn \<Longrightarrow> status \<noteq> PollFailed"
  by (induction turns arbitrary: x) (auto split: if_splits option.splits)

lemma reactor_shuts_down:
  assumes "run_reactor service opts (before @ tn # later) x = Some (status, y)" and "tn_shutdown tn"
    and "\<forall>tn \<in> set (before @ tn # later). tn_poll_ok tn"
    and "\<exists>t \<in> set later. \<forall>tn' \<in> set (before @ [tn]). tn_start tn' + 5 \<le> tn_start t"
  shows "status = Finished"
  using assms
proof (induction before arbitrary: x)
  case Nil
  then have "status \<noteq> Running" using shutdown_ends[of service opts tn later x status y] by auto
  moreover have "status \<noteq> PollFailed"
    using Nil drain_polls_ok[of service opts "tn_start tn + SHUTDOWN_GRACE" "tn # later" x status y] by simp
  ultimately show ?case by (cases status) auto
next
  case (Cons t before)
  show ?case
  proof (cases "tn_shutdown t")
    case True
    with Cons.prems have d: "drain_loop service opts (tn_start t + SHUTDOWN_GRACE) (t # before @ tn # later) x = Some (status, y)"
      by simp
    have "status \<noteq> PollFailed" by (rule drain_polls_ok[OF d]) (use Cons.prems(3) in simp)
    moreover have "status \<noteq> Running"
      using drain_loop_ends[OF d] Cons.prems(4) by (auto simp: SHUTDOWN_GRACE_def)
    ultimately show ?thesis by (cases status) auto
  next
    case False
    with Cons.prems obtain z where "run_reactor service opts (before @ tn # later) z = Some (status, y)"
      by (auto split: option.splits)
    from Cons.IH[OF this] Cons.prems show ?thesis by auto
  qed
qed

text \<open>C38: a signal shuts the process down in good order. If in every worker the setup and all polls
  succeed, some turn sees the flag, and a turn begins at least five seconds after it and all
  turns before, then, unless a request makes the parser panic, \<open>serve\<close> returns without an
  error and the process exits with 0, however many workers there are and whatever the clients
  do.\<close>

theorem graceful_shutdown:
  assumes "0 < available" and "n = worker_count available (opt_worker_threads opts)"
    and "\<forall>i < n. wk_setup_error (workers i) = None \<and> (\<forall>tn \<in> set (wk_turns (workers i)). tn_poll_ok tn)"
    and "\<forall>i < n. \<exists>before tn later. wk_turns (workers i) = before @ tn # later \<and> tn_shutdown tn \<and>
       (\<exists>t \<in> set later. \<forall>tn' \<in> set (before @ [tn]). tn_start tn' + 5 \<le> tn_start t)"
    and "\<forall>i < n. reactor_thread (services i) (per_worker n opts) (workers i) (states i) \<noteq> Panicked"
  shows "main_end (serve available opts services workers states) = ExitCode 0 (Some ''[ferro] graceful shutdown complete'')"
proof -
  have "reactor_thread (services i) (per_worker n opts) (workers i) (states i) = Returned None" if i: "i < n" for i
  proof -
    let ?run = "run_reactor (services i) (per_worker n opts) (wk_turns (workers i)) (reactor_new, states i)"
    from assms(3,5) i obtain status y where run: "?run = Some (status, y)"
      by (cases ?run) (auto simp: reactor_thread_def)
    from assms(4) i obtain before tn later where w: "wk_turns (workers i) = before @ tn # later" "tn_shutdown tn"
      "\<exists>t \<in> set later. \<forall>tn' \<in> set (before @ [tn]). tn_start tn' + 5 \<le> tn_start t" by blast
    have "\<forall>tn \<in> set (before @ tn # later). tn_poll_ok tn" using assms(3) i w(1) by (metis (no_types))
    from reactor_shuts_down[OF run[unfolded w(1)] w(2) this w(3)] show ?thesis
      using assms(3) i run by (cases y) (auto simp: reactor_thread_def)
  qed
  then have "serve available opts services workers states = ServeOk" by (intro serve_ok assms(1)) (simp add: assms(2))
  then show ?thesis by simp
qed

definition stopping_worker :: worker where
  "stopping_worker = \<lparr>wk_setup_error = None, wk_turns = [stop_turn 7, stop_turn 12], wk_poll_error = []\<rparr>"

theorem graceful_shutdown_witness:
  "main_end (serve 4 (one_worker\<lparr>opt_worker_threads := 3\<rparr>) (\<lambda>i. echo_service) (\<lambda>i. stopping_worker) (\<lambda>i. ())) =
     ExitCode 0 (Some ''[ferro] graceful shutdown complete'')"
proof (rule graceful_shutdown[OF _ refl])
  show "\<forall>i < worker_count 4 (opt_worker_threads (one_worker\<lparr>opt_worker_threads := 3\<rparr>)). \<exists>before tn later.
      wk_turns stopping_worker = before @ tn # later \<and> tn_shutdown tn \<and>
      (\<exists>t \<in> set later. \<forall>tn' \<in> set (before @ [tn]). tn_start tn' + 5 \<le> tn_start t)"
    by (intro allI impI exI[of _ "[]"] exI[of _ "stop_turn 7"] exI[of _ "[stop_turn 12]"])
      (simp add: stopping_worker_def stop_turn_def)
  show "\<forall>i < worker_count 4 (opt_worker_threads (one_worker\<lparr>opt_worker_threads := 3\<rparr>)).
      reactor_thread echo_service (per_worker (worker_count 4 (opt_worker_threads (one_worker\<lparr>opt_worker_threads := 3\<rparr>)))
        (one_worker\<lparr>opt_worker_threads := 3\<rparr>)) stopping_worker () \<noteq> Panicked"
    by (simp add: reactor_thread_def stopping_worker_def stop_turn_def reactor_new_def)
qed (simp_all add: stopping_worker_def stop_turn_def)

subsection \<open>When a reactor fails\<close>

text \<open>
  With several workers the failure of one is not reported as long as another one runs: the
  scope waits for every thread. (The comment on \<open>serve\<close>: never returns except on a fatal error
  from a reactor.)
\<close>

theorem failed_reactor_unnoticed:
  assumes "0 < available" and "n = worker_count available (opt_worker_threads opts)" and "i < n" "j < n"
    and "wk_setup_error (workers i) = Some e"
    and "reactor_thread (services j) (per_worker n opts) (workers j) (states j) = StillRunning"
  shows "reactor_thread (services i) (per_worker n opts) (workers i) (states i) = Returned (Some e) \<and>
    main_end (serve available opts services workers states) = RunsOn"
  using assms serve_not_returned[of available opts services workers states] by (auto simp: reactor_thread_def)

theorem failed_reactor_unnoticed_witness:
  "main_end (serve 2 (one_worker\<lparr>opt_worker_threads := 2\<rparr>) (\<lambda>i. echo_service)
     (\<lambda>i. stopping_worker\<lparr>wk_setup_error := if i = 0 then Some ''address in use'' else None, wk_turns := []\<rparr>) (\<lambda>i. ()))
   = RunsOn"
proof -
  have "reactor_thread echo_service (per_worker 2 (one_worker\<lparr>opt_worker_threads := 2\<rparr>))
      (stopping_worker\<lparr>wk_setup_error := None, wk_turns := []\<rparr>) () = StillRunning"
    by (simp add: reactor_thread_def)
  then show ?thesis
    using failed_reactor_unnoticed[where available = 2 and opts = "one_worker\<lparr>opt_worker_threads := 2\<rparr>" and i = 0 and j = 1
        and services = "\<lambda>i. echo_service" and states = "\<lambda>i. ()" and e = "''address in use''" and n = 2
        and workers = "\<lambda>i. stopping_worker\<lparr>wk_setup_error := if i = 0 then Some ''address in use'' else None, wk_turns := []\<rparr>"]
    by (simp add: worker_count_def)
qed

text \<open>
  An interrupted poll is an error of the loop. (mio does not retry, and a wait for events is
  interrupted by a signal also when its handler only sets the flag.) The turn is left before
  the flag is read again, and the connections with what is pending on them are dropped: there
  is no drain, and with one worker the process ends with the error.
\<close>

theorem interrupted_poll_skips_drain:
  assumes "worker_count available (opt_worker_threads opts) = 1" and "wk_setup_error (workers 0) = None"
    and "wk_turns (workers 0) = before @ tn # later" and "\<not> tn_shutdown tn" "\<not> tn_poll_ok tn"
    and "run_reactor (services 0) (per_worker 1 opts) before (reactor_new, states 0) = Some (Running, x)"
    and "\<forall>t \<in> set before. \<not> tn_shutdown t"
  shows "run_reactor (services 0) (per_worker 1 opts) (wk_turns (workers 0)) (reactor_new, states 0) = Some (PollFailed, x) \<and>
    main_end (serve available opts services workers states) = ExitCode 1 (Some (''[ferro] fatal: '' @ wk_poll_error (workers 0)))"
proof -
  have "run_reactor service o' (bs @ tn # later) y = Some (PollFailed, x)"
    if "run_reactor service o' bs y = Some (Running, x)" "\<forall>t \<in> set bs. \<not> tn_shutdown t" for service o' bs y
    using that
  proof (induction bs arbitrary: y)
    case Nil
    then show ?case using assms(4,5) by simp
  next
    case (Cons t bs)
    then show ?case by (auto split: if_splits option.splits)
  qed
  from this[OF assms(6,7)] have r: "run_reactor (services 0) (per_worker 1 opts) (wk_turns (workers 0)) (reactor_new, states 0)
      = Some (PollFailed, x)" by (simp add: assms(3))
  then show ?thesis using assms(1,2) by (cases x) (simp add: serve_def Let_def reactor_thread_def)
qed

end
