(* ===== verification/Embedded_Server.thy ===== *)
theory Embedded_Server
  imports Service_Contract Server App Config_Theorems
begin

section \<open>The firmware\<close>

text \<open>
  The loop of \<open>serve_smoltcp\<close> (\<open>crates/embedded/src/lib.rs\<close>) over all server sockets, and
  the program of \<open>crates/embedded-server/src/main.rs\<close>: the configuration and the document
  root in its image, its router and its loop over one socket. The network interface, the
  sockets and the heap belong to other crates; what a socket answers in a pass is a
  \<open>socket_io\<close> as in \<open>Embedded\<close>.
\<close>

subsection \<open>The poll loop\<close>

fun serve_pass ::
  "'s service \<Rightarrow> nat \<Rightarrow> (socket_io \<times> conn_state) list \<Rightarrow> 's \<Rightarrow> ((conn_state \<times> socket_call list) list \<times> 's) option" where
  "serve_pass service now [] s = Some ([], s)"
| "serve_pass service now ((io, st) # sockets) s =
     (case serve_socket service now io st s of
        None \<Rightarrow> None
      | Some (st, calls, s) \<Rightarrow>
          (case serve_pass service now sockets s of
             None \<Rightarrow> None
           | Some (ys, s) \<Rightarrow> Some ((st, calls) # ys, s)))"

text \<open>
  The loop does not end; what it has done after a number of passes, each with the time of the
  clock and what the sockets answer, is the state and the calls of every socket.
\<close>

fun serve_smoltcp ::
  "'s service \<Rightarrow> (nat \<times> socket_io list) list \<Rightarrow> conn_state list \<Rightarrow> 's \<Rightarrow>
     ((conn_state \<times> socket_call list) list \<times> 's) option" where
  "serve_smoltcp service [] states s = Some (map (\<lambda>st. (st, [])) states, s)"
| "serve_smoltcp service ((now, ios) # passes) states s =
     (case serve_pass service now (zip ios states) s of
        None \<Rightarrow> None
      | Some (ys, s) \<Rightarrow>
          (case serve_smoltcp service passes (map fst ys) s of
             None \<Rightarrow> None
           | Some (zs, s) \<Rightarrow> Some (map2 (\<lambda>(_, done) (st, calls). (st, done @ calls)) ys zs, s)))"

subsection \<open>The program\<close>

definition HEAP_SIZE :: nat where "HEAP_SIZE = 32 * 1024"

definition CONFIG :: bytes where
  \<open>CONFIG = ''{'' @ [LF] @ ''  "server": { "port": 80 },'' @ [LF]
     @ ''  "static": { "index_files": ["index.html"] }'' @ [LF] @ ''}'' @ [LF]\<close>

definition boot_config :: "bytes \<Rightarrow> config" where
  "boot_config text = (case from_json_str text of Inr c \<Rightarrow> c | Inl _ \<Rightarrow> config_default)"

definition firmware_health :: handler where
  \<open>firmware_health request ps = resp_json OK ''{"status":"ok"}''\<close>

text \<open>\<open>html\<close> is the file \<open>assets/index.html\<close> of the image.\<close>

definition firmware_app :: "bytes \<Rightarrow> config \<Rightarrow> static_router" where
  "firmware_app html c =
     \<lparr>sr_router = router_route Get ''/api/health'' firmware_health [],
      sr_load = embedded_load [(''index.html'', html)],
      sr_index_files = st_index_files (cfg_static c), sr_mime_overrides = cfg_mime_overrides c\<rparr>"

definition static_service :: "static_router \<Rightarrow> unit service" where
  "static_service app s request ctx = (static_router_handle app request, s)"

text \<open>The tick counts from one and wraps; it is the clock of every pass.\<close>

definition firmware_passes :: "socket_io list \<Rightarrow> (nat \<times> socket_io list) list" where
  "firmware_passes ios = map (\<lambda>(tick, io). (wrap64 tick, [io])) (enumerate 1 ios)"

definition firmware_main :: "bytes \<Rightarrow> socket_io list \<Rightarrow> ((conn_state \<times> socket_call list) list \<times> unit) option" where
  "firmware_main html ios =
     serve_smoltcp (static_service (firmware_app html (boot_config CONFIG))) (firmware_passes ios)
       [state_with_clock False] ()"

text \<open>The configuration in the image loads: the fallback to the defaults is not taken.\<close>

lemma config_port:
  "parse_value d (''80'' @ CHR '' '' # rest) = Inr (JNumber (round_f64 False 80 1), CHR '' '' # rest)"
  using parse_f64_show[of 80]
  by (simp add: parse_value.simps parse_number_def consume_digits_def is_ascii_digit_def exec_simps)

lemma config_keys:
  "quote ''port'' = DQUOTE # ''port'' @ [DQUOTE]" "quote ''server'' = DQUOTE # ''server'' @ [DQUOTE]"
  "quote ''static'' = DQUOTE # ''static'' @ [DQUOTE]" "quote ''index_files'' = DQUOTE # ''index_files'' @ [DQUOTE]"
  "quote ''index.html'' = DQUOTE # ''index.html'' @ [DQUOTE]"
  by code_simp+

lemma members_quoted:
  assumes "utf8_valid k" and "blank w" and "parse_value (d + 1) (skip_ws v) = Inr (x, r)"
  shows "parse_members d (w @ quote k @ CHR '':'' # v) ms =
     (case skip_ws r of
        [] \<Rightarrow> fail UnexpectedEnd []
      | c # r \<Rightarrow> if c = CHR '','' then parse_members d r (ms @ [(k, x)])
                 else if c = CHR ''}'' then Inr (JObject (ms @ [(k, x)]), r) else fail UnexpectedByte (c # r))"
proof -
  have "skip_ws (w @ quote k @ CHR '':'' # v) = quote k @ CHR '':'' # v" "peek_is DQUOTE (quote k @ CHR '':'' # v)"
    using assms(2) by (simp_all add: quote_def)
  with assms(3) parse_string_quote[OF assms(1), of "CHR '':'' # v"] show ?thesis
    by (simp add: parse_members.simps[of d "w @ quote k @ CHR '':'' # v"] split: list.split)
qed

lemma object_quoted:
  "d < MAX_DEPTH \<Longrightarrow> blank w \<Longrightarrow> parse_value d (CHR ''{'' # w @ quote k @ v) = parse_members d (w @ quote k @ v) []"
  using parse_members_skip_ws[of d "quote k @ v" "[]"] parse_members_skip_ws[of d "w @ quote k @ v" "[]"]
  by (subst parse_value.simps) (simp add: Let_def quote_def)

lemma config_value_parsed:
  "json_parse CONFIG = Inr (JObject [(''server'', JObject [(''port'', JNumber (round_f64 False 80 1))]),
     (''static'', JObject [(''index_files'', JArray [JString ''index.html''])])])"
proof -
  let ?files = "array_text [quote ''index.html'']"
  have array_skip: "skip_ws (array_text ts @ r) = array_text ts @ r" for ts r by (simp add: array_text_def)
  let ?static = "CHR ''{'' # '' '' @ quote ''index_files'' @ CHR '':'' # CHR '' '' # ?files @ '' }'' @ LF # ''}'' @ [LF]"
  let ?server = "CHR ''{'' # '' '' @ quote ''port'' @ CHR '':'' # CHR '' '' # ''80'' @ CHR '' '' # ''},'' @ LF #
      ''  '' @ quote ''static'' @ CHR '':'' # CHR '' '' # ?static"
  have c: "CONFIG = CHR ''{'' # (LF # ''  '') @ quote ''server'' @ CHR '':'' # CHR '' '' # ?server"
    unfolding config_keys CONFIG_def array_text_def by (simp add: join_Cons)
  have a: "parse_value 2 (?files @ CHR '' '' # r) = Inr (JArray [JString ''index.html''], CHR '' '' # r)" for r
  proof -
    have "utf8_valid ''index.html''" by simp
    note q = reads_quote[OF this]
    have "parse_elements 2 ([] @ join '', '' [quote ''index.html''] @ CHR '']'' # CHR '' '' # r) []
        = Inr (JArray ([] @ [JString ''index.html'']), CHR '' '' # r)"
      by (rule parse_elements_join) (use q in simp_all)
    then show ?thesis
      by (subst parse_value.simps) (simp add: array_text_def Let_def MAX_DEPTH_def quote_def join_Cons)
  qed
  have st: "parse_value 1 ?static = Inr (JObject [(''index_files'', JArray [JString ''index.html''])], LF # ''}'' @ [LF])"
    using members_quoted[of "''index_files''" "'' ''" 1 "CHR '' '' # ?files @ '' }'' @ LF # ''}'' @ [LF]" _ _ "[]"]
      object_quoted[of 1 "'' ''" "''index_files''" "CHR '':'' # CHR '' '' # ?files @ '' }'' @ LF # ''}'' @ [LF]"] a
    by (simp add: MAX_DEPTH_def array_skip numeral_2_eq_2)
  let ?port = "CHR '' '' # ''80'' @ CHR '' '' # ''},''"
  have sv: "parse_value 1 (CHR ''{'' # '' '' @ quote ''port'' @ CHR '':'' # ?port @ r) =
      Inr (JObject [(''port'', JNumber (round_f64 False 80 1))], '','' @ r)" for r
    using members_quoted[of "''port''" "'' ''" 1 "?port @ r" _ _ "[]"]
      object_quoted[of 1 "'' ''" "''port''" "CHR '':'' # ?port @ r"] config_port[of 2 "''},'' @ r"]
    by (simp add: MAX_DEPTH_def numeral_2_eq_2 is_ws_def)
  show ?thesis
    using members_quoted[of "''server''" "LF # ''  ''" 0 "CHR '' '' # ?server" _ _ "[]"]
      members_quoted[of "''static''" "LF # ''  ''" 0 "CHR '' '' # ?static"]
      object_quoted[of 0 "LF # ''  ''" "''server''" "CHR '':'' # CHR '' '' # ?server"] st
      sv[of "LF # ''  '' @ quote ''static'' @ CHR '':'' # CHR '' '' # ?static"]
    by (simp add: MAX_DEPTH_def json_parse_def c)
qed

text \<open>The configuration in the image loads, so the fallback to the defaults is not taken.\<close>

lemma boot_config_loads:
  "from_json_str CONFIG = Inr (config_default\<lparr>cfg_server := server_default\<lparr>srv_port := 80\<rparr>,
     cfg_static := static_default\<lparr>st_index_files := [''index.html'']\<rparr>\<rparr>)"
  using as_u64_num[of 80]
  by (simp add: from_json_str_def config_value_parsed from_json_def read_section_def read_server_def read_static_def
      read_string_def read_u16_def read_usize_def read_u64_def read_bool_def read_string_array_def num_def
      or_wrong_type_def default_defs validate_def LOG_LEVELS_def U16_MAX_def)

subsection \<open>One socket does not touch another\<close>

text \<open>A service without a state, run over several sockets, does with each what it does alone.\<close>

definition stateless :: "'s service \<Rightarrow> bool" where
  "stateless service \<longleftrightarrow> (\<forall>s request ctx. snd (service s request ctx) = s)"

lemma stateless_contract: "stateless service \<Longrightarrow> service_contract service (\<lambda>s. s = s0)"
  by unfold_locales (auto simp: stateless_def dest: arg_cong[of _ _ snd])

lemma serve_socket_stateless:
  "stateless service \<Longrightarrow> serve_socket service now io st s = Some (st', calls, s') \<Longrightarrow> s' = s"
  using service_contract.serve_socket_keeps[OF stateless_contract[of service s]] by blast

lemma serve_pass_each:
  assumes "stateless service" and "serve_pass service now sockets s = Some (ys, s')"
  shows "s' = s \<and> list_all2 (\<lambda>(io, st) (st', calls). serve_socket service now io st s = Some (st', calls, s)) sockets ys"
  using assms(2)
proof (induction sockets arbitrary: ys s)
  case (Cons x sockets)
  obtain io st where x: "x = (io, st)" by fastforce
  with Cons.prems obtain st' calls s1 ys' where y: "serve_socket service now io st s = Some (st', calls, s1)"
    "serve_pass service now sockets s1 = Some (ys', s')" "ys = (st', calls) # ys'"
    by (auto split: option.splits prod.splits)
  moreover have "s1 = s" by (rule serve_socket_stateless[OF assms(1) y(1)])
  ultimately show ?case using Cons.IH[of s1 ys'] x by simp
qed simp

text \<open>C36: the sockets of the embedded server are independent. Over any number of polls, what the
  server does on one socket (the calls it makes on it, in order, and the state it keeps for it)
  is what it would do if this were its only socket: no error, abort, stall or request on another
  one changes it. The service keeps no state of its own, as the one of the firmware.\<close>

theorem sockets_independent:
  assumes "\<forall>s request ctx. snd (service s request ctx) = s"
    and "\<forall>(now, ios) \<in> set passes. length ios = length states" and "i < length states"
    and "serve_smoltcp service passes states s = Some (ys, s')"
  shows "s' = s \<and> length ys = length states \<and>
    serve_smoltcp service (map (\<lambda>(now, ios). (now, [ios ! i])) passes) [states ! i] s = Some ([ys ! i], s)"
  using assms(2-)
proof (induction passes arbitrary: states s ys)
  case (Cons p passes)
  obtain now ios where p: "p = (now, ios)" by fastforce
  with Cons.prems obtain xs s1 zs where x: "serve_pass service now (zip ios states) s = Some (xs, s1)"
    "serve_smoltcp service passes (map fst xs) s1 = Some (zs, s')"
    "ys = map2 (\<lambda>(_, done) (st, calls). (st, done @ calls)) xs zs"
    by (auto split: option.splits prod.splits)
  have l: "length ios = length states" using Cons.prems(1) p by simp
  from serve_pass_each[OF _ x(1)] assms(1) have e: "s1 = s" "list_all2 (\<lambda>(io, st) (st', calls).
      serve_socket service now io st s = Some (st', calls, s)) (zip ios states) xs"
    by (auto simp: stateless_def)
  have lx: "length xs = length states" using list_all2_lengthD[OF e(2)] l by simp
  have i: "serve_socket service now (ios ! i) (states ! i) s = Some (fst (xs ! i), snd (xs ! i), s)"
    using list_all2_nthD[OF e(2), of i] Cons.prems(2) l by (auto split: prod.splits)
  from Cons.IH[of "map fst xs" s1 zs] Cons.prems lx x(2) e(1) l have ih: "s' = s" "length zs = length states"
    "serve_smoltcp service (map (\<lambda>(now, ios). (now, [ios ! i])) passes) [map fst xs ! i] s = Some ([zs ! i], s)"
    by auto
  with i Cons.prems(2) lx show ?case
    by (simp add: p x(3) split: prod.splits)
qed simp

definition failing_io :: socket_io where
  "failing_io = quiet_io\<lparr>io_recv := RecvFails\<rparr>"

definition closed_io :: socket_io where
  "closed_io = quiet_io\<lparr>io_open := False\<rparr>"

theorem sockets_independent_witness:
  "serve_smoltcp (static_service (firmware_app ''hello'' config_default)) [(1, [closed_io]), (2, [closed_io])] [state_new] () =
     Some ([(state_reset (state_reset state_new), [Listened, Listened])], ())"
proof -
  let ?s = "static_service (firmware_app ''hello'' config_default)"
  have "serve_smoltcp ?s [(1, [failing_io, closed_io]), (2, [failing_io, closed_io])] [state_new, state_new] () =
      Some ([(state_reset (state_reset state_new), [Aborted, Aborted]), (state_reset (state_reset state_new), [Listened, Listened])], ())"
    by (simp add: serve_socket_def pump_connection_def failing_io_def closed_io_def quiet_io_def)
  from sockets_independent[OF _ _ _ this, of 1] show ?thesis
    by (simp add: static_service_def)
qed

subsection \<open>No clock, no date\<close>

lemma date_header_with [simp]:
  "\<not> eq_ignore_ascii_case n ''date'' \<Longrightarrow> resp_header (with_header r n v) ''date'' = resp_header r ''date''"
  by (simp add: resp_header_with split: option.split)

lemma date_names [simp]:
  "\<not> eq_ignore_ascii_case ''Connection'' ''date''" "\<not> eq_ignore_ascii_case ''Content-Type'' ''date''"
  "\<not> eq_ignore_ascii_case ''X-Content-Type-Options'' ''date''" "\<not> eq_ignore_ascii_case ''X-Frame-Options'' ''date''"
  "\<not> eq_ignore_ascii_case ''Referrer-Policy'' ''date''" "\<not> eq_ignore_ascii_case ''Accept-Ranges'' ''date''"
  "\<not> eq_ignore_ascii_case ''Content-Range'' ''date''" "\<not> eq_ignore_ascii_case ''ETag'' ''date''"
  "\<not> eq_ignore_ascii_case ''Last-Modified'' ''date''" "\<not> eq_ignore_ascii_case ''Cache-Control'' ''date''"
  "\<not> eq_ignore_ascii_case ''Vary'' ''date''"
  by (simp_all add: eq_ignore_eval)

lemma date_text_json [simp]:
  "resp_header (resp_text status b) ''date'' = None" "resp_header (resp_json status b) ''date'' = None"
  using date_names(2) by (simp_all add: resp_text_def resp_json_def resp_header_def)

lemma date_keep_header [simp]:
  "\<not> eq_ignore_ascii_case n ''date'' \<Longrightarrow> resp_header (keep_header from to n) ''date'' = resp_header to ''date''"
  by (simp add: keep_header_def split: option.split)

lemma date_finalize:
  "\<not> pol_has_clock policy \<Longrightarrow> resp_header (finalize r now keep_alive policy) ''date'' = resp_header r ''date''"
  by (simp add: finalize_def Let_def apply_security_headers_def)

lemma date_evaluate: "resp_header r ''date'' = None \<Longrightarrow> resp_header (evaluate request r) ''date'' = None"
  by (simp add: evaluate_def to_not_modified_def apply_range_def Let_def
      split: option.split range_outcome.split)

lemma date_file: "resp_header (file_response name a ov) ''date'' = None"
  by (simp add: file_response_def Let_def split: option.split)

lemma date_static: "serve_static path index_files load ov = Some r \<Longrightarrow> resp_header r ''date'' = None"
proof -
  have "first_asset load ov cs = Some r \<Longrightarrow> resp_header r ''date'' = None" for cs
    by (induction cs) (auto simp: date_file split: option.splits)
  then show "serve_static path index_files load ov = Some r \<Longrightarrow> resp_header r ''date'' = None"
    by (auto simp: serve_static_def split: option.splits)
qed

lemma date_firmware: "resp_header (static_router_handle (firmware_app html c) request) ''date'' = None"
  by (auto simp: static_router_handle_def firmware_app_def router_route_def dispatch_def firmware_health_def
      split: option.split dest: date_static intro: date_evaluate)

definition clockless :: "conn_state \<Rightarrow> bool" where
  "clockless st \<longleftrightarrow> \<not> es_has_clock st \<and> \<not> pol_has_clock (conn_policy (es_conn st))"

lemma clockless_reset: "\<not> es_has_clock st \<Longrightarrow> clockless (state_reset st)"
  by (simp add: clockless_def state_reset_def set_clock_def)

lemma clockless_start: "clockless (state_with_clock False)"
  by (simp add: clockless_def state_with_clock_def set_clock_def)

lemma flush_clockless: "pump_flush send st = (r, st', calls) \<Longrightarrow> clockless st' \<longleftrightarrow> clockless st"
  using pump_flush_spec(2,6)[of send st r st' calls] by (simp add: clockless_def)

lemma pump_clockless:
  assumes "pump_connection service now io st s = Some (r, st', calls, s')" and "clockless st"
  shows "clockless st'"
proof -
  have d: "clockless (st\<lparr>es_conn := c', es_out := out', es_close := b\<rparr>)"
    if "drive service now c s out = Some (out', closed, c', s')" "conn_policy c = conn_policy (es_conn st)" for c out out' closed c' s' b
    using drive_config[OF that(1)] that(2) assms(2) by (simp add: clockless_def)
  have "\<not> es_has_clock st" using assms(2) by (simp add: clockless_def)
  with assms clockless_reset[of st] show ?thesis
    by (auto simp: pump_connection_def feed_def dest!: flush_clockless dest: d
        split: if_splits recv_outcome.splits option.splits prod.splits)
qed

lemma serve_socket_clockless:
  assumes "serve_socket service now io st s = Some (st', calls, s')" and "clockless st"
  shows "clockless st'"
proof -
  from assms(1) obtain r st1 calls1 s1 where p: "pump_connection service now io st s = Some (r, st1, calls1, s1)"
    and r: "st' = st1 \<or> st' = state_reset st1"
    by (auto simp: serve_socket_def split: option.splits sum.splits)
  from pump_clockless[OF p assms(2)] r show ?thesis using clockless_reset[of st1] by (auto simp: clockless_def)
qed

lemma serve_smoltcp_clockless:
  "serve_smoltcp service passes [st] s = Some (ys, s') \<Longrightarrow> clockless st \<Longrightarrow> \<forall>(now, ios) \<in> set passes. length ios = 1 \<Longrightarrow>
     \<forall>(st', calls) \<in> set ys. clockless st'"
proof (induction passes arbitrary: st s ys)
  case (Cons p passes)
  then obtain now io where p: "p = (now, [io])" by (cases p) (auto simp: length_Suc_conv)
  with Cons.prems obtain st1 calls s1 zs where "serve_socket service now io st s = Some (st1, calls, s1)"
    "serve_smoltcp service passes [st1] s1 = Some (zs, s')" "ys = map2 (\<lambda>(_, done) (st, calls). (st, done @ calls)) [(st1, calls)] zs"
    by (auto split: option.splits prod.splits)
  moreover have "\<forall>(st', calls) \<in> set zs. clockless st'"
    using Cons.IH[OF calculation(2)] serve_socket_clockless[OF calculation(1)] Cons.prems by auto
  ultimately show ?case by (auto split: prod.splits dest: set_zip_rightD)
qed auto

definition dateless :: "bytes \<Rightarrow> bool" where
  "dateless b \<longleftrightarrow> (\<exists>r head_only. b = serialize r head_only \<and> resp_header r ''date'' = None)"

lemma datelessI: "resp_header r ''date'' = None \<Longrightarrow> dateless (serialize r head_only)"
  by (auto simp: dateless_def)

lemma step_without_date:
  assumes "conn_step service now c s = Some (Write b close, c', s')" and "\<not> pol_has_clock (conn_policy c)"
    and "\<And>s request ctx. resp_header (fst (service s request ctx)) ''date'' = None"
  shows "dateless b"
proof -
  have r: "resp_header r ''date'' = None" if "service s request ctx = (r, s2)" for request ctx r s2
    using assms(3)[of s request ctx] that by simp
  show ?thesis
    using assms(1,2)
    by (auto simp: conn_step_def Let_def error_response_def expectation_failed_def date_finalize
        split: outcome.splits parsed.splits expect_action.splits if_splits prod.splits
        dest!: r intro!: datelessI)
qed

lemma emits_without_date:
  assumes "conn_emits service x bs closed y" and "\<not> pol_has_clock (conn_policy (fst x))"
    and "\<And>s request ctx. resp_header (fst (service s request ctx)) ''date'' = None"
  shows "\<forall>b \<in> set bs. dateless b"
  using assms(1,2)
proof (induction rule: conn_emits.induct)
  case (emits_open now c s b c' s' bs closed y)
  then show ?case using step_without_date[OF emits_open.hyps(1) _ assms(3)] conn_step_config[OF emits_open.hyps(1)] by simp
next
  case (emits_close now c s b c' s')
  then show ?case using step_without_date[OF emits_close.hyps(1) _ assms(3)] by simp
qed (simp_all add: feed_def)

text \<open>C37: the firmware has no clock and never sends a date. Whatever its socket has answered in
  the polls before (errors and clients that come and go included), everything its connection
  writes next, whatever bytes arrive and at whatever tick, is the serialization of responses
  without a \<open>Date\<close> field.\<close>

theorem firmware_sends_no_date:
  assumes "firmware_main html ios = Some (ys, u)" and "(st, calls) \<in> set ys"
    and "conn_emits (static_service (firmware_app html (boot_config CONFIG))) (es_conn st, ()) bs closed y"
  shows "\<forall>b \<in> set bs. \<exists>r head_only. b = serialize r head_only \<and> resp_header r ''date'' = None"
proof -
  have "\<forall>(now, ios) \<in> set (firmware_passes ios). length ios = 1" by (auto simp: firmware_passes_def)
  from serve_smoltcp_clockless[OF assms(1)[unfolded firmware_main_def] clockless_start this] assms(2)
  have "\<not> pol_has_clock (conn_policy (es_conn st))" by (auto simp: clockless_def)
  then show ?thesis
    using emits_without_date[OF assms(3)] by (simp add: static_service_def date_firmware dateless_def)
qed

theorem firmware_sends_no_date_witness:
  "\<exists>r head_only. answer_bytes (static_router_handle (firmware_app ''hello'' (boot_config CONFIG)) sample_post) 7
     (conn_policy (es_conn (state_with_clock False))) sample_post = serialize r head_only \<and> resp_header r ''date'' = None"
proof -
  let ?st = "state_reset (state_with_clock False)" and ?service = "static_service (firmware_app ''hello'' (boot_config CONFIG))"
  let ?c = "feed (render_request sample_post) (es_conn ?st)"
  have run: "firmware_main ''hello'' [closed_io] = Some ([(?st, [Listened])], ())"
    by (simp add: firmware_main_def firmware_passes_def serve_socket_def pump_connection_def closed_io_def quiet_io_def)
  have c: "conn_buf ?c = render_request sample_post @ []" "conn_max_body ?c = MAX_BODY_BYTES"
    "conn_policy ?c = conn_policy (es_conn (state_with_clock False))"
    by (simp_all add: feed_def state_reset_def state_with_clock_def set_clock_def conn_new_def conn_with_policy_def)
  have "plain_request MAX_BODY_BYTES sample_post"
    using plain_sample_post(1) by (simp add: plain_request_def MAX_BODY_BYTES_def)
  then have "parse_with (conn_buf ?c) (conn_max_body ?c) = Ok (Complete sample_post (length (render_request sample_post)))"
    unfolding c by (intro parse_render_fixed) (simp_all add: plain_request_def)
  from conn_step_complete[OF this, of ?service "()" 7] plain_sample_post(2)
  have "conn_step ?service 7 ?c () = Some (Write (answer_bytes
      (static_router_handle (firmware_app ''hello'' (boot_config CONFIG)) sample_post) 7 (conn_policy ?c) sample_post) False,
      after_request (length (render_request sample_post)) ?c, ())"
    by (simp add: static_service_def)
  from emits_fed[OF emits_open[OF this emits_nothing]]
  show ?thesis using firmware_sends_no_date[OF run, of ?st "[Listened]"] unfolding c(3) by simp
qed

subsection \<open>What a connection may hold\<close>

text \<open>
  The socket of the firmware receives the pieces of a request one per poll: as long as the
  request is incomplete they pile up in the connection.
\<close>

definition receiving_io :: "bytes \<Rightarrow> socket_io" where
  "receiving_io d = quiet_io\<lparr>io_recv := RecvBytes d\<rparr>"

lemma serve_receiving:
  assumes "parse_with (conn_buf (es_conn st) @ d) (conn_max_body (es_conn st)) = Ok Partial"
    and "expect_action (conn_buf (es_conn st) @ d) = ExpectNone" and "es_out st = []" "\<not> es_close st"
  shows "serve_socket service now (receiving_io d) st s = Some (st\<lparr>es_conn := feed d (es_conn st)\<rparr>, [], s)"
proof -
  let ?c = "feed d (es_conn st)"
  have "conn_step service now ?c s = Some (NeedMore, ?c, s)"
    using assms(1,2) by (simp add: conn_step_partial feed_def)
  from drive_needmore[OF this] assms(3,4) show ?thesis
    by (simp add: serve_socket_def pump_connection_def receiving_io_def quiet_io_def pump_flush_def)
qed

lemma serve_pieces:
  assumes "plain_request (conn_max_body (es_conn st)) r" and "es_out st = []" "\<not> es_close st"
    and "strict_prefix (conn_buf (es_conn st) @ concat ds) (render_request r)"
    and "map snd passes = map (\<lambda>d. [receiving_io d]) ds"
  shows "\<exists>st'. serve_smoltcp service passes [st] s = Some ([(st', [])], s) \<and>
    conn_buf (es_conn st') = conn_buf (es_conn st) @ concat ds"
  using assms
proof (induction ds arbitrary: st passes)
  case (Cons d ds)
  then obtain now passes' where p: "passes = (now, [receiving_io d]) # passes'" "map snd passes' = map (\<lambda>d. [receiving_io d]) ds"
    by (cases passes) auto
  let ?st = "st\<lparr>es_conn := feed d (es_conn st)\<rparr>"
  have pre: "strict_prefix (conn_buf (es_conn st) @ d) (render_request r)"
    using Cons.prems(4) by (auto simp: strict_prefix_def prefix_def)
  note serve = serve_receiving[OF strict_prefix_partial[OF Cons.prems(1) pre] strict_prefix_not_expected[OF Cons.prems(1) pre]
      Cons.prems(2,3), of service now s]
  have f: "conn_max_body (feed d c) = conn_max_body c" "conn_buf (feed d c) = conn_buf c @ d" for c
    by (simp_all add: feed_def)
  from Cons.IH[of ?st passes'] Cons.prems p(2) obtain st' where
    "serve_smoltcp service passes' [?st] s = Some ([(st', [])], s)" "conn_buf (es_conn st') = conn_buf (es_conn st) @ d @ concat ds"
    by (auto simp: f)
  with serve p(1) show ?case by auto
qed simp

lemma firmware_passes_ios: "map snd (firmware_passes ios) = map (\<lambda>io. [io]) ios"
proof -
  have "map snd (firmware_passes ios) = map (\<lambda>io. [io]) (map snd (enumerate 1 ios))"
    by (simp add: firmware_passes_def case_prod_beta comp_def del: map_snd_enumerate)
  then show ?thesis by simp
qed

text \<open>The configured \<open>request_max_bytes\<close> plays no part: a connection of the embedded
  transport has the built-in limit of 1 MiB, and holds a body up to it although the heap of
  the firmware has 32 KiB.\<close>

theorem firmware_buffers_beyond_heap:
  assumes "plain_request MAX_BODY_BYTES r" and "strict_prefix (concat ds) (render_request r)"
  shows "\<exists>st. firmware_main html (map receiving_io ds) = Some ([(st, [])], ()) \<and> conn_buf (es_conn st) = concat ds"
proof -
  let ?st = "state_with_clock False"
  have st: "conn_max_body (es_conn ?st) = MAX_BODY_BYTES" "es_out ?st = []" "\<not> es_close ?st" "conn_buf (es_conn ?st) = []"
    by (simp_all add: state_with_clock_def set_clock_def conn_new_def conn_with_policy_def)
  have "map snd (firmware_passes (map receiving_io ds)) = map (\<lambda>d. [receiving_io d]) ds"
    by (simp add: firmware_passes_ios comp_def)
  from serve_pieces[OF _ _ _ _ this, of ?st r "static_service (firmware_app html (boot_config CONFIG))" "()"] assms st
  show ?thesis by (simp add: firmware_main_def)
qed

definition upload :: "bytes \<Rightarrow> request" where
  "upload body = \<lparr>req_method = Post, req_target = ''/'', req_version = Http11,
     req_headers = [\<lparr>hdr_name = ''Host'', hdr_value = ''h''\<rparr>,
                    \<lparr>hdr_name = ''Content-Length'', hdr_value = ''40000''\<rparr>],
     req_body = body\<rparr>"

lemma upload_plain: "length body = 40000 \<Longrightarrow> plain_request MAX_BODY_BYTES (upload body)"
proof -
  assume l: "length body = 40000"
  have "renderable (upload body)" "body_framing (req_headers (upload body)) = Inr (Fixed 40000)"
    "length (render_head (upload body)) \<le> MAX_HEAD_BYTES" "req_header (upload body) ''expect'' = None"
    by (simp_all add: upload_def sample_eval exec_simps)
  moreover have "length (render_request (upload body)) < 2 ^ 64"
    using calculation(3) l by (simp add: render_request_def upload_def MAX_HEAD_BYTES_def)
  ultimately show ?thesis using l by (simp add: plain_request_def upload_def MAX_BODY_BYTES_def)
qed

theorem firmware_buffers_beyond_heap_witness:
  "\<exists>received st. firmware_main ''hello'' [receiving_io received] = Some ([(st, [])], ()) \<and>
     length (conn_buf (es_conn st)) > HEAP_SIZE"
proof -
  obtain body :: bytes where l: "length body = 40000" using Ex_list_of_length by blast
  let ?text = "render_request (upload body)"
  have n: "length ?text \<ge> 40000" using l by (simp add: render_request_def upload_def)
  then have "?text \<noteq> []" by auto
  then have "strict_prefix (concat [butlast ?text]) ?text"
    by (cases ?text rule: rev_cases) (simp_all add: strict_prefix_def)
  from firmware_buffers_beyond_heap[OF upload_plain[OF l] this, of "''hello''"] obtain st where
    "firmware_main ''hello'' [receiving_io (butlast ?text)] = Some ([(st, [])], ())"
    "conn_buf (es_conn st) = butlast ?text" by auto
  with n show ?thesis by (intro exI[of _ "butlast ?text"] exI[of _ st]) (simp add: HEAP_SIZE_def)
qed

end
