(* ===== verification/Embedded_Client.thy ===== *)
theory Embedded_Client
  imports Embedded_Server
begin

section \<open>A client of the embedded server\<close>

text \<open>
  The counterpart of \<open>Server\<close> for the polls of the smoltcp transport, the other interpretation
  of \<open>stream_server\<close>: a client that sends well-formed requests over one socket.
\<close>

text \<open>What a poll finds on a socket that works; how much there is room for does not matter.\<close>

definition io_fine :: "socket_io \<Rightarrow> bool" where
  "io_fine io \<longleftrightarrow> io_open io \<and> io_recv io \<noteq> RecvFails \<and> io_send io \<noteq> SendFails"

definition io_received :: "socket_io \<Rightarrow> bytes" where
  "io_received io = (case io_recv io of RecvBytes d \<Rightarrow> d | _ \<Rightarrow> [])"

lemma flush_closing:
  assumes "send \<noteq> SendFails"
  shows "\<exists>st' calls. pump_flush send st = (Inr (), st', calls) \<and> es_conn st' = es_conn st \<and>
    sent_bytes calls @ es_out st' = es_out st \<and> set calls \<subseteq> range Sent \<union> {SocketClosed} \<and>
    (es_close st' \<longleftrightarrow> es_close st \<and> es_out st' \<noteq> []) \<and> (SocketClosed \<in> set calls \<longleftrightarrow> es_close st \<and> es_out st' = [])"
  using assms
  by (cases send; cases "es_out st = []"; cases "es_close st") (auto simp: pump_flush_def Let_def)

text \<open>One poll: the requests its bytes complete are answered, and what is left is kept.\<close>

lemma pump_serves:
  assumes "io_fine io"
    and "conn_buf (es_conn st) @ io_received io = concat (map render_request rs) @ rest"
    and "\<forall>r \<in> set rs. plain_request (conn_max_body (es_conn st)) r" and "\<forall>r \<in> set (butlast rs). req_keep_alive r"
    and "parse_with rest (conn_max_body (es_conn st)) = Ok Partial" "expect_action rest = ExpectNone"
    and "serve_requests service (conn_context (es_conn st) now) (conn_policy (es_conn st)) rs s = (bs, closed, s')"
  shows "\<exists>st' calls. serve_socket service now io st s = Some (st', calls, s') \<and>
    sent_bytes calls @ es_out st' = es_out st @ bs \<and> set calls \<subseteq> range Sent \<union> {SocketClosed} \<and>
    (es_close st' \<longleftrightarrow> (es_close st \<or> closed) \<and> es_out st' \<noteq> []) \<and>
    (SocketClosed \<in> set calls \<longleftrightarrow> (es_close st \<or> closed) \<and> es_out st' = []) \<and>
    conn_buf (es_conn st') = rest \<and> conn_max_body (es_conn st') = conn_max_body (es_conn st) \<and>
    conn_policy (es_conn st') = conn_policy (es_conn st) \<and> conn_peer (es_conn st') = conn_peer (es_conn st)"
proof -
  let ?c = "feed (io_received io) (es_conn st)"
  have f: "conn_buf ?c = conn_buf (es_conn st) @ io_received io" "conn_max_body ?c = conn_max_body (es_conn st)"
    "conn_policy ?c = conn_policy (es_conn st)" "conn_peer ?c = conn_peer (es_conn st)"
    "conn_context ?c now = conn_context (es_conn st) now"
    by (simp_all add: feed_def conn_context_def)
  from drive_cut[of ?c rs rest service now s bs closed s' "es_out st"] assms(2-) f obtain c' where
    d: "drive service now ?c s (es_out st) = Some (es_out st @ bs, closed, c', s')"
    and c': "conn_buf c' = rest" "conn_max_body c' = conn_max_body (es_conn st)"
      "conn_policy c' = conn_policy (es_conn st)" "conn_peer c' = conn_peer (es_conn st)"
    by auto
  let ?st = "st\<lparr>es_conn := c', es_out := es_out st @ bs, es_close := es_close st \<or> closed\<rparr>"
  obtain st' calls where fl: "pump_flush (io_send io) ?st = (Inr (), st', calls)" "es_conn st' = es_conn ?st"
    "sent_bytes calls @ es_out st' = es_out ?st" "set calls \<subseteq> range Sent \<union> {SocketClosed}"
    "es_close st' \<longleftrightarrow> es_close ?st \<and> es_out st' \<noteq> []" "SocketClosed \<in> set calls \<longleftrightarrow> es_close ?st \<and> es_out st' = []"
    using flush_closing[of "io_send io" ?st] assms(1) unfolding io_fine_def by metis
  have "feed [] (es_conn st) = es_conn st" by (simp add: feed_def)
  then have "pump_connection service now io st s = Some (Inr (), st', calls, s')"
    using d fl(1) assms(1)
    by (cases "io_recv io") (simp_all add: pump_connection_def io_fine_def io_received_def)
  then show ?thesis using fl c' by (simp add: serve_socket_def)
qed

subsection \<open>The polls of one socket\<close>

fun smol_event ::
  "'s service \<Rightarrow> nat \<times> socket_io \<Rightarrow> (conn_state \<times> socket_call list) \<times> 's \<Rightarrow> ((conn_state \<times> socket_call list) \<times> 's) option" where
  "smol_event service (now, io) ((st, calls), s) =
     map_option (\<lambda>(st, later, s). ((st, calls @ later), s)) (serve_socket service now io st s)"

lemma run_smol_events:
  "run_events (smol_event service) es ((st, before), s) = Some ((st', calls), s') \<Longrightarrow>
     \<exists>later. calls = before @ later \<and>
       serve_smoltcp service (map (\<lambda>(now, io). (now, [io])) es) [st] s = Some ([(st', later)], s')"
proof (induction es arbitrary: st s before)
  case (Cons e es)
  obtain now io where e: "e = (now, io)" by fastforce
  from Cons.prems obtain st1 calls1 s1 where s: "serve_socket service now io st s = Some (st1, calls1, s1)"
    "run_events (smol_event service) es ((st1, before @ calls1), s1) = Some ((st', calls), s')"
    by (auto simp: e split: option.splits)
  from Cons.IH[OF s(2)] s(1) show ?case by (auto simp: e)
qed simp

fun smol_live :: "bytes \<Rightarrow> response_policy \<Rightarrow> nat \<Rightarrow> ((nat \<times> socket_io) \<times> bytes) list \<Rightarrow> conn_state \<times> socket_call list \<Rightarrow> bool" where
  "smol_live peer policy mb es (st, calls) \<longleftrightarrow> \<not> es_close st \<and> set calls \<subseteq> range Sent \<and>
     conn_peer (es_conn st) = peer \<and> conn_policy (es_conn st) = policy \<and> conn_max_body (es_conn st) = mb \<and>
     (\<forall>((now, io), d) \<in> set es. io_fine io \<and> io_received io = d)"

fun smol_closing :: "(nat \<times> socket_io) list \<Rightarrow> conn_state \<times> socket_call list \<Rightarrow> bool" where
  "smol_closing es (st, calls) \<longleftrightarrow> set calls \<subseteq> range Sent \<union> {SocketClosed} \<and> conn_buf (es_conn st) = [] \<and>
     (es_close st \<longleftrightarrow> es_out st \<noteq> []) \<and> (SocketClosed \<in> set calls \<longleftrightarrow> es_out st = []) \<and>
     (\<forall>(now, io) \<in> set es. io_fine io \<and> io_received io = [])"

fun smol_output :: "conn_state \<times> socket_call list \<Rightarrow> bytes" where
  "smol_output (st, calls) = sent_bytes calls @ es_out st"

fun smol_pending :: "conn_state \<times> socket_call list \<Rightarrow> bytes" where
  "smol_pending (st, calls) = conn_buf (es_conn st)"

text \<open>After a poll: the events that are left, or none that bring anything.\<close>

lemma smol_after:
  assumes "smol_live peer policy mb es (st, [])" and "set calls \<subseteq> range Sent" and "set later \<subseteq> range Sent \<union> {SocketClosed}"
    and "es_close st' \<longleftrightarrow> closed \<and> es_out st' \<noteq> []" and "SocketClosed \<in> set later \<longleftrightarrow> closed \<and> es_out st' = []"
    and "closed \<longrightarrow> conn_buf (es_conn st') = [] \<and> concat (map snd es) = []"
    and "conn_max_body (es_conn st') = mb" "conn_policy (es_conn st') = policy" "conn_peer (es_conn st') = peer"
  shows "if closed then smol_closing (map fst es) (st', calls @ later) else smol_live peer policy mb es (st', calls @ later)"
proof (cases closed)
  case True
  then have "\<forall>y \<in> set es. snd y = []" using assms(6) by auto
  then have "\<forall>(now, io) \<in> set (map fst es). io_fine io \<and> io_received io = []" using assms(1) by fastforce
  with True assms(2-6) show ?thesis by auto
next
  case False
  with assms show ?thesis by auto
qed

interpretation smol: stream_server "smol_event service" fst "smol_live peer policy mb" smol_closing
    smol_pending smol_output service peer policy mb
  for service :: "'s service" and peer policy mb
proof
  fix e d es x rs rest s bs closed s'
  assume a: "smol_live peer policy mb ((e, d) # es) x" "parse_with (smol_pending x) mb = Ok Partial"
    "smol_pending x @ d = concat (map render_request rs) @ rest"
    "\<forall>r \<in> set rs. plain_request mb r" "\<forall>r \<in> set (butlast rs). req_keep_alive r"
    "parse_with rest mb = Ok Partial" "expect_action rest = ExpectNone"
    "serve_requests service \<lparr>ctx_peer = peer, ctx_now = fst e\<rparr> policy rs s = (bs, closed, s')"
    "closed \<longrightarrow> rest = [] \<and> concat (map snd es) = []"
  obtain st calls now io where x: "x = (st, calls)" "e = (now, io)" by (metis prod.exhaust)
  from a(1) have l: "io_fine io" "io_received io = d" "\<not> es_close st" "set calls \<subseteq> range Sent" "conn_peer (es_conn st) = peer"
    "conn_policy (es_conn st) = policy" "conn_max_body (es_conn st) = mb" "smol_live peer policy mb es (st, [])"
    by (auto simp: x)
  then have ctx: "conn_context (es_conn st) now = \<lparr>ctx_peer = peer, ctx_now = fst e\<rparr>" by (simp add: conn_context_def x)
  have "\<exists>st' calls. serve_socket service now io st s = Some (st', calls, s') \<and>
    sent_bytes calls @ es_out st' = es_out st @ bs \<and> set calls \<subseteq> range Sent \<union> {SocketClosed} \<and>
    (es_close st' \<longleftrightarrow> (es_close st \<or> closed) \<and> es_out st' \<noteq> []) \<and>
    (SocketClosed \<in> set calls \<longleftrightarrow> (es_close st \<or> closed) \<and> es_out st' = []) \<and>
    conn_buf (es_conn st') = rest \<and> conn_max_body (es_conn st') = conn_max_body (es_conn st) \<and>
    conn_policy (es_conn st') = conn_policy (es_conn st) \<and> conn_peer (es_conn st') = conn_peer (es_conn st)"
    by (rule pump_serves[where rs = rs]) (use a(3-8) l ctx x in simp_all)
  then obtain st' later where p: "serve_socket service now io st s = Some (st', later, s')"
    "sent_bytes later @ es_out st' = es_out st @ bs" "set later \<subseteq> range Sent \<union> {SocketClosed}"
    "es_close st' \<longleftrightarrow> closed \<and> es_out st' \<noteq> []" "SocketClosed \<in> set later \<longleftrightarrow> closed \<and> es_out st' = []"
    "conn_buf (es_conn st') = rest" "conn_max_body (es_conn st') = mb" "conn_policy (es_conn st') = policy"
    "conn_peer (es_conn st') = peer" using l by auto
  have after: "if closed then smol_closing (map fst es) (st', calls @ later) else smol_live peer policy mb es (st', calls @ later)"
    by (rule smol_after[OF l(8,4) p(3-5) _ p(7-9)]) (use p(6) a(9) in simp_all)
  have "smol_event service e (x, s) = Some ((st', calls @ later), s')"
    "smol_output (st', calls @ later) = smol_output x @ bs" "smol_pending (st', calls @ later) = rest"
    using p(1,2,6) by (simp_all add: x)
  note this after
  then show "\<exists>x'. smol_event service e (x, s) = Some (x', s') \<and> smol_output x' = smol_output x @ bs \<and>
    (if closed then smol_closing (map fst es) x' else smol_live peer policy mb es x' \<and> smol_pending x' = rest)"
    by (intro exI[of _ "(st', calls @ later)"]) (simp only: simp_thms split: if_splits)
next
  fix e later x and s :: 's
  assume a: "smol_closing (e # later) x"
  obtain st calls now io where x: "x = (st, calls)" "e = (now, io)" by (metis prod.exhaust)
  with a have i: "io_fine io" "conn_buf (es_conn st) @ io_received io = concat (map render_request []) @ []" by simp_all
  from pump_serves[OF i(1,2), of service now s "[]" False s] nothing_buffered a obtain st' calls' where
    "serve_socket service now io st s = Some (st', calls', s)" "sent_bytes calls' @ es_out st' = es_out st"
    "set calls' \<subseteq> range Sent \<union> {SocketClosed}" "es_close st' \<longleftrightarrow> es_close st \<and> es_out st' \<noteq> []"
    "SocketClosed \<in> set calls' \<longleftrightarrow> es_close st \<and> es_out st' = []" "conn_buf (es_conn st') = []"
    by auto
  with a show "\<exists>x'. smol_event service e (x, s) = Some (x', s) \<and> smol_output x' = smol_output x \<and> smol_closing later x'"
    by (intro exI[of _ "(st', calls @ calls')"]) (auto simp: x)
qed



end
