(* ===== verification/Tls_Client.thy ===== *)
theory Tls_Client
  imports Tls_Transport Server
begin

section \<open>A client of the server over TLS\<close>

text \<open>
  The counterpart of \<open>Server\<close> for a connection with a TLS session: a third server of streams.
  What a session does with the bytes it receives is stated as laws, next to the laws of
  \<open>Tls_Transport\<close> for what it sends.
\<close>

subsection \<open>What a session delivers\<close>

text \<open>
  \<open>received\<close> is the encrypted stream a session has been given, \<open>given\<close> the application data it has
  delivered, and \<open>decrypt\<close> the application data of an encrypted stream, \<open>None\<close> when a record of it
  is in error. A longer stream only adds data. A session accepts what is not in error, and then
  delivers all the data of the stream so far.
\<close>

definition tls_read_laws ::
  "'t tls_session \<Rightarrow> ('t \<Rightarrow> bytes) \<Rightarrow> ('t \<Rightarrow> bytes) \<Rightarrow> (bytes \<Rightarrow> bytes option) \<Rightarrow> bool" where
  "tls_read_laws tls received given decrypt \<longleftrightarrow>
     (\<forall>a b d. decrypt (a @ b) = Some d \<longrightarrow> (\<exists>p. decrypt a = Some p \<and> prefix p d)) \<and>
     (\<forall>w t. decrypt (received t @ w) \<noteq> None \<longrightarrow>
        (\<exists>t'. tls_receive tls w t = Some t' \<and> received t' = received t @ w \<and> given t' = given t)) \<and>
     (\<forall>t ps t' d. tls_plaintext tls t = (ps, t') \<longrightarrow> decrypt (received t) = Some d \<longrightarrow> prefix (given t) d \<longrightarrow>
        received t' = received t \<and> given t' = d \<and> d = given t @ concat ps) \<and>
     (\<forall>d t n t'. tls_write tls d t = (n, t') \<longrightarrow> received t' = received t \<and> given t' = given t) \<and>
     (\<forall>t. received (tls_close_notify tls t) = received t \<and> given (tls_close_notify tls t) = given t) \<and>
     (\<forall>n t. received (tls_drained tls n t) = received t \<and> given (tls_drained tls n t) = given t)"

lemma tls_read_lawsD:
  assumes "tls_read_laws tls received given decrypt"
  shows "decrypt (a @ b) = Some d \<Longrightarrow> \<exists>p. decrypt a = Some p \<and> prefix p d"
    and "decrypt (received t @ w) \<noteq> None \<Longrightarrow>
      \<exists>t'. tls_receive tls w t = Some t' \<and> received t' = received t @ w \<and> given t' = given t"
    and "tls_plaintext tls t = (ps, t') \<Longrightarrow> decrypt (received t) = Some d \<Longrightarrow> prefix (given t) d \<Longrightarrow>
      received t' = received t \<and> given t' = d \<and> d = given t @ concat ps"
    and "tls_write tls d t = (n, t') \<Longrightarrow> received t' = received t \<and> given t' = given t"
    and "received (tls_close_notify tls t) = received t" and "given (tls_close_notify tls t) = given t"
    and "received (tls_drained tls n t) = received t" and "given (tls_drained tls n t) = given t"
  using assms unfolding tls_read_laws_def by blast+

lemma tls_read_in_delivers:
  "delivered reads = Some w \<Longrightarrow> decrypt (received t) = Some (given t) \<Longrightarrow>
    decrypt (received t @ w) = Some (given t @ d) \<Longrightarrow> tls_read_laws tls received given decrypt \<Longrightarrow>
    \<exists>t'. tls_read_in tls reads t state = (False, t', feed d state) \<and> received t' = received t @ w \<and> given t' = given t @ d"
proof (induction tls reads t state arbitrary: w d rule: tls_read_in.induct)
  case (2 tls wire reads t state)
  note laws = tls_read_lawsD[OF "2.prems"(4)]
  from "2.prems"(1) obtain w2 where w: "wire \<noteq> []" "delivered reads = Some w2" "w = wire @ w2"
    by (auto split: if_splits)
  with "2.prems"(3) have "decrypt ((received t @ wire) @ w2) = Some (given t @ d)" by simp
  from laws(1)[OF this] obtain p where p: "decrypt (received t @ wire) = Some p" "prefix p (given t @ d)" by blast
  from laws(1)[OF p(1)] "2.prems"(2) obtain d1 where d1: "p = given t @ d1" by (auto simp: prefix_def)
  with p(2) obtain d2 where d2: "d = d1 @ d2" by (auto simp: prefix_def)
  from laws(2)[of t wire] p(1) obtain t1 where
    r: "tls_receive tls wire t = Some t1" "received t1 = received t @ wire" "given t1 = given t" by auto
  obtain ps t2 where ps: "tls_plaintext tls t1 = (ps, t2)" by fastforce
  have t2: "received t2 = received t @ wire" "given t2 = given t @ d1" "concat ps = d1"
    using laws(3)[OF ps, of "given t @ d1"] p(1) r d1 by auto
  have "\<exists>t'. tls_read_in tls reads t2 (fold feed ps state) = (False, t', feed d2 (fold feed ps state)) \<and>
      received t' = received t2 @ w2 \<and> given t' = given t2 @ d2"
    by (rule "2.IH"[OF w(1) r(1) ps[symmetric] w(2)]) (use "2.prems"(3,4) t2 p(1) d1 d2 w(3) in simp_all)
  then show ?case using w r(1) ps t2 d2 by (auto simp: fold_feed feed_feed)
qed auto

lemma tls_write_all_reading:
  "tls_read_laws tls received given decrypt \<Longrightarrow>
     received (tls_write_all tls d t) = received t \<and> given (tls_write_all tls d t) = given t"
proof (induction tls d t rule: tls_write_all.induct)
  case (1 tls d t)
  obtain n t1 where w: "tls_write tls d t = (n, t1)" by fastforce
  with tls_read_lawsD(4)[OF "1.prems" w] "1.IH"[OF _ w[symmetric] _ "1.prems"] show ?case
    by (auto simp: tls_write_all.simps[of tls d])
qed

lemma tls_write_out_fine:
  "writes_fine ws \<Longrightarrow> tls_read_laws tls received given decrypt \<Longrightarrow>
     \<exists>t' sent'. tls_write_out tls ws t sent = (False, t', sent') \<and> received t' = received t \<and> given t' = given t"
proof (induction tls ws t sent rule: tls_write_out.induct)
  case (2 tls w ws t sent)
  have fine: "writes_fine ws" using "2.prems"(1) by (simp add: writes_fine_def)
  show ?case
  proof (cases "tls_pending tls t = []")
    case False
    show ?thesis
    proof (cases w)
      case (WriteOk n)
      with "2.prems"(1) False have "min n (length (tls_pending tls t)) \<noteq> 0" by (auto simp: writes_fine_def)
      with "2.IH"(1)[OF False WriteOk refl this fine "2.prems"(2)] WriteOk False tls_read_lawsD(7,8)[OF "2.prems"(2)]
      show ?thesis by (simp add: Let_def)
    next
      case WriteInterrupted
      with "2.IH"(2)[OF False WriteInterrupted fine "2.prems"(2)] False show ?thesis by simp
    qed (use "2.prems" in \<open>auto simp: writes_fine_def\<close>)
  qed simp
qed simp

subsection \<open>One readiness event\<close>

lemma tls_handle_ready_writes:
  assumes "(if readable \<and> \<not> tc_close_after_flush c then tls_read_and_drive tls service now reads c s
      else Some (False, c, s)) = Some (False, c1, s')"
    and "writes_fine writes" and "tls_laws tls taken closed" and "tls_read_laws tls received given decrypt"
  shows "\<exists>dropped c' sent. tls_handle_ready tls service now readable reads writes c s = Some (dropped, c', s', sent) \<and>
    (dropped \<longleftrightarrow> tc_close_after_flush c1 \<and> tls_pending tls (xc_session c') = []) \<and>
    tc_close_after_flush c' = tc_close_after_flush c1 \<and> tc_state c' = tc_state c1 \<and> tc_out c' = tc_out c1 \<and>
    taken (xc_session c') = taken (xc_session c1) \<and> closed (xc_session c') = closed (xc_session c1) \<and>
    received (xc_session c') = received (xc_session c1) \<and> given (xc_session c') = given (xc_session c1)"
proof -
  from tls_write_out_fine[OF assms(2,4), of "xc_session c1" "[]"] obtain t sent where
    wo: "tls_write_out tls writes (xc_session c1) [] = (False, t, sent)"
      "received t = received (xc_session c1)" "given t = given (xc_session c1)" by blast
  obtain dropped c2 where u: "tls_update_interest tls (c1\<lparr>xc_session := t\<rparr>) = (dropped, c2)" by fastforce
  have d: "dropped \<longleftrightarrow> tc_close_after_flush c1 \<and> tls_pending tls t = []"
    using u by (auto simp: tls_update_interest_def split: if_splits)
  have h: "tls_handle_ready tls service now readable reads writes c s = Some (dropped, c2, s', sent)"
    unfolding tls_handle_ready_def assms(1) using wo u by (simp add: Let_def)
  show ?thesis using h d wo tls_write_out_keeps[OF wo(1) assms(3)] tls_update_interest_keeps[OF u] by simp
qed

lemma tls_read_serves:
  assumes laws: "tls_laws tls taken closed" "tls_unlimited tls" "tls_read_laws tls received given decrypt"
    and arrived: "delivered inputs = Some w"
    and session: "decrypt (received (xc_session c)) = Some (given (xc_session c))"
      "decrypt (received (xc_session c) @ w) = Some (given (xc_session c) @ d)" "\<not> closed (xc_session c)"
    and queue: "tc_out c = []" and drive: "drive service now (feed d (tc_state c)) s [] = Some (bs, over, st, s')"
  shows "\<exists>t. tls_read_and_drive tls service now inputs c s =
      Some (False, c\<lparr>tc_state := st, tc_out := [], tc_close_after_flush := over, xc_session := t\<rparr>, s') \<and>
    taken t = taken (xc_session c) @ bs \<and> closed t = over \<and>
    received t = received (xc_session c) @ w \<and> given t = given (xc_session c) @ d"
proof -
  from tls_read_in_delivers[OF arrived session(1,2) laws(3), of "tc_state c"] obtain t where
    t: "tls_read_in tls inputs (xc_session c) (tc_state c) = (False, t, feed d (tc_state c))"
    "received t = received (xc_session c) @ w" "given t = given (xc_session c) @ d" by blast
  have keeps: "taken t = taken (xc_session c)" "\<not> closed t"
    using tls_read_in_keeps[OF t(1) laws(1)] session(3) by auto
  define t1 where "t1 = tls_write_all tls bs t"
  define t2 where "t2 = (if over then tls_close_notify tls t1 else t1)"
  have t1: "taken t1 = taken t @ bs" "\<not> closed t1" "received t1 = received t" "given t1 = given t"
    using tls_write_all_keeps[OF laws(1), of bs t] tls_write_all_reading[OF laws(3), of bs t] keeps laws(2)
    by (auto simp: t1_def)
  have t2: "taken t2 = taken t1" "closed t2 = over" "received t2 = received t1" "given t2 = given t1"
    using tls_lawsD(4,5)[OF laws(1)] tls_read_lawsD(5,6)[OF laws(3)] t1(2) by (simp_all add: t2_def)
  have "tls_queue_out tls t bs = (t1, [])"
    by (simp add: tls_queue_out_def t1_def tls_write_all.simps[of tls "[]"])
  with t(1) drive queue have "tls_read_and_drive tls service now inputs c s =
      Some (False, c\<lparr>tc_state := st, tc_out := [], tc_close_after_flush := over, xc_session := t2\<rparr>, s')"
    by (simp add: tls_read_and_drive_def t2_def Let_def)
  with t1 t2 t keeps show ?thesis by auto
qed

lemma tls_event_serves:
  assumes laws: "tls_laws tls taken closed" "tls_unlimited tls" "tls_read_laws tls received given decrypt"
    and ready: "event_data rd = Some w" "writes_fine (rd_writes rd)"
    and session: "decrypt (received (xc_session c)) = Some (given (xc_session c))"
      "decrypt (received (xc_session c) @ w) = Some (given (xc_session c) @ d)" "\<not> closed (xc_session c)"
    and conn: "\<not> tc_close_after_flush c" "tc_out c = []"
    and start: "parse_with (conn_buf (tc_state c)) (conn_max_body (tc_state c)) = Ok Partial"
    and cut: "conn_buf (tc_state c) @ d = concat (map render_request rs) @ rest"
      "\<forall>r \<in> set rs. plain_request (conn_max_body (tc_state c)) r" "\<forall>r \<in> set (butlast rs). req_keep_alive r"
      "parse_with rest (conn_max_body (tc_state c)) = Ok Partial" "expect_action rest = ExpectNone"
    and serve: "serve_requests service (conn_context (tc_state c) (rd_unix rd)) (conn_policy (tc_state c)) rs s = (bs, over, s')"
  shows "\<exists>dropped c' sent.
    tls_handle_ready tls service (rd_unix rd) (rd_readable rd) (rd_reads rd) (rd_writes rd) c s = Some (dropped, c', s', sent) \<and>
    (dropped \<longleftrightarrow> over \<and> tls_pending tls (xc_session c') = []) \<and> tc_close_after_flush c' = over \<and> tc_out c' = [] \<and>
    taken (xc_session c') = taken (xc_session c) @ bs \<and> closed (xc_session c') = over \<and>
    received (xc_session c') = received (xc_session c) @ w \<and> given (xc_session c') = given (xc_session c) @ d \<and>
    conn_buf (tc_state c') = rest \<and> conn_max_body (tc_state c') = conn_max_body (tc_state c) \<and>
    conn_policy (tc_state c') = conn_policy (tc_state c) \<and> conn_peer (tc_state c') = conn_peer (tc_state c)"
proof -
  obtain c1 where c1: "(if rd_readable rd \<and> \<not> tc_close_after_flush c
      then tls_read_and_drive tls service (rd_unix rd) (rd_reads rd) c s else Some (False, c, s)) = Some (False, c1, s')"
    "tc_close_after_flush c1 = over" "tc_out c1 = []"
    "taken (xc_session c1) = taken (xc_session c) @ bs" "closed (xc_session c1) = over"
    "received (xc_session c1) = received (xc_session c) @ w" "given (xc_session c1) = given (xc_session c) @ d"
    "conn_buf (tc_state c1) = rest" "conn_max_body (tc_state c1) = conn_max_body (tc_state c)"
    "conn_policy (tc_state c1) = conn_policy (tc_state c)" "conn_peer (tc_state c1) = conn_peer (tc_state c)"
  proof (cases "rd_readable rd")
    case True
    let ?f = "feed d (tc_state c)"
    have f: "conn_max_body ?f = conn_max_body (tc_state c)" "conn_policy ?f = conn_policy (tc_state c)"
      "conn_peer ?f = conn_peer (tc_state c)" "conn_context ?f (rd_unix rd) = conn_context (tc_state c) (rd_unix rd)"
      "conn_buf ?f = conn_buf (tc_state c) @ d"
      by (simp_all add: feed_def conn_context_def)
    from drive_cut[of ?f rs rest service "rd_unix rd" s bs over s' "[]"] cut serve f obtain st where
      dr: "drive service (rd_unix rd) ?f s [] = Some (bs, over, st, s')" "conn_buf st = rest"
      "conn_max_body st = conn_max_body (tc_state c)" "conn_policy st = conn_policy (tc_state c)"
      "conn_peer st = conn_peer (tc_state c)" by auto
    have "delivered (rd_reads rd) = Some w" using ready(1) True by (simp add: event_data_def)
    from tls_read_serves[OF laws this session conn(2) dr(1)] dr(2-) True conn(1) that show thesis by fastforce
  next
    case False
    with ready(1) session(1,2) have "w = []" "d = []" by (simp_all add: event_data_def)
    with cut(1) have "frames (next_request (conn_max_body (tc_state c))) (conn_buf (tc_state c)) = (rs, rest)"
      using frames_cut[OF cut(2,4)] by simp
    with rq.frames_None[of "conn_max_body (tc_state c)" "conn_buf (tc_state c)"] start
    have "rs = [] \<and> rest = conn_buf (tc_state c)" by (simp add: next_request_def[of _ "conn_buf (tc_state c)"])
    with False serve conn session(3) \<open>w = []\<close> \<open>d = []\<close> that[of c] show thesis by simp
  qed
  from tls_handle_ready_writes[OF c1(1) ready(2) laws(1,3)] c1(2-) show ?thesis by auto
qed

subsection \<open>One connection, many events\<close>

fun tls_event ::
  "'t tls_session \<Rightarrow> 's service \<Rightarrow> ready \<Rightarrow> (bool \<times> 't tls_conn \<times> bytes) \<times> 's \<Rightarrow> ((bool \<times> 't tls_conn \<times> bytes) \<times> 's) option" where
  "tls_event tls service rd ((dropped, c, sent), s) =
     (if dropped then Some ((dropped, c, sent), s)
      else map_option (\<lambda>(dropped, c, s, now). ((dropped, c, sent @ now), s))
        (tls_handle_ready tls service (rd_unix rd) (rd_readable rd) (rd_reads rd) (rd_writes rd)
          (c\<lparr>tc_last_activity := rd_instant rd\<rparr>) s))"

lemma tls_run_dropped: "run_events (tls_event tls service) rds ((True, c, sent), s) = Some ((True, c, sent), s)"
  by (induction rds) simp_all

lemma run_tls_events:
  "run_events (tls_event tls service) rds ((False, c, before), s) =
     map_option (\<lambda>(dropped, c, s, sent). ((dropped, c, before @ sent), s)) (tls_conn_events tls service rds c s)"
proof (induction rds arbitrary: c s before)
  case (Cons rd rds)
  show ?case
  proof (cases "tls_handle_ready tls service (rd_unix rd) (rd_readable rd) (rd_reads rd) (rd_writes rd)
      (c\<lparr>tc_last_activity := rd_instant rd\<rparr>) s")
    case (Some y)
    obtain dropped c1 s1 sent where "y = (dropped, c1, s1, sent)" by (metis prod_cases4)
    with Some Cons.IH[of c1 "before @ sent" s1] show ?thesis
      by (cases dropped) (auto simp: tls_run_dropped split: option.split)
  qed simp
qed simp

text \<open>The encrypted bytes of the events, and the application data they are paired with.\<close>

fun tls_arrive :: "(bytes \<Rightarrow> bytes option) \<Rightarrow> bytes \<Rightarrow> (ready \<times> bytes) list \<Rightarrow> bool" where
  "tls_arrive decrypt r [] = True"
| "tls_arrive decrypt r ((rd, d) # es) = (\<exists>w g. event_data rd = Some w \<and> writes_fine (rd_writes rd) \<and>
     decrypt r = Some g \<and> decrypt (r @ w) = Some (g @ d) \<and> tls_arrive decrypt (r @ w) es)"

lemma tls_arrive_writes: "tls_arrive decrypt r es \<Longrightarrow> \<forall>rd \<in> set (map fst es). writes_fine (rd_writes rd)"
  by (induction decrypt r es rule: tls_arrive.induct) auto

lemma tls_arrivals:
  assumes "tls_read_laws tls received given decrypt"
  shows "map event_data rds = map Some ws \<Longrightarrow> \<forall>rd \<in> set rds. writes_fine (rd_writes rd) \<Longrightarrow>
    decrypt r = Some g \<Longrightarrow> decrypt (r @ concat ws) = Some (g @ d) \<Longrightarrow>
    \<exists>ds. length ds = length rds \<and> concat ds = d \<and> tls_arrive decrypt r (zip rds ds)"
proof (induction rds arbitrary: ws r g d)
  case (Cons rd rds)
  then obtain w ws' where ws: "ws = w # ws'" "event_data rd = Some w" "map event_data rds = map Some ws'" by auto
  with Cons.prems(4) have "decrypt ((r @ w) @ concat ws') = Some (g @ d)" by simp
  from tls_read_lawsD(1)[OF assms this] obtain p where p: "decrypt (r @ w) = Some p" "prefix p (g @ d)" by blast
  from tls_read_lawsD(1)[OF assms p(1)] Cons.prems(3) obtain d1 where d1: "p = g @ d1" by (auto simp: prefix_def)
  with p(2) obtain d2 where d2: "d = d1 @ d2" by (auto simp: prefix_def)
  with Cons.IH[OF ws(3), of "r @ w" p d2] Cons.prems(2,4) p(1) d1 ws(1) obtain ds where
    "length ds = length rds" "concat ds = d2" "tls_arrive decrypt (r @ w) (zip rds ds)" by auto
  with ws(2) Cons.prems(2,3) p(1) d1 d2 show ?case by (intro exI[of _ "d1 # ds"]) auto
qed auto

definition tls_live ::
  "('t \<Rightarrow> bool) \<Rightarrow> ('t \<Rightarrow> bytes) \<Rightarrow> ('t \<Rightarrow> bytes) \<Rightarrow> (bytes \<Rightarrow> bytes option) \<Rightarrow> bytes \<Rightarrow> response_policy \<Rightarrow> nat \<Rightarrow>
     (ready \<times> bytes) list \<Rightarrow> bool \<times> 't tls_conn \<times> bytes \<Rightarrow> bool" where
  "tls_live closed received given decrypt peer policy mb es x \<longleftrightarrow> (case x of (dropped, c, sent) \<Rightarrow>
     \<not> dropped \<and> \<not> tc_close_after_flush c \<and> tc_out c = [] \<and> \<not> closed (xc_session c) \<and>
     conn_peer (tc_state c) = peer \<and> conn_policy (tc_state c) = policy \<and> conn_max_body (tc_state c) = mb \<and>
     decrypt (received (xc_session c)) = Some (given (xc_session c)) \<and>
     tls_arrive decrypt (received (xc_session c)) es)"

definition tls_closing ::
  "'t tls_session \<Rightarrow> ('t \<Rightarrow> bool) \<Rightarrow> ready list \<Rightarrow> bool \<times> 't tls_conn \<times> bytes \<Rightarrow> bool" where
  "tls_closing tls closed rds x \<longleftrightarrow> (case x of (dropped, c, sent) \<Rightarrow>
     tc_close_after_flush c \<and> tc_out c = [] \<and> closed (xc_session c) \<and>
     (dropped \<longrightarrow> tls_pending tls (xc_session c) = []) \<and> (\<forall>rd \<in> set rds. writes_fine (rd_writes rd)))"

lemma tls_stream_server:
  assumes laws: "tls_laws tls taken closed" "tls_unlimited tls" "tls_read_laws tls received given decrypt"
  shows "stream_server (tls_event tls service) rd_unix (tls_live closed received given decrypt peer policy mb)
    (tls_closing tls closed) (\<lambda>(dropped, c, sent). conn_buf (tc_state c)) (\<lambda>(dropped, c, sent). taken (xc_session c))
    service peer policy mb"
proof
  fix rd d es x rs rest s bs over s'
  assume a: "tls_live closed received given decrypt peer policy mb ((rd, d) # es) x"
    "parse_with (case x of (dropped, c, sent) \<Rightarrow> conn_buf (tc_state c)) mb = Ok Partial"
    "(case x of (dropped, c, sent) \<Rightarrow> conn_buf (tc_state c)) @ d = concat (map render_request rs) @ rest"
    "\<forall>r \<in> set rs. plain_request mb r" "\<forall>r \<in> set (butlast rs). req_keep_alive r"
    "parse_with rest mb = Ok Partial" "expect_action rest = ExpectNone"
    "serve_requests service \<lparr>ctx_peer = peer, ctx_now = rd_unix rd\<rparr> policy rs s = (bs, over, s')"
  obtain dropped c sent where x: "x = (dropped, c, sent)" by (metis prod_cases3)
  let ?c = "c\<lparr>tc_last_activity := rd_instant rd\<rparr>"
  from a(1) obtain w where w: "event_data rd = Some w" "writes_fine (rd_writes rd)"
    "decrypt (received (xc_session c) @ w) = Some (given (xc_session c) @ d)"
    "tls_arrive decrypt (received (xc_session c) @ w) es"
    by (auto simp: x tls_live_def)
  have c: "\<not> dropped" "\<not> tc_close_after_flush c" "tc_out c = []" "\<not> closed (xc_session c)"
    "conn_peer (tc_state c) = peer" "conn_policy (tc_state c) = policy" "conn_max_body (tc_state c) = mb"
    "decrypt (received (xc_session c)) = Some (given (xc_session c))"
    using a(1) by (simp_all add: x tls_live_def)
  have ctx: "conn_context (tc_state ?c) (rd_unix rd) = \<lparr>ctx_peer = peer, ctx_now = rd_unix rd\<rparr>"
    using c(5) by (simp add: conn_context_def)
  have "\<exists>dropped c' sent.
    tls_handle_ready tls service (rd_unix rd) (rd_readable rd) (rd_reads rd) (rd_writes rd) ?c s = Some (dropped, c', s', sent) \<and>
    (dropped \<longleftrightarrow> over \<and> tls_pending tls (xc_session c') = []) \<and> tc_close_after_flush c' = over \<and> tc_out c' = [] \<and>
    taken (xc_session c') = taken (xc_session ?c) @ bs \<and> closed (xc_session c') = over \<and>
    received (xc_session c') = received (xc_session ?c) @ w \<and> given (xc_session c') = given (xc_session ?c) @ d \<and>
    conn_buf (tc_state c') = rest \<and> conn_max_body (tc_state c') = conn_max_body (tc_state ?c) \<and>
    conn_policy (tc_state c') = conn_policy (tc_state ?c) \<and> conn_peer (tc_state c') = conn_peer (tc_state ?c)"
    by (rule tls_event_serves[where d = d and rs = rs and taken = taken, OF laws w(1,2)]) (use a w c ctx x in simp_all)
  then show "\<exists>x'. tls_event tls service rd (x, s) = Some (x', s') \<and>
    (case x' of (dropped, c, sent) \<Rightarrow> taken (xc_session c)) = (case x of (dropped, c, sent) \<Rightarrow> taken (xc_session c)) @ bs \<and>
    (if over then tls_closing tls closed (map fst es) x'
     else tls_live closed received given decrypt peer policy mb es x' \<and>
       (case x' of (dropped, c, sent) \<Rightarrow> conn_buf (tc_state c)) = rest)"
    using c w(3,4) tls_arrive_writes[OF w(4)] by (fastforce simp: x tls_live_def tls_closing_def)
next
  fix rd later x and s :: 'b
  assume a: "tls_closing tls closed (rd # later) x"
  obtain dropped c sent where x: "x = (dropped, c, sent)" by (metis prod_cases3)
  let ?c = "c\<lparr>tc_last_activity := rd_instant rd\<rparr>"
  from tls_handle_ready_writes[of "rd_readable rd" ?c tls service "rd_unix rd" "rd_reads rd" s ?c s "rd_writes rd", OF _ _ laws(1,3)] a
  show "\<exists>x'. tls_event tls service rd (x, s) = Some (x', s) \<and>
    (case x' of (dropped, c, sent) \<Rightarrow> taken (xc_session c)) = (case x of (dropped, c, sent) \<Rightarrow> taken (xc_session c)) \<and>
    tls_closing tls closed later x'"
    by (cases dropped) (auto simp: x tls_closing_def)
qed

lemma tls_transport_stream:
  assumes "tls_laws tls taken closed" and "tls_unlimited tls"
    and "tls_conn_events tls service rds c s = Some (dropped, c', s', sent)"
    and "tc_out c = []" and "\<not> tc_close_after_flush c" and "\<not> closed (xc_session c)"
  shows "\<exists>new. sent @ tls_pending tls (xc_session c') = tls_pending tls (xc_session c) @ new"
proof -
  have "tls_inv closed c" using assms(4-6) by (simp add: tls_inv_def)
  from tls_conn_events_emits[OF assms(1-3) this] show ?thesis by (auto simp: tls_emits_def)
qed


text \<open>A session without encryption that keeps all it has received.\<close>

record wire_session =
  ws_received :: bytes
  ws_given :: bytes
  ws_out :: bytes
  ws_taken :: bytes
  ws_closed :: bool

definition wire_tls :: "wire_session tls_session" where
  "wire_tls = \<lparr>tls_receive = (\<lambda>w t. Some (t\<lparr>ws_received := ws_received t @ w\<rparr>)),
     tls_plaintext = (\<lambda>t. ([drop (length (ws_given t)) (ws_received t)], t\<lparr>ws_given := ws_received t\<rparr>)),
     tls_write = (\<lambda>d t. (length d, if ws_closed t then t else t\<lparr>ws_out := ws_out t @ d, ws_taken := ws_taken t @ d\<rparr>)),
     tls_close_notify = (\<lambda>t. t\<lparr>ws_out := ws_out t @ [CHR 0x01, CHR 0x00], ws_closed := True\<rparr>),
     tls_pending = ws_out, tls_drained = (\<lambda>n t. t\<lparr>ws_out := drop n (ws_out t)\<rparr>)\<rparr>"

lemma wire_tls_laws:
  "tls_laws wire_tls ws_taken ws_closed" "tls_unlimited wire_tls" "tls_read_laws wire_tls ws_received ws_given Some"
  by (auto simp: tls_laws_def tls_unlimited_def tls_read_laws_def wire_tls_def prefix_def)

definition wire_conn :: "wire_session tls_conn" where
  "wire_conn = tconn.extend idle_conn
     \<lparr>xc_session = \<lparr>ws_received = [], ws_given = [], ws_out = [], ws_taken = [], ws_closed = False\<rparr>\<rparr>"


end
