(* ===== verification/Static_Server.thy ===== *)
theory Static_Server
  imports App_Theorems Admin Server
begin

section \<open>What the std server gives out of the file system\<close>

text \<open>
  The app that \<open>main\<close> builds, from the request to the bytes of a file: routing, static files,
  ranges and validators, and the document root together.
\<close>

lemma evaluate_body: "sublist (resp_body (evaluate request r)) (resp_body r)"
proof -
  have "sublist (take n (drop m xs)) xs" for n m and xs :: bytes
    by (meson sublist_drop sublist_order.order.trans sublist_take)
  moreover have "resp_body (foldl (keep_header r) s ns) = resp_body s" for s ns
    by (induction ns arbitrary: s) simp_all
  ultimately show ?thesis
    by (auto simp: evaluate_def to_not_modified_def apply_range_def Let_def
        simp del: foldl_Cons split: option.split range_outcome.split)
qed


definition one_file :: filesystem where
  "one_file = \<lparr>fs_canonicalize = Some, fs_is_symlink = (\<lambda>p. Some False), fs_metadata = (\<lambda>p. Some (True, None)),
     fs_read = (\<lambda>p. Some ''data'')\<rparr>"

definition get_a :: request where
  "get_a = \<lparr>req_method = Get, req_target = ''/a'', req_version = Http10, req_headers = [], req_body = []\<rparr>"


subsection \<open>A file, from the request to the client\<close>

text \<open>
  What a client makes of an answer, with an inflater of its own: the lines of the head and the
  body, as \<open>read_response\<close> finds them.
\<close>

definition client_body :: "(bytes \<Rightarrow> bytes option) \<Rightarrow> bytes list \<times> bytes \<Rightarrow> bytes option" where
  "client_body inflate answer =
     (case answer of (lines, body) \<Rightarrow>
        if ''Content-Encoding: gzip'' \<in> set lines then gunzip inflate body else Some body)"

text \<open>The fields of a file: the media type, that ranges are served, and the validators.\<close>

definition file_headers :: "bytes \<Rightarrow> asset \<Rightarrow> (bytes \<times> bytes) list \<Rightarrow> (bytes \<times> bytes) list" where
  "file_headers name a ov = [(''Content-Type'', mime_for name ov), (''Accept-Ranges'', ''bytes'')] @
     (case asset_mtime a of
        Some t \<Rightarrow> [(''Last-Modified'', http_date t), (''ETag'', etag (length (asset_bytes a)) t)]
      | None \<Rightarrow> [])"

lemma resp_headers_file: "resp_headers (file_response name a ov) = file_headers name a ov"
  by (simp add: file_response_def file_headers_def with_header_def resp_new_def Let_def split: option.split)

lemma finalize_lines:
  "\<exists>later. response_lines (finalize r now ka policy) =
     status_line r # map field_line (filter emitted (resp_headers r)) @ later @ length_lines r \<and>
     ''Content-Encoding: gzip'' \<notin> set later"
  by (cases "pol_security_headers policy"; cases "pol_has_clock policy"; cases ka)
    (simp_all add: finalize_def apply_security_headers_def with_header_def response_lines_def length_lines_def status_line_def
      field_line_def)

lemma post_process_cases:
  obtains "post_process app request r = r"
  | d where "app_deflate app = Some d" "cp_gzip (app_compression app)" "accepts_gzip request"
      "post_process app request r = with_header (with_header (r\<lparr>resp_body := gzip_encode d (resp_body r)\<rparr>)
        ''Content-Encoding'' ''gzip'') ''Vary'' ''Accept-Encoding''"
proof (cases "post_process app request r = r")
  case False
  then obtain d where d: "app_deflate app = Some d" by (auto simp: post_process_def split: option.splits)
  with False show ?thesis by (intro that(2)[OF d]) (auto simp: post_process_def split: if_splits)
qed (rule that(1))

text \<open>The client gets the body back and sees the headers, whether or not it was compressed.\<close>

lemma file_answer_read:
  assumes "\<forall>d x. app_deflate app = Some d \<longrightarrow> inflate (d x) = Some x" and "f = file_response name a ov"
  shows "\<exists>ls body. read_response (serialize (finalize (post_process app request f) now ka policy) False) = Some (ls, body) \<and>
    hd ls = ''HTTP/1.1 200 OK'' \<and> ''Content-Length: '' @ show_nat (length body) \<in> set ls \<and>
    (\<forall>nv \<in> set (file_headers name a ov). emitted nv \<longrightarrow> field_line nv \<in> set ls) \<and>
    (''Content-Encoding: gzip'' \<in> set ls \<longrightarrow> accepts_gzip request \<and> cp_gzip (app_compression app)) \<and>
    client_body inflate (ls, body) = Some (asset_bytes a)"
proof -
  let ?r = "post_process app request f"
  have f: "resp_status f = 200" "resp_body f = asset_bytes a" "resp_headers f = file_headers name a ov"
    by (simp_all add: assms(2) resp_headers_file)
  have plain: "''Content-Encoding: gzip'' \<notin> field_line ` set (file_headers name a ov)"
    by (auto simp: file_headers_def field_line_def split: option.splits)
  have e: "emitted (''Content-Encoding'', ''gzip'')"
    by (simp add: emitted_def exec_simps)
  obtain ls where ls: "response_lines (finalize ?r now ka policy) = ls" by simp
  obtain later where later: "ls = status_line ?r # map field_line (filter emitted (resp_headers ?r)) @ later @ length_lines ?r"
    "''Content-Encoding: gzip'' \<notin> set later" using finalize_lines[of ?r now ka policy] ls by auto
  have "resp_status ?r = 200" "set (resp_headers f) \<subseteq> set (resp_headers ?r)"
    using f(1) by (auto simp: post_process_def with_header_def split: option.split)
  then have st: "resp_status ?r = 200" and sub: "set (file_headers name a ov) \<subseteq> set (resp_headers ?r)"
    using f(3) by simp_all
  have line: "status_line ?r = ''HTTP/1.1 200 OK''"
    unfolding status_line_def st by (simp add: reason_def exec_simps)
  have len: "length_lines ?r = [''Content-Length: '' @ show_nat (length (resp_body ?r))]"
    unfolding length_lines_def st by (simp add: is_empty_body_def)
  have hs: "\<forall>nv \<in> set (file_headers name a ov). emitted nv \<longrightarrow> field_line nv \<in> set ls"
    using sub unfolding later(1) by auto
  have "client_body inflate (ls, resp_body ?r) = Some (asset_bytes a) \<and>
    (''Content-Encoding: gzip'' \<in> set ls \<longrightarrow> accepts_gzip request \<and> cp_gzip (app_compression app))"
  proof (rule post_process_cases[of app request f])
    assume same: "?r = f"
    have "set ls \<subseteq> {status_line ?r} \<union> field_line ` set (file_headers name a ov) \<union> set later \<union> set (length_lines ?r)"
      using same f(3) by (auto simp: later(1))
    then have "''Content-Encoding: gzip'' \<notin> set ls"
      using later(2) plain unfolding line len by auto
    with same f(2) show ?thesis by (simp add: client_body_def)
  next
    fix d assume d: "app_deflate app = Some d" "cp_gzip (app_compression app)" "accepts_gzip request"
      "?r = with_header (with_header (f\<lparr>resp_body := gzip_encode d (resp_body f)\<rparr>)
        ''Content-Encoding'' ''gzip'') ''Vary'' ''Accept-Encoding''"
    have "field_line (''Content-Encoding'', ''gzip'') \<in> set ls"
      using e by (auto simp: later(1) d(4) with_header_def)
    then have "''Content-Encoding: gzip'' \<in> set ls" by (simp add: field_line_def)
    moreover have "resp_body ?r = gzip_encode d (asset_bytes a)" by (simp add: d(4) f(2))
    ultimately show ?thesis using gunzip_gzip[of inflate d "asset_bytes a"] assms(1) d(1-3) by (simp add: client_body_def)
  qed
  moreover have "read_response (serialize (finalize ?r now ka policy) False) = Some (ls, resp_body ?r)"
    using read_serialize[of "finalize ?r now ka policy" False "[]"] st ls
    by (simp add: wire_body_def is_empty_body_def)
  moreover have "hd ls = ''HTTP/1.1 200 OK''" using line later(1) by simp
  moreover have "''Content-Length: '' @ show_nat (length (resp_body ?r)) \<in> set ls" using len later(1) by simp
  ultimately show ?thesis using hs by blast
qed

text \<open>A path made of safe segments, as the file system sees it.\<close>

lemma safe_join:
  assumes "segs \<noteq> []" and "\<forall>s \<in> set segs. safe_segment s"
  shows "path_join root (join ''/'' segs) = root @ segs" and "components (join ''/'' segs) = map Normal segs"
proof -
  have split: "split_on (CHR ''/'') (join ''/'' segs) = segs"
    using assms by (intro split_on_join) (auto simp: safe_segment_def)
  have "\<not> starts_with ''/'' (join ''/'' segs)"
    using assms by (cases segs; cases "hd segs"; cases "tl segs") (auto simp: starts_with_def safe_segment_def)
  moreover have "filter (\<lambda>s. s \<noteq> [] \<and> s \<noteq> ''.'') segs = segs"
    using assms(2) by (auto simp: safe_segment_def intro: filter_True)
  moreover have "hd segs \<noteq> ''.''" using assms by (cases segs) (auto simp: safe_segment_def)
  moreover have "map (\<lambda>s. if s = ''..'' then ParentDir else Normal s) segs = map Normal segs"
    using assms(2) by (auto simp: safe_segment_def)
  ultimately show "path_join root (join ''/'' segs) = root @ segs" and "components (join ''/'' segs) = map Normal segs"
    by (simp_all only: path_join_def components_def split Let_def if_False append_Nil)
qed

text \<open>A file below the root that is reached without a symbolic link, or with them where allowed.\<close>

definition file_at :: "filesystem \<Rightarrow> static_config \<Rightarrow> path \<Rightarrow> bytes list \<Rightarrow> nat option \<Rightarrow> bytes \<Rightarrow> bool" where
  "file_at fs st root segs mtime contents \<longleftrightarrow>
     (\<exists>file. fs_canonicalize fs (root @ segs) = Some file \<and> starts_with root file \<and>
        fs_metadata fs file = Some (True, mtime) \<and> fs_read fs file = Some contents) \<and>
     (st_follow_symlinks st \<or> (\<forall>k < length segs. fs_is_symlink fs (root @ take (Suc k) segs) = Some False))"

lemma file_loads:
  assumes "segs \<noteq> []" and "\<forall>s \<in> set segs. safe_segment s" and "fs_canonicalize fs (fa_root assets) = Some root"
    and "fa_follow_symlinks assets = st_follow_symlinks st" and "file_at fs st root segs mtime contents"
  shows "fs_load fs assets (join ''/'' segs) = Some \<lparr>asset_bytes = contents, asset_mtime = mtime\<rparr>"
proof -
  have "map (\<lambda>s. if s = ''..'' then ParentDir else Normal s) segs = map Normal segs" and "''..'' \<notin> set segs"
    using assms(2) by (auto simp: safe_segment_def)
  then have "traverses_symlink fs root (join ''/'' segs) \<longleftrightarrow>
      \<not> (\<forall>k < length segs. fs_is_symlink fs (root @ take (Suc k) segs) = Some False)"
    using symlink_loop_false[of fs root segs] safe_join(2)[OF assms(1,2)] unfolding traverses_symlink_def by (simp only:) blast
  with assms(3-5) show ?thesis
    by (auto simp: fs_load_def safe_join(1)[OF assms(1,2)] file_at_def)
qed

lemma decoded_candidates:
  assumes "percent_decode path = Some (CHR ''/'' # join ''/'' segs)" and "segs \<noteq> []" and "\<forall>s \<in> set segs. safe_segment s"
  shows "candidate_paths path index_files = Some [join ''/'' segs]"
proof -
  let ?p = "join ''/'' segs"
  have "utf8_valid (CHR ''/'' # ?p)"
    using assms(1) by (auto simp: percent_decode_def split: option.splits if_splits)
  then have "utf8_valid ?p" by simp
  from file_path_candidates[OF assms(2,3) this, of index_files]
  have "candidate_paths (CHR ''/'' # percent_encode ?p) index_files = Some [?p]" .
  moreover have "percent_decode (CHR ''/'' # percent_encode ?p) = Some (CHR ''/'' # ?p)"
    using \<open>utf8_valid (CHR ''/'' # ?p)\<close> by (simp add: percent_decode_def percent_loop_encode)
  ultimately show ?thesis using assms(1) by (simp add: candidate_paths_def)
qed

text \<open>What the app answers, to whomever and whenever the limiter lets it.\<close>

lemma file_answer:
  assumes "build_app fs cwd deflate c = (app, st0)"
    and "req_method request = Get" and "dispatch (app_router app) request = None"
    and "\<forall>h \<in> {''if-none-match'', ''if-modified-since'', ''range''}. req_header request h = None"
    and "percent_decode (req_path request) = Some (CHR ''/'' # join ''/'' segs)" and "segs \<noteq> []"
    and "\<forall>s \<in> set segs. safe_segment s"
    and "fs_canonicalize fs (path_join cwd (st_root (cfg_static c))) = Some root"
    and "file_at fs (cfg_static c) root segs mtime contents"
    and "case as_limiter st of None \<Rightarrow> True | Some l \<Rightarrow> fst (check l (ctx_peer ctx) (ctx_now ctx)) = Allow"
  shows "fst (app_handle app st request ctx) = post_process app request
    (file_response (join ''/'' segs) \<lparr>asset_bytes = contents, asset_mtime = mtime\<rparr> (cfg_mime_overrides c))"
proof -
  let ?assets = "\<lparr>fa_root = path_join cwd (st_root (cfg_static c)), fa_follow_symlinks = st_follow_symlinks (cfg_static c)\<rparr>"
  let ?a = "\<lparr>asset_bytes = contents, asset_mtime = mtime\<rparr>"
  let ?f = "file_response (join ''/'' segs) ?a (cfg_mime_overrides c)"
  have app: "app_load app = fs_load fs ?assets" "app_mime_overrides app = cfg_mime_overrides c"
    using assms(1) by (auto simp: build_app_def Let_def)
  have "fs_load fs ?assets (join ''/'' segs) = Some ?a"
    by (rule file_loads[where st = "cfg_static c"]) (use assms in simp_all)
  then have "serve_static (req_path request) (app_index_files app) (app_load app) (app_mime_overrides app) = Some ?f"
    using decoded_candidates[OF assms(5-7)] by (simp add: serve_static_def app)
  then have "app_dispatch app request = evaluate request ?f"
    using assms(2,3) by (simp add: app_dispatch_def)
  moreover have "evaluate request ?f = ?f"
    using assms(4) by (simp add: evaluate_def not_modified_def apply_range_def)
  moreover have "fst (app_handle app st request ctx) = post_process app request (app_dispatch app request)"
    using assms(10) by (cases "as_limiter st") (auto simp: app_handle_def Let_def split: option.splits prod.splits)
  ultimately show ?thesis by simp
qed

text \<open>C8: a file of the document root reaches the client, from socket to socket. A client sends one
  GET, however the network cuts it, for a path that decodes to the segments of a regular file
  below the root, with any percent-encoding, without a condition or a range, and not for an API
  route, to the app that \<open>main\<close> builds; the limiter lets it pass. Then what is sent, followed by
  what is pending, reads as the status line of 200, the media type of the name and, for a file
  with a modification time, the validators made of its length and time (fields that cannot be
  sent apart), the length of the body, and a body that is the file, or from which the client
  inflates the file when a field says so. It is compressed only when that is configured and the
  client asked for it.\<close>

theorem file_served_to_client:
  assumes "build_app fs cwd deflate c = (app, st0)" and "\<forall>d x. deflate = Some d \<longrightarrow> inflate (d x) = Some x"
    and "req_method request = Get" and "dispatch (app_router app) request = None"
    and "\<forall>h \<in> {''if-none-match'', ''if-modified-since'', ''range''}. req_header request h = None"
    and "percent_decode (req_path request) = Some (CHR ''/'' # join ''/'' segs)" and "segs \<noteq> []"
    and "\<forall>s \<in> set segs. safe_segment s"
    and "fs_canonicalize fs (path_join cwd (st_root (cfg_static c))) = Some root"
    and "file_at fs (cfg_static c) root segs mtime contents"
    and "\<forall>now. case as_limiter st of None \<Rightarrow> True | Some l \<Rightarrow> fst (check l (conn_peer conn0) now) = Allow"
    and "tc_state conn = conn0" and "conn_buf conn0 = []" and "\<not> tc_close_after_flush conn" and "tc_out conn = []"
    and "plain_request (conn_max_body conn0) request" and "map event_data rds = map Some ds"
    and "concat ds = render_request request" and "\<forall>rd \<in> set rds. writes_fine (rd_writes rd)"
  shows "\<exists>dropped conn' st' sent ls body. conn_events (app_handle app) rds conn st = Some (dropped, conn', st', sent) \<and>
    read_response (sent @ tc_out conn') = Some (ls, body) \<and>
    hd ls = ''HTTP/1.1 200 OK'' \<and> ''Content-Length: '' @ show_nat (length body) \<in> set ls \<and>
    (\<forall>nv \<in> set (file_headers (join ''/'' segs) \<lparr>asset_bytes = contents, asset_mtime = mtime\<rparr> (cfg_mime_overrides c)).
       emitted nv \<longrightarrow> field_line nv \<in> set ls) \<and>
    (''Content-Encoding: gzip'' \<in> set ls \<longrightarrow> accepts_gzip request \<and> cp_gzip (cfg_compression c)) \<and>
    client_body inflate (ls, body) = Some contents"
proof -
  let ?a = "\<lparr>asset_bytes = contents, asset_mtime = mtime\<rparr>"
  let ?f = "file_response (join ''/'' segs) ?a (cfg_mime_overrides c)" and ?policy = "conn_policy conn0"
  have app: "app_deflate app = deflate" "app_compression app = cfg_compression c"
    using assms(1) by (auto simp: build_app_def Let_def)
  have rs: "\<forall>r \<in> set [request]. plain_request (conn_max_body conn0) r" "\<forall>r \<in> set (butlast [request]). req_keep_alive r"
    "concat ds = concat (map render_request [request])"
    using assms(16,18) by simp_all
  from events_served[OF assms(12-14) rs(1,2) assms(17) rs(3) assms(19), of "app_handle app" st]
  obtain turns dropped conn' st' bs sent where
    t: "map fst turns = map rd_unix rds" "concat (map snd turns) = [request]"
      "serve_turns (app_handle app) (conn_peer conn0) ?policy turns st = (bs, st')"
      "conn_events (app_handle app) rds conn st = Some (dropped, conn', st', sent)" "sent @ tc_out conn' = tc_out conn @ bs"
    by (elim exE conjE) (rule that)
  from serve_turns_single[OF t(2), of "app_handle app" st "conn_peer conn0" ?policy] t(3) obtain now a s' where
    a: "app_handle app st request \<lparr>ctx_peer = conn_peer conn0, ctx_now = now\<rparr> = (a, s')" "bs = answer_bytes a now ?policy request"
    by auto
  have "fst (app_handle app st request \<lparr>ctx_peer = conn_peer conn0, ctx_now = now\<rparr>) = post_process app request ?f"
    by (rule file_answer[OF assms(1,3-10)]) (use spec[OF assms(11), of now] in \<open>cases "as_limiter st"; simp\<close>)
  with a assms(3) have "bs = serialize (finalize (post_process app request ?f) now (req_keep_alive request) ?policy) False"
    by (simp add: answer_bytes_def)
  with t(5) assms(15) have b: "sent @ tc_out conn' = serialize (finalize (post_process app request ?f) now (req_keep_alive request) ?policy) False"
    by simp
  from file_answer_read[of app inflate ?f "join ''/'' segs" ?a "cfg_mime_overrides c" request now "req_keep_alive request" ?policy]
    assms(2) app obtain ls body where
    r: "read_response (sent @ tc_out conn') = Some (ls, body)" "hd ls = ''HTTP/1.1 200 OK''"
      "''Content-Length: '' @ show_nat (length body) \<in> set ls"
      "\<forall>nv \<in> set (file_headers (join ''/'' segs) ?a (cfg_mime_overrides c)). emitted nv \<longrightarrow> field_line nv \<in> set ls"
      "''Content-Encoding: gzip'' \<in> set ls \<longrightarrow> accepts_gzip request \<and> cp_gzip (cfg_compression c)"
      "client_body inflate (ls, body) = Some contents"
    unfolding b by auto
  show ?thesis
    by (intro exI conjI) (rule t(4), rule r(1), rule r(2), rule r(3), rule r(4), rule r(5), rule r(6))
qed

definition dated_file :: filesystem where
  "dated_file = one_file\<lparr>fs_metadata := (\<lambda>p. Some (True, Some 5))\<rparr>"

definition get_encoded_a :: request where
  "get_encoded_a = \<lparr>req_method = Get, req_target = ''/%61'', req_version = Http11,
     req_headers = [\<lparr>hdr_name = ''Host'', hdr_value = ''h''\<rparr>], req_body = []\<rparr>"

lemma plain_get_encoded_a: "plain_request 100 get_encoded_a"
proof -
  have "renderable get_encoded_a" "body_framing (req_headers get_encoded_a) = Inr (Fixed 0)"
    by (simp_all add: get_encoded_a_def sample_eval exec_simps)
  moreover have "length (render_head get_encoded_a) \<le> MAX_HEAD_BYTES" "length (render_request get_encoded_a) < 2 ^ 64"
    by (simp_all add: get_encoded_a_def sample_eval exec_simps MAX_HEAD_BYTES_def)
  moreover have "req_body get_encoded_a = []" "req_header get_encoded_a ''expect'' = None"
    by (simp_all add: get_encoded_a_def exec_simps)
  ultimately show ?thesis by (simp add: plain_request_def)
qed

theorem file_served_to_client_witness:
  "\<exists>dropped conn' st' sent ls body.
     conn_events (app_handle (fst (build_app dated_file [] None config_default)))
       [arrival_event 4 (take 3 (render_request get_encoded_a)), arrival_event 5 (drop 3 (render_request get_encoded_a))]
       idle_conn \<lparr>as_limiter = None, as_log = []\<rparr> = Some (dropped, conn', st', sent) \<and>
     read_response (sent @ tc_out conn') = Some (ls, body) \<and> client_body Some (ls, body) = Some ''data''"
proof -
  let ?app = "fst (build_app dated_file [] None config_default)" and ?st = "snd (build_app dated_file [] None config_default)"
  let ?root = "path_join [] (st_root (cfg_static config_default))"
  have b: "build_app dated_file [] None config_default = (?app, ?st)" by simp
  have p: "req_path get_encoded_a = ''/%61''"
    by (simp add: get_encoded_a_def req_path_def absolute_form_path_def find_subslice_def split_once_def)
  have d: "dispatch (app_router ?app) get_encoded_a = None"
    by (simp add: dispatch_def p) (simp add: build_app_def get_encoded_a_def Let_def exec_simps)
  have "percent_decode ''/%61'' = Some ''/a''" by (simp add: exec_simps char_of_eq_iff)
  with p have q: "percent_decode (req_path get_encoded_a) = Some (CHR ''/'' # join ''/'' [''a''])" by simp
  have f: "file_at dated_file (cfg_static config_default) ?root [''a''] (Some 5) ''data''"
    by (simp add: file_at_def dated_file_def one_file_def starts_with_def)
  have n: "\<forall>h \<in> {''if-none-match'', ''if-modified-since'', ''range''}. req_header get_encoded_a h = None"
    by (simp add: get_encoded_a_def req_header_def exec_simps)
  have s: "[''a''] \<noteq> []" "\<forall>s \<in> set [''a'']. safe_segment s" by (simp_all add: safe_segment_def)
  have c: "fs_canonicalize dated_file ?root = Some ?root" by (simp add: dated_file_def one_file_def)
  have g: "req_method get_encoded_a = Get" by (simp add: get_encoded_a_def)
  have i: "conn_buf (tc_state idle_conn) = []" "\<not> tc_close_after_flush idle_conn" "tc_out idle_conn = []"
    "conn_max_body (tc_state idle_conn) = 100"
    by (simp_all add: idle_conn_def tconn_new_def set_peer_def set_max_body_def conn_with_policy_def)
  have l: "3 < length (render_request get_encoded_a)" by (simp add: get_encoded_a_def sample_eval exec_simps)
  let ?ds = "[take 3 (render_request get_encoded_a), drop 3 (render_request get_encoded_a)]"
  let ?rds = "[arrival_event 4 (take 3 (render_request get_encoded_a)), arrival_event 5 (drop 3 (render_request get_encoded_a))]"
  have e: "map event_data ?rds = map Some ?ds" "concat ?ds = render_request get_encoded_a"
    "\<forall>rd \<in> set ?rds. writes_fine (rd_writes rd)"
    using l by (auto simp: arrival_event_def event_data_def writes_fine_def)
  have r: "plain_request (conn_max_body (tc_state idle_conn)) get_encoded_a" using plain_get_encoded_a i(4) by simp
  from file_served_to_client[OF b _ g d n q s c f _ refl i(1-3) r e, where inflate = Some and st = "\<lparr>as_limiter = None, as_log = []\<rparr>"]
  show ?thesis by (auto simp del: conn_events.simps)
qed

end
