(* ===== verification/Reactor_Isolation.thy ===== *)
theory Reactor_Isolation
  imports Server App
begin

section \<open>Connections of one reactor\<close>

text \<open>
  The event loop serves all connections of a worker in one thread, from one table, with one
  service. What it does for one of them is compared with a run in which this is its only
  connection.
\<close>

subsection \<open>A service whose answers do not depend on its state\<close>

definition answers_fixed :: "('s \<Rightarrow> bool) \<Rightarrow> 's service \<Rightarrow> bool" where
  "answers_fixed I service \<longleftrightarrow> (\<forall>s s' request ctx. I s \<longrightarrow> I s' \<longrightarrow>
     fst (service s request ctx) = fst (service s' request ctx) \<and> I (snd (service s request ctx)))"

lemma app_answers_fixed: "answers_fixed (\<lambda>st. as_limiter st = None) (app_handle app)"
  by (simp add: answers_fixed_def app_handle_def app_log_def Let_def)

lemma conn_step_fixed:
  assumes "answers_fixed I service" and "conn_step service now c s = Some (st, c', s1)" and "I s" and "I t"
  shows "I s1 \<and> (\<exists>t1. conn_step service now c t = Some (st, c', t1) \<and> I t1)"
proof (cases "\<exists>request consumed. parse_with (conn_buf c) (conn_max_body c) = Ok (Complete request consumed)")
  case True
  then obtain request consumed where p: "parse_with (conn_buf c) (conn_max_body c) = Ok (Complete request consumed)" by blast
  obtain a s2 b t2 where sv: "service s request (conn_context c now) = (a, s2)"
    "service t request (conn_context c now) = (b, t2)" by fastforce
  have f: "fst (service s request (conn_context c now)) = fst (service t request (conn_context c now)) \<and>
      I (snd (service s request (conn_context c now)))" "I (snd (service t request (conn_context c now)))"
    using assms(1,3,4) unfolding answers_fixed_def by blast+
  then have "b = a" "I s2" "I t2" by (simp_all add: sv)
  with conn_step_complete[OF p, of service s now, OF sv(1)] conn_step_complete[OF p, of service t now, OF sv(2)] assms(2)
  show ?thesis by auto
next
  case False
  then have "conn_step service now c u = map_option (\<lambda>(st, c, _). (st, c, u)) (conn_step service now c s)" for u
    by (cases "parse_with (conn_buf c) (conn_max_body c)")
       (auto simp: conn_step_def Let_def split: parsed.split expect_action.split)
  from this[of s] this[of t] assms(2-) show ?thesis by auto
qed

lemma drive_fixed:
  "drive service now c s out = Some (out', closed, c', s') \<Longrightarrow> answers_fixed I service \<Longrightarrow> I s \<Longrightarrow> I t \<Longrightarrow>
     I s' \<and> (\<exists>t'. drive service now c t out = Some (out', closed, c', t') \<and> I t')"
proof (induction service now c s out arbitrary: t rule: drive.induct)
  case (1 service now c s out)
  from "1.prems"(1) obtain st c1 s1 where st: "conn_step service now c s = Some (st, c1, s1)"
    by (auto simp: drive.simps[of service now c] split: option.splits)
  from conn_step_fixed[OF "1.prems"(2) st "1.prems"(3,4)] obtain t1 where
    t1: "I s1" "conn_step service now c t = Some (st, c1, t1)" "I t1" by blast
  show ?case
  proof (cases st)
    case NeedMore
    with "1.prems" st t1 show ?thesis by (auto simp: drive.simps[of service now c])
  next
    case (Write b close)
    with "1.prems" st t1 "1.IH"[OF st refl Write refl _ _ "1.prems"(2) t1(1,3)] show ?thesis
      by (cases close) (auto simp: drive.simps[of service now c])
  qed
qed

lemma handle_ready_fixed:
  assumes "answers_fixed I service" and "I s" and "I t"
    and "handle_ready service now readable inputs writes c s = Some (dropped, c', s', sent)"
  shows "I s' \<and> (\<exists>t'. handle_ready service now readable inputs writes c t = Some (dropped, c', t', sent) \<and> I t')"
proof -
  define first where "first s = (if readable \<and> \<not> tc_close_after_flush c then read_and_drive service now inputs c s
     else Some (False, c, s))" for s
  from assms(4) obtain ended c1 s1 where f: "first s = Some (ended, c1, s1)"
    by (auto simp: handle_ready_def first_def[symmetric] split: option.splits)
  have "I s1 \<and> (\<exists>t1. first t = Some (ended, c1, t1) \<and> I t1)"
  proof (cases "readable \<and> \<not> tc_close_after_flush c")
    case True
    obtain gone state where r: "plain_read_in inputs (tc_state c) = (gone, state)" by fastforce
    show ?thesis
    proof (cases gone)
      case True
      with f r assms(2,3) \<open>readable \<and> _\<close> show ?thesis by (auto simp: first_def read_and_drive_def)
    next
      case False
      with f r \<open>readable \<and> _\<close> obtain out state' where
        d: "drive service now state s (tc_out c) = Some (out, tc_close_after_flush c1, state', s1)"
        and c1: "c1 = c\<lparr>tc_state := state', tc_out := out, tc_close_after_flush := tc_close_after_flush c1\<rparr>" "\<not> ended"
        by (auto simp: first_def read_and_drive_def split: option.splits)
      from drive_fixed[OF d assms(1-3)] r False \<open>readable \<and> _\<close> c1 show ?thesis
        by (auto simp: first_def read_and_drive_def)
    qed
  next
    case False
    with f assms(2,3) show ?thesis by (auto simp: first_def)
  qed
  then obtain t1 where t1: "I s1" "first t = Some (ended, c1, t1)" "I t1" by blast
  with assms(4) f show ?thesis
    by (auto simp: handle_ready_def first_def[symmetric] Let_def split: if_splits prod.splits)
qed

subsection \<open>One entry of the table\<close>

text \<open>
  The second reactor has at most one connection, the one the first has under the token; the
  token will not be handed out again.
\<close>

definition alike :: "nat \<Rightarrow> reactor \<Rightarrow> reactor \<Rightarrow> bool" where
  "alike token rx rx1 \<longleftrightarrow> map_of (rx_conns rx1) token = map_of (rx_conns rx) token \<and> token < rx_next_token rx \<and>
     fst ` set (rx_conns rx1) \<subseteq> {token} \<and> distinct (map fst (rx_conns rx)) \<and> distinct (map fst (rx_conns rx1))"

lemma alike_empty: "alike token rx rx1 \<Longrightarrow> rx_conns rx1 = [] \<longleftrightarrow> map_of (rx_conns rx) token = None"
  by (cases "rx_conns rx1") (auto simp: alike_def split: if_splits)

lemma keys_delete: "fst ` set (AList.delete t xs) = fst ` set xs - {t}"
  unfolding delete_fst_filter by auto

lemma alike_close: "alike token rx rx1 \<Longrightarrow> alike token (close_conn t rx) (close_conn t rx1)"
  unfolding alike_def close_conn_def by (auto simp: keys_delete delete_conv' distinct_delete)

lemma alike_close_other: "alike token rx rx1 \<Longrightarrow> t \<noteq> token \<Longrightarrow> alike token (close_conn t rx) rx1"
  by (auto simp: alike_def close_conn_def delete_conv' distinct_delete)

lemma alike_update:
  "alike token rx rx1 \<Longrightarrow> alike token (rx\<lparr>rx_conns := AList.update token c (rx_conns rx)\<rparr>)
     (rx1\<lparr>rx_conns := AList.update token c (rx_conns rx1)\<rparr>)"
  by (auto simp: alike_def update_conv' distinct_update dom_update)

lemma alike_update_other:
  "alike token rx rx1 \<Longrightarrow> t \<noteq> token \<Longrightarrow> alike token (rx\<lparr>rx_conns := AList.update t c (rx_conns rx)\<rparr>) rx1"
  by (auto simp: alike_def update_conv' distinct_update)

lemma alike_accept: "alike token rx rx1 \<Longrightarrow> alike token (accept_all opts instant accepts rx) rx1"
proof (induction opts instant accepts rx rule: accept_all.induct)
  case (2 opts instant peer registered accepts rx)
  have "alike token (rx\<lparr>rx_next_token := rx_next_token rx + 1\<rparr>) rx1" and "rx_next_token rx \<noteq> token"
    using "2.prems" by (auto simp: alike_def)
  note one_more = this(1) alike_update_other[OF this]
  show ?case
    using "2.IH" "2.prems" one_more by (auto simp: Let_def)
qed auto

lemma alike_sweep: "alike token rx rx1 \<Longrightarrow> alike token (sweep_idle now idle rx) (sweep_idle now idle rx1)"
proof -
  assume a: "alike token rx rx1"
  have m: "map_of (filter (\<lambda>(_, c). P c) xs) k = (case map_of xs k of Some c \<Rightarrow> if P c then Some c else None | None \<Rightarrow> None)"
    if "distinct (map fst xs)" for P and xs :: "(nat \<times> tconn) list" and k
    using that by (induction xs) (auto simp: map_of_eq_None_iff[THEN iffD2] split: option.split)
  have n: "rx_next_token (sweep_idle now idle rx) = rx_next_token rx" for rx
    using no_newcomer_fold_close by (simp add: sweep_idle_def Let_def no_newcomer_def)
  show ?thesis
    using a unfolding alike_def n by (auto simp: sweep_filter m distinct_map_filter)
qed

lemma alike_token:
  assumes "answers_fixed I service" and "handle_token service rd (rx, s) = Some (rx', s')" and "alike token rx rx1"
    and "I s" and "I t"
  shows "I s' \<and> (if rd_token rd = token
    then \<exists>rx1' t'. handle_token service rd (rx1, t) = Some (rx1', t') \<and> alike token rx' rx1' \<and> I t'
    else alike token rx' rx1)"
proof (cases "map_of (rx_conns rx) (rd_token rd)")
  case None
  with assms show ?thesis by (auto simp: handle_token_def alike_def)
next
  case (Some c)
  with assms(2) obtain dropped c1 sent where
    h: "handle_ready service (rd_unix rd) (rd_readable rd) (rd_reads rd) (rd_writes rd)
      (c\<lparr>tc_last_activity := rd_instant rd\<rparr>) s = Some (dropped, c1, s', sent)"
    by (auto simp: handle_token_def Let_def split: option.splits)
  let ?upd = "\<lambda>rx. rx\<lparr>rx_conns := AList.update (rd_token rd) c1 (rx_conns rx)\<rparr>"
  let ?after = "\<lambda>rx. if dropped then close_conn (rd_token rd) (?upd rx) else ?upd rx"
  have rx': "rx' = ?after rx" using assms(2) Some h by (simp add: handle_token_def Let_def split: if_splits)
  from handle_ready_fixed[OF assms(1,4,5) h] obtain t' where i: "I s'" "I t'"
    and h1: "handle_ready service (rd_unix rd) (rd_readable rd) (rd_reads rd) (rd_writes rd)
      (c\<lparr>tc_last_activity := rd_instant rd\<rparr>) t = Some (dropped, c1, t', sent)" by blast
  show ?thesis
  proof (cases "rd_token rd = token")
    case True
    with Some assms(3) h1 have "handle_token service rd (rx1, t) = Some (?after rx1, t')"
      by (simp add: handle_token_def Let_def alike_def)
    moreover have "alike token (?after rx) (?after rx1)"
      using alike_update[OF assms(3), of c1] alike_close True by auto
    ultimately show ?thesis using True i rx' by auto
  next
    case False
    have "alike token (?after rx) rx1"
      using alike_update_other[OF assms(3) False, of c1] alike_close_other[OF _ False] by auto
    with False i rx' show ?thesis by simp
  qed
qed

subsection \<open>The loop\<close>

definition event_of :: "nat \<Rightarrow> poll_event \<Rightarrow> bool" where
  "event_of token e \<longleftrightarrow> (case e of ConnReady rd \<Rightarrow> rd_token rd = token | ListenerReady _ _ \<Rightarrow> False)"

definition only :: "nat \<Rightarrow> turn \<Rightarrow> turn" where
  "only token tn = tn\<lparr>tn_events := filter (event_of token) (tn_events tn)\<rparr>"

lemma alike_events:
  "poll_events service opts accepting events x = Some y \<Longrightarrow> answers_fixed I service \<Longrightarrow> alike token (fst x) rx1 \<Longrightarrow>
     I (snd x) \<Longrightarrow> I t \<Longrightarrow> \<exists>rx1' t'. poll_events service opts accepting (filter (event_of token) events) (rx1, t) = Some (rx1', t') \<and>
       alike token (fst y) rx1' \<and> I (snd y) \<and> I t'"
proof (induction service opts accepting events x arbitrary: rx1 t rule: poll_events.induct)
  case (2 service opts accepting instant accepts events x)
  then show ?case using alike_accept[OF "2.prems"(3)] by (cases accepting) (auto simp: event_of_def)
next
  case (3 service opts accepting rd events x)
  from "3.prems"(1) obtain z where z: "handle_token service rd x = Some z"
    "poll_events service opts accepting events z = Some y" by (auto split: option.splits)
  from alike_token[OF "3.prems"(2), of rd "fst x" "snd x" "fst z" "snd z" token rx1 t] z(1) "3.prems"(3-5)
  have a: "I (snd z)" "if rd_token rd = token
      then \<exists>rx1' t'. handle_token service rd (rx1, t) = Some (rx1', t') \<and> alike token (fst z) rx1' \<and> I t'
      else alike token (fst z) rx1" by simp_all
  show ?case
  proof (cases "rd_token rd = token")
    case True
    with a(2) obtain rx2 t2 where "handle_token service rd (rx1, t) = Some (rx2, t2)" "alike token (fst z) rx2" "I t2"
      by auto
    with "3.IH"[OF z "3.prems"(2) this(2) a(1) this(3)] True show ?thesis by (auto simp: event_of_def)
  next
    case False
    with a(2) "3.IH"[OF z "3.prems"(2) _ a(1) "3.prems"(5)] show ?thesis by (simp add: event_of_def)
  qed
qed auto

lemma alike_turn:
  assumes "reactor_turn service opts accepting (tn_events tn) now x = Some y" and "answers_fixed I service"
    and "alike token (fst x) rx1" and "I (snd x)" and "I t"
  shows "\<exists>rx1' t'. reactor_turn service opts accepting (tn_events (only token tn)) now (rx1, t) = Some (rx1', t') \<and>
    alike token (fst y) rx1' \<and> I (snd y) \<and> I t'"
proof -
  from assms(1) obtain z where z: "poll_events service opts accepting (tn_events tn) x = Some z"
    "y = (sweep_idle now (opt_idle_timeout opts) (fst z), snd z)"
    by (auto simp: reactor_turn_def split: option.splits prod.splits)
  from alike_events[OF z(1) assms(2-)] alike_sweep z(2) show ?thesis
    by (fastforce simp: reactor_turn_def only_def)
qed

lemma only_simps [simp]:
  "tn_shutdown (only token tn) = tn_shutdown tn" "tn_start (only token tn) = tn_start tn"
  "tn_poll_ok (only token tn) = tn_poll_ok tn" "tn_sweep (only token tn) = tn_sweep tn"
  by (simp_all add: only_def)

lemma alike_drain:
  "drain_loop service opts deadline turns x = Some (status, y) \<Longrightarrow> answers_fixed I service \<Longrightarrow>
     alike token (fst x) rx1 \<Longrightarrow> I (snd x) \<Longrightarrow> I t \<Longrightarrow>
     \<exists>status1 rx1' t'. drain_loop service opts deadline (map (only token) turns) (rx1, t) = Some (status1, rx1', t') \<and>
       alike token (fst y) rx1' \<and> (rx_conns rx1' \<noteq> [] \<longrightarrow> status1 = status)"
proof (induction turns arbitrary: x rx1 t)
  case (Cons tn turns)
  have e: "rx_conns (fst x) = [] \<Longrightarrow> rx_conns rx1 = []" using alike_empty[OF Cons.prems(3)] by simp
  show ?case
  proof (cases "rx_conns (fst x) = [] \<or> deadline \<le> tn_start tn \<or> \<not> tn_poll_ok tn")
    case True
    with Cons.prems e show ?thesis by (auto split: if_splits)
  next
    case False
    with Cons.prems(1) obtain z where z: "reactor_turn service opts False (tn_events tn) (tn_sweep tn) x = Some z"
      "drain_loop service opts deadline turns z = Some (status, y)" by (auto split: option.splits)
    from alike_turn[OF z(1) Cons.prems(2-5)] obtain rx2 t2 where
      r: "reactor_turn service opts False (tn_events (only token tn)) (tn_sweep tn) (rx1, t) = Some (rx2, t2)"
      "alike token (fst z) rx2" "I (snd z)" "I t2" by blast
    from Cons.IH[OF z(2) Cons.prems(2) r(2-4)] obtain status1 rx3 t3 where
      ih: "drain_loop service opts deadline (map (only token) turns) (rx2, t2) = Some (status1, rx3, t3)"
      "alike token (fst y) rx3" "rx_conns rx3 \<noteq> [] \<longrightarrow> status1 = status" by blast
    show ?thesis
    proof (cases "rx_conns rx1 = []")
      case True
      have "no_newcomer rx1 rx3"
        using no_newcomer_trans no_newcomer_drain_turn[OF r(1)] drain_loop_ends[OF ih(1)] by fastforce
      with True have "rx_conns rx3 = []" by (simp add: no_newcomer_def)
      with ih(2) True have "alike token (fst y) rx1" by (simp add: alike_def)
      with True show ?thesis by auto
    next
      case still: False
      with False r(1) ih show ?thesis by auto
    qed
  qed
qed auto

lemma alike_run:
  "run_reactor service opts turns x = Some (status, y) \<Longrightarrow> answers_fixed I service \<Longrightarrow>
     alike token (fst x) rx1 \<Longrightarrow> I (snd x) \<Longrightarrow> I t \<Longrightarrow>
     \<exists>status1 rx1' t'. run_reactor service opts (map (only token) turns) (rx1, t) = Some (status1, rx1', t') \<and>
       alike token (fst y) rx1' \<and> (rx_conns rx1' \<noteq> [] \<longrightarrow> status1 = status)"
proof (induction turns arbitrary: x rx1 t)
  case (Cons tn turns)
  show ?case
  proof (cases "tn_shutdown tn")
    case True
    with Cons.prems alike_drain[of service opts "tn_start tn + SHUTDOWN_GRACE" "tn # turns" x status y I token rx1 t]
    show ?thesis by simp
  next
    case False
    show ?thesis
    proof (cases "tn_poll_ok tn")
      case True
      with False Cons.prems(1) obtain z where z: "reactor_turn service opts True (tn_events tn) (tn_sweep tn) x = Some z"
        "run_reactor service opts turns z = Some (status, y)" by (auto split: option.splits)
      from alike_turn[OF z(1) Cons.prems(2-5)] obtain rx2 t2 where
        r: "reactor_turn service opts True (tn_events (only token tn)) (tn_sweep tn) (rx1, t) = Some (rx2, t2)"
        "alike token (fst z) rx2" "I (snd z)" "I t2" by blast
      from Cons.IH[OF z(2) Cons.prems(2) r(2-4)] r(1) True False show ?thesis by auto
    next
      case poll: False
      with False Cons.prems show ?thesis by auto
    qed
  qed
qed auto

text \<open>C9: the connections of a worker do not disturb each other. A service answers by the request
  alone as long as its state stays in a set, as the std app without the rate limiter does; a
  reactor runs through any turns, with any connections, accepts, errors and a shutdown. What it
  has made of one connection in the end (its buffers, its flags, or that it is gone) is what it
  would have made of it alone, from the events of this connection and the same clock.\<close>

theorem connections_isolated:
  assumes "answers_fixed I service" and "I s"
    and "distinct (map fst (rx_conns rx))" and "map_of (rx_conns rx) token = Some c" and "token < rx_next_token rx"
    and "run_reactor service opts turns (rx, s) = Some (status, rx', s')"
  shows "\<exists>status1 rx1 s1.
    run_reactor service opts (map (only token) turns) (rx\<lparr>rx_conns := [(token, c)]\<rparr>, s) = Some (status1, rx1, s1) \<and>
    map_of (rx_conns rx') token = map_of (rx_conns rx1) token \<and>
    (map_of (rx_conns rx') token \<noteq> None \<longrightarrow> status1 = status)"
proof -
  have a: "alike token (fst (rx, s)) (rx\<lparr>rx_conns := [(token, c)]\<rparr>)" and i: "I (snd (rx, s))"
    using assms(2-5) by (simp_all add: alike_def)
  from alike_run[OF assms(6,1) a i assms(2)] obtain status1 rx1 s1 where
    r: "run_reactor service opts (map (only token) turns) (rx\<lparr>rx_conns := [(token, c)]\<rparr>, s) = Some (status1, rx1, s1)"
    "alike token rx' rx1" "rx_conns rx1 \<noteq> [] \<longrightarrow> status1 = status" by auto
  from r(2) have "map_of (rx_conns rx') token = map_of (rx_conns rx1) token" by (simp add: alike_def)
  with r alike_empty[OF r(2)] show ?thesis by auto
qed

definition two_conns :: reactor where
  "two_conns = \<lparr>rx_conns = [(1, idle_conn), (2, idle_conn)], rx_next_token = 3\<rparr>"

text \<open>The second connection fails and a third arrives, while the first has a byte pending.\<close>

definition busy_turn :: turn where
  "busy_turn = \<lparr>tn_shutdown = False, tn_start = 0, tn_poll_ok = True,
     tn_events = [ConnReady ((writable 1)\<lparr>rd_token := 2, rd_readable := True, rd_reads := [ReadFailed]\<rparr>),
       ListenerReady 0 [AcceptOk [] True], ConnReady (writable 1)], tn_sweep = 0\<rparr>"

lemma echo_fixed: "answers_fixed (\<lambda>_. True) echo_service"
  by (simp add: answers_fixed_def)

theorem connections_isolated_witness:
  "\<exists>status1 rx1 s1. run_reactor echo_service sample_options [only 1 busy_turn]
       (\<lparr>rx_conns = [(1, idle_conn)], rx_next_token = 3\<rparr>, ()) = Some (status1, rx1, s1) \<and>
     map_of (rx_conns rx1) 1 = Some idle_conn \<and> status1 = Running"
proof -
  have i: "tc_last_activity idle_conn = 0" "tc_out idle_conn = []" "\<not> tc_close_after_flush idle_conn"
    "\<not> tc_wants_write idle_conn"
    by (simp_all add: idle_conn_def tconn_new_def)
  then have a: "idle_conn\<lparr>tc_last_activity := 0, tc_out := []\<rparr> = idle_conn" "idle_conn\<lparr>tc_last_activity := 0\<rparr> = idle_conn"
    by (simp_all add: idle_conn_def tconn_new_def)
  let ?c = "tconn_new 3 False 100 [] 0"
  have "run_reactor echo_service sample_options [busy_turn] (two_conns, ()) =
      Some (Running, \<lparr>rx_conns = [(1, idle_conn), (3, ?c)], rx_next_token = 4\<rparr>, ())"
    by (simp add: busy_turn_def two_conns_def writable_def reactor_turn_def handle_token_def handle_ready_def
        read_and_drive_def update_interest_def pending_write_def close_conn_def sweep_idle_def sample_options_def
        Let_def i a)
  from connections_isolated[OF echo_fixed _ _ _ _ this, of 1 idle_conn]
  show ?thesis by (auto simp: two_conns_def simp del: run_reactor.simps)
qed

subsection \<open>A client among others\<close>

text \<open>The readiness events of one connection in a list of events, and in the turns of a reactor.\<close>

fun own_events :: "nat \<Rightarrow> poll_event list \<Rightarrow> ready list" where
  "own_events token [] = []"
| "own_events token (ListenerReady instant accepts # events) = own_events token events"
| "own_events token (ConnReady rd # events) =
     (if rd_token rd = token then rd # own_events token events else own_events token events)"

definition own_turns :: "nat \<Rightarrow> turn list \<Rightarrow> ready list" where
  "own_turns token turns = concat (map (\<lambda>tn. own_events token (tn_events tn)) turns)"

lemma filter_own: "filter (event_of token) events = map ConnReady (own_events token events)"
  by (induction token events rule: own_events.induct) (simp_all add: event_of_def)

lemma own_token: "rd \<in> set (own_events token events) \<Longrightarrow> rd_token rd = token"
  by (induction token events rule: own_events.induct) (auto split: if_splits)

text \<open>Whenever the reactor sweeps, the last event of the connection is recent enough.\<close>

definition activity :: "nat \<Rightarrow> ready list \<Rightarrow> nat" where
  "activity start rds = (if rds = [] then start else rd_instant (last rds))"

fun never_idle :: "nat \<Rightarrow> nat \<Rightarrow> nat \<Rightarrow> turn list \<Rightarrow> bool" where
  "never_idle idle token start [] = True"
| "never_idle idle token start (tn # turns) =
     (let start = activity start (own_events token (tn_events tn))
      in tn_sweep tn - start \<le> idle \<and> never_idle idle token start turns)"

lemma conn_events_activity:
  "conn_events service rds c s = Some (False, c', s', sent) \<Longrightarrow> tc_last_activity c' = activity (tc_last_activity c) rds"
proof (induction rds arbitrary: c s sent)
  case (Cons rd rds)
  from Cons.prems obtain c1 s1 sent1 later where
    h: "handle_ready service (rd_unix rd) (rd_readable rd) (rd_reads rd) (rd_writes rd)
      (c\<lparr>tc_last_activity := rd_instant rd\<rparr>) s = Some (False, c1, s1, sent1)"
    and m: "conn_events service rds c1 s1 = Some (False, c', s', later)"
    by (auto split: option.splits if_splits prod.splits)
  from handle_ready_emits[OF h] have "tc_last_activity c1 = rd_instant rd" by auto
  with Cons.IH[OF m] show ?case by (auto simp: activity_def)
qed (simp add: activity_def)

lemma conn_events_append:
  "conn_events service (rds @ rds') c s = Some (False, c', s', sent) \<Longrightarrow> \<exists>c1 s1 sent1 sent2.
     conn_events service rds c s = Some (False, c1, s1, sent1) \<and>
     conn_events service rds' c1 s1 = Some (False, c', s', sent2) \<and> sent = sent1 @ sent2"
  by (induction rds arbitrary: c s sent) (fastforce split: option.splits if_splits prod.splits)+

lemma lone_events:
  "conn_events service rds c s = Some (False, c', s', sent) \<Longrightarrow> \<forall>rd \<in> set rds. rd_token rd = token \<Longrightarrow>
     poll_events service opts accepting (map ConnReady rds) (rx\<lparr>rx_conns := [(token, c)]\<rparr>, s) =
       Some (rx\<lparr>rx_conns := [(token, c')]\<rparr>, s')"
proof (induction rds arbitrary: c s sent)
  case (Cons rd rds)
  from Cons.prems(1) obtain c1 s1 sent1 later where
    h: "handle_ready service (rd_unix rd) (rd_readable rd) (rd_reads rd) (rd_writes rd)
      (c\<lparr>tc_last_activity := rd_instant rd\<rparr>) s = Some (False, c1, s1, sent1)"
    and m: "conn_events service rds c1 s1 = Some (False, c', s', later)"
    by (auto split: option.splits if_splits prod.splits)
  with Cons.IH[OF m] Cons.prems(2) show ?case by (simp add: handle_token_def Let_def)
qed simp

lemma lone_turns:
  "conn_events service (own_turns token turns) c s = Some (False, c', s', sent) \<Longrightarrow>
     \<forall>tn \<in> set turns. \<not> tn_shutdown tn \<and> tn_poll_ok tn \<Longrightarrow>
     never_idle (opt_idle_timeout opts) token (tc_last_activity c) turns \<Longrightarrow>
     run_reactor service opts (map (only token) turns) (rx\<lparr>rx_conns := [(token, c)]\<rparr>, s) =
       Some (Running, rx\<lparr>rx_conns := [(token, c')]\<rparr>, s')"
proof (induction turns arbitrary: c s sent)
  case (Cons tn turns)
  let ?rds = "own_events token (tn_events tn)"
  from Cons.prems(1) have "conn_events service (?rds @ own_turns token turns) c s = Some (False, c', s', sent)"
    by (simp add: own_turns_def)
  from conn_events_append[OF this] obtain c1 s1 sent1 sent2 where
    e: "conn_events service ?rds c s = Some (False, c1, s1, sent1)"
      "conn_events service (own_turns token turns) c1 s1 = Some (False, c', s', sent2)" by blast
  have a: "tc_last_activity c1 = activity (tc_last_activity c) ?rds" by (rule conn_events_activity[OF e(1)])
  with Cons.prems(3) have i: "tn_sweep tn - tc_last_activity c1 \<le> opt_idle_timeout opts"
    "never_idle (opt_idle_timeout opts) token (tc_last_activity c1) turns" by (simp_all add: Let_def)
  have "poll_events service opts True (map ConnReady ?rds) (rx\<lparr>rx_conns := [(token, c)]\<rparr>, s) =
      Some (rx\<lparr>rx_conns := [(token, c1)]\<rparr>, s1)"
    by (rule lone_events[OF e(1)]) (simp add: own_token)
  then have "reactor_turn service opts True (tn_events (only token tn)) (tn_sweep tn) (rx\<lparr>rx_conns := [(token, c)]\<rparr>, s) =
      Some (rx\<lparr>rx_conns := [(token, c1)]\<rparr>, s1)"
    using i(1) by (simp add: reactor_turn_def only_def filter_own sweep_idle_def)
  with Cons.IH[OF e(2) _ i(2)] Cons.prems(2) show ?case by simp
qed (simp add: own_turns_def)


text \<open>The second connection fails before the request of the first has begun, and a third arrives.\<close>

definition mixed_turns :: "ready \<Rightarrow> ready \<Rightarrow> turn list" where
  "mixed_turns a b =
     [busy_turn\<lparr>tn_events := [ConnReady ((writable 1)\<lparr>rd_token := 2, rd_readable := True, rd_reads := [ReadFailed]\<rparr>),
        ConnReady a], tn_sweep := 4\<rparr>,
      busy_turn\<lparr>tn_events := [ListenerReady 5 [AcceptOk [] True], ConnReady b], tn_sweep := 5\<rparr>]"

lemma mixed_run:
  assumes "conn_events echo_service [a, b] idle_conn () = Some (False, c', (), sent)"
    and "rd_token a = 1" "rd_instant a = 4" "rd_token b = 1" "rd_instant b = 5"
  shows "\<exists>rx'. run_reactor echo_service sample_options (mixed_turns a b) (two_conns, ()) = Some (Running, rx', ())"
proof -
  from conn_events_append[of echo_service "[a]" "[b]" idle_conn "()" c' "()" sent] assms(1) obtain c1 s1 s2 where
    e: "conn_events echo_service [a] idle_conn () = Some (False, c1, (), s1)"
      "conn_events echo_service [b] c1 () = Some (False, c', (), s2)" by auto
  have t: "tc_last_activity c1 = 4" "tc_last_activity c' = 5"
    using conn_events_activity[OF e(1)] conn_events_activity[OF e(2)] assms(2-5) by (simp_all add: activity_def)
  from e assms(2-5) have h: "handle_ready echo_service (rd_unix a) (rd_readable a) (rd_reads a) (rd_writes a)
      (idle_conn\<lparr>tc_last_activity := 4\<rparr>) () = Some (False, c1, (), s1)"
    "handle_ready echo_service (rd_unix b) (rd_readable b) (rd_reads b) (rd_writes b)
      (c1\<lparr>tc_last_activity := 5\<rparr>) () = Some (False, c', (), s2)"
    by (auto split: option.splits if_splits)
  have f: "\<not> tc_close_after_flush c \<Longrightarrow> handle_ready echo_service n True [ReadFailed] ws c () = Some (True, c, (), [])"
    for n ws c
    by (simp add: handle_ready_def read_and_drive_def)
  have i: "\<not> tc_close_after_flush idle_conn"
    by (simp add: idle_conn_def tconn_new_def)
  show ?thesis
    by (simp add: i mixed_turns_def busy_turn_def two_conns_def reactor_turn_def handle_token_def assms(2-5) h f t writable_def
        Let_def close_conn_def sweep_idle_def sample_options_def tconn_new_def)
qed


end
